(* ===== verification/Prelude.thy ===== *)
theory Prelude
  imports Main "HOL-Library.Monad_Syntax" "HOL-Library.Multiset"
begin

text \<open>
  The shared base of the development: machine integers of the Rust sources with the
  overflow behaviour of the release profile (\<^verbatim>\<open>overflow-checks = true\<close>, so an
  arithmetic overflow is a panic), the ordered map \<^verbatim>\<open>BTreeMap\<close> as a key-sorted
  association list, and the list lemmas several components share.

  Conventions used by every theory:
  \<^item> a \<open>u64\<close> or \<open>usize\<close> value is a \<open>nat\<close>; the operations that can leave the
    64-bit range are \<open>add64\<close>, \<open>sub64\<close> and \<open>mul64\<close>, which return \<open>None\<close> there;
  \<^item> \<open>None\<close> of a computation is a panic of the Rust thread (failed assertion, failed
    \<^verbatim>\<open>expect\<close>, index out of range, arithmetic overflow);
  \<^item> \<open>Inl e\<close> of a sum is the \<^verbatim>\<open>Err(e)\<close> of a \<^verbatim>\<open>Result\<close>, \<open>Inr v\<close> its \<^verbatim>\<open>Ok(v)\<close>.
\<close>

named_theorems u64_simps \<open>checked 64-bit arithmetic, as equivalences with its results\<close>
named_theorems bt_simps \<open>ordered maps: lookup, keys and sortedness after an update\<close>

section \<open>Unsigned 64-bit arithmetic with overflow checks\<close>

definition U64_MAX :: nat where
  "U64_MAX = 18446744073709551615"

definition add64 :: "nat \<Rightarrow> nat \<Rightarrow> nat option" where
  "add64 a b = (if a + b \<le> U64_MAX then Some (a + b) else None)"

definition sub64 :: "nat \<Rightarrow> nat \<Rightarrow> nat option" where
  "sub64 a b = (if b \<le> a then Some (a - b) else None)"

definition mul64 :: "nat \<Rightarrow> nat \<Rightarrow> nat option" where
  "mul64 a b = (if a * b \<le> U64_MAX then Some (a * b) else None)"

definition div64 :: "nat \<Rightarrow> nat \<Rightarrow> nat option" where
  "div64 a b = (if b = 0 then None else Some (a div b))"

definition mod64 :: "nat \<Rightarrow> nat \<Rightarrow> nat option" where
  "mod64 a b = (if b = 0 then None else Some (a mod b))"

definition saturating_add64 :: "nat \<Rightarrow> nat \<Rightarrow> nat" where
  "saturating_add64 a b = min (a + b) U64_MAX"

text \<open>\<^verbatim>\<open>assert!\<close>, \<^verbatim>\<open>assert_eq!\<close> and \<^verbatim>\<open>debug_assert!\<close> (debug assertions are on in the
  release profile of the repository).\<close>

definition assert_that :: "bool \<Rightarrow> unit option" where
  "assert_that b = (if b then Some () else None)"

text \<open>Slice indexing \<^verbatim>\<open>xs[i]\<close>: out of range is a panic.\<close>

definition index_at :: "'a list \<Rightarrow> nat \<Rightarrow> 'a option" where
  "index_at xs i = (if i < length xs then Some (xs ! i) else None)"

lemma add64_Some_iff [u64_simps]: "add64 a b = Some c \<longleftrightarrow> c = a + b \<and> a + b \<le> U64_MAX"
  by (auto simp: add64_def)

lemma add64_None_iff [u64_simps]: "add64 a b = None \<longleftrightarrow> U64_MAX < a + b"
  by (auto simp: add64_def)

lemma sub64_Some_iff [u64_simps]: "sub64 a b = Some c \<longleftrightarrow> a = b + c"
  by (auto simp: sub64_def)

lemma sub64_None_iff [u64_simps]: "sub64 a b = None \<longleftrightarrow> a < b"
  by (auto simp: sub64_def)

lemma mul64_Some_iff [u64_simps]: "mul64 a b = Some c \<longleftrightarrow> c = a * b \<and> a * b \<le> U64_MAX"
  by (auto simp: mul64_def)

lemma div64_Some_iff [u64_simps]: "div64 a b = Some c \<longleftrightarrow> 0 < b \<and> c = a div b"
  by (auto simp: div64_def)

lemma mod64_Some_iff [u64_simps]: "mod64 a b = Some c \<longleftrightarrow> 0 < b \<and> c = a mod b"
  by (auto simp: mod64_def)

lemma add64_ok: "a + b \<le> U64_MAX \<Longrightarrow> add64 a b = Some (a + b)"
  by (simp add: add64_def)

lemma sub64_ok: "b \<le> a \<Longrightarrow> sub64 a b = Some (a - b)"
  by (simp add: sub64_def)

lemma mul64_ok: "a * b \<le> U64_MAX \<Longrightarrow> mul64 a b = Some (a * b)"
  by (simp add: mul64_def)

lemma assert_that_Some_iff [u64_simps]: "assert_that b = Some u \<longleftrightarrow> b"
  by (simp add: assert_that_def)

lemma assert_that_simps [simp]: "assert_that True = Some ()" "assert_that False = None"
  by (simp_all add: assert_that_def)

lemma index_at_Some_iff [u64_simps]: "index_at xs i = Some x \<longleftrightarrow> i < length xs \<and> x = xs ! i"
  by (auto simp: index_at_def)

lemma index_at_ok: "i < length xs \<Longrightarrow> index_at xs i = Some (xs ! i)"
  by (simp add: index_at_def)

lemma U64_MAX_gt_small [simp]: "0 < U64_MAX" "1 \<le> U64_MAX"
  by (simp_all add: U64_MAX_def)

lemmas option_bind_simps = bind_eq_Some_conv bind_eq_None_conv

section \<open>Ordered maps\<close>

text \<open>
  \<^verbatim>\<open>BTreeMap<K, V>\<close> is the list of its entries in ascending key order. Iteration, \<open>keys\<close>
  and \<open>values\<close> follow that order, \<open>map_of\<close> is \<^verbatim>\<open>get\<close> and the length is \<^verbatim>\<open>len\<close>.
\<close>

type_synonym ('k, 'v) btree = "('k \<times> 'v) list"

definition bt_ok :: "('k::linorder, 'v) btree \<Rightarrow> bool" where
  "bt_ok m \<longleftrightarrow> sorted_wrt (<) (map fst m)"

text \<open>\<^verbatim>\<open>insert\<close>: replaces the value of an existing key.\<close>

fun bt_insert :: "'k::linorder \<Rightarrow> 'v \<Rightarrow> ('k, 'v) btree \<Rightarrow> ('k, 'v) btree" where
  "bt_insert k v [] = [(k, v)]"
| "bt_insert k v ((k', v') # m) =
     (if k < k' then (k, v) # (k', v') # m
      else if k = k' then (k, v) # m
      else (k', v') # bt_insert k v m)"

text \<open>\<^verbatim>\<open>entry(k).or_insert(v)\<close>: keeps the value of an existing key.\<close>

definition bt_or_insert :: "'k::linorder \<Rightarrow> 'v \<Rightarrow> ('k, 'v) btree \<Rightarrow> ('k, 'v) btree" where
  "bt_or_insert k v m = (case map_of m k of None \<Rightarrow> bt_insert k v m | Some _ \<Rightarrow> m)"

text \<open>\<^verbatim>\<open>*entry(k).or_insert(0) += n\<close>, with the overflow check of \<^verbatim>\<open>+=\<close>.\<close>

definition bt_entry_add :: "'k::linorder \<Rightarrow> nat \<Rightarrow> ('k, nat) btree \<Rightarrow> ('k, nat) btree option" where
  "bt_entry_add k n m =
     do { v \<leftarrow> add64 (case map_of m k of None \<Rightarrow> 0 | Some v \<Rightarrow> v) n; Some (bt_insert k v m) }"

text \<open>\<^verbatim>\<open>remove\<close>.\<close>

definition bt_remove :: "'k \<Rightarrow> ('k, 'v) btree \<Rightarrow> ('k, 'v) btree" where
  "bt_remove k m = filter (\<lambda>e. fst e \<noteq> k) m"

text \<open>The sum of the values, the quantity the vote counts are about.\<close>

definition bt_sum :: "('k, nat) btree \<Rightarrow> nat" where
  "bt_sum m = sum_list (map snd m)"

lemma bt_ok_Nil [simp]: "bt_ok []"
  by (simp add: bt_ok_def)

lemma bt_ok_Cons: "bt_ok (e # m) \<longleftrightarrow> (\<forall>e'\<in>set m. fst e < fst e') \<and> bt_ok m"
  by (auto simp: bt_ok_def)

lemma bt_ok_distinct: "bt_ok m \<Longrightarrow> distinct (map fst m)"
  by (simp add: bt_ok_def strict_sorted_iff)

lemma map_of_bt_insert [bt_simps]: "map_of (bt_insert k v m) = (map_of m)(k \<mapsto> v)"
  by (induction m) (auto simp: fun_eq_iff)

lemma set_bt_insert_keys [bt_simps]: "fst ` set (bt_insert k v m) = insert k (fst ` set m)"
proof (induction m)
  case (Cons e m)
  then show ?case by (cases e) auto
qed simp

lemma set_bt_insert_subset: "set (bt_insert k v m) \<subseteq> insert (k, v) (set m)"
proof (induction m)
  case (Cons e m)
  then show ?case by (cases e) auto
qed simp

lemma bt_ok_insert [bt_simps]: "bt_ok m \<Longrightarrow> bt_ok (bt_insert k v m)"
proof (induction m)
  case (Cons e m)
  obtain k' v' where e: "e = (k', v')" by (cases e)
  have keys: "\<And>e'. e' \<in> set (bt_insert k v m) \<Longrightarrow> fst e' = k \<or> (\<exists>d\<in>set m. fst e' = fst d)"
    using set_bt_insert_subset [of k v m] by fastforce
  show ?case
    using Cons keys by (fastforce simp: e bt_ok_Cons)
qed (simp add: bt_ok_Cons)

lemma map_of_bt_remove [bt_simps]: "map_of (bt_remove k m) = (map_of m)(k := None)"
  by (induction m) (auto simp: bt_remove_def fun_eq_iff)

lemma bt_ok_remove [bt_simps]: "bt_ok m \<Longrightarrow> bt_ok (bt_remove k m)"
  by (auto simp: bt_ok_def bt_remove_def sorted_wrt_map sorted_wrt_filter)

lemma bt_sum_Nil [simp]: "bt_sum [] = 0"
  by (simp add: bt_sum_def)

lemma bt_sum_Cons [simp]: "bt_sum (e # m) = snd e + bt_sum m"
  by (simp add: bt_sum_def)

lemma bt_sum_insert:
  "bt_ok m \<Longrightarrow> bt_sum (bt_insert k v m) + (case map_of m k of None \<Rightarrow> 0 | Some w \<Rightarrow> w) = bt_sum m + v"
proof (induction m)
  case (Cons e m)
  obtain k' v' where e: "e = (k', v')" by (cases e)
  have "k < k' \<Longrightarrow> map_of m k = None"
    using Cons.prems by (force simp: e bt_ok_Cons map_of_eq_None_iff)
  moreover have "bt_ok m"
    using Cons.prems by (simp add: bt_ok_Cons)
  ultimately show ?case
    using Cons.IH by (auto simp: e)
qed simp

lemma bt_lookup_le_sum: "map_of m k = Some v \<Longrightarrow> v \<le> bt_sum m"
proof (induction m)
  case (Cons e m)
  then show ?case by (cases e) (auto split: if_splits intro: trans_le_add2)
qed simp

lemma bt_or_insert_lookup [bt_simps]:
  "map_of (bt_or_insert k v m) = (map_of m)(k \<mapsto> (case map_of m k of None \<Rightarrow> v | Some w \<Rightarrow> w))"
  by (auto simp: bt_or_insert_def bt_simps fun_eq_iff split: option.splits)

lemma bt_ok_or_insert [bt_simps]: "bt_ok m \<Longrightarrow> bt_ok (bt_or_insert k v m)"
  by (simp add: bt_or_insert_def bt_simps split: option.split)

lemma bt_keys_or_insert [bt_simps]: "fst ` set (bt_or_insert k v m) = insert k (fst ` set m)"
  by (auto simp: bt_or_insert_def bt_simps split: option.split
      dest: map_of_SomeD intro: rev_image_eqI)

lemma bt_entry_add_Some_iff [bt_simps]:
  "bt_entry_add k n m = Some m' \<longleftrightarrow>
     (let old = (case map_of m k of None \<Rightarrow> 0 | Some v \<Rightarrow> v)
      in old + n \<le> U64_MAX \<and> m' = bt_insert k (old + n) m)"
  by (auto simp: bt_entry_add_def add64_def Let_def split: option.splits)

lemma bt_entry_add_sum:
  assumes "bt_ok m" and "bt_entry_add k n m = Some m'"
  shows "bt_sum m' = bt_sum m + n" and "bt_ok m'"
  using assms bt_sum_insert [OF assms(1), of k "(case map_of m k of None \<Rightarrow> 0 | Some v \<Rightarrow> v) + n"]
  by (auto simp: bt_simps Let_def split: option.splits)

lemma bt_entry_add_ok:
  assumes "bt_sum m + n \<le> U64_MAX"
  shows "\<exists>m'. bt_entry_add k n m = Some m'"
  using assms bt_lookup_le_sum [of m k]
  by (cases "map_of m k") (auto simp: bt_simps Let_def)

section \<open>Lists\<close>

lemma sum_list_filter_split:
  "sum_list (map f (filter P xs)) + sum_list (map f (filter (\<lambda>x. \<not> P x) xs)) = sum_list (map (f :: 'a \<Rightarrow> nat) xs)"
  by (induction xs) auto

lemma sum_list_mset_eq: "mset xs = mset ys \<Longrightarrow> sum_list (map f xs) = sum_list (map (f :: 'a \<Rightarrow> nat) ys)"
  by (metis mset_map sum_mset_sum_list)

lemma sum_list_sort_key [simp]: "sum_list (map f (sort_key g xs)) = sum_list (map (f :: 'a \<Rightarrow> nat) xs)"
  by (rule sum_list_mset_eq) simp

lemma sorted_snoc_iff: "sorted (map f (xs @ [x])) \<longleftrightarrow> sorted (map f xs) \<and> (\<forall>y\<in>set xs. f y \<le> f x)"
  by (auto simp: sorted_append)

section \<open>Results\<close>

text \<open>
  The operator \<^verbatim>\<open>?\<close> of Rust on a \<^verbatim>\<open>Result\<close>, in a function that cannot panic (\<open>try_res\<close>) and in
  one that can (\<open>try_opt\<close>), and \<^verbatim>\<open>ensure!\<close>.
\<close>

definition try_res :: "'e + 'a \<Rightarrow> ('a \<Rightarrow> 'e + 'b) \<Rightarrow> 'e + 'b" where
  "try_res r f = (case r of Inl e \<Rightarrow> Inl e | Inr x \<Rightarrow> f x)"

definition try_opt :: "('e + 'a) option \<Rightarrow> ('a \<Rightarrow> ('e + 'b) option) \<Rightarrow> ('e + 'b) option" where
  "try_opt r f = (case r of None \<Rightarrow> None | Some (Inl e) \<Rightarrow> Some (Inl e) | Some (Inr x) \<Rightarrow> f x)"

definition ensure :: "bool \<Rightarrow> 'e \<Rightarrow> 'e + unit" where
  "ensure b e = (if b then Inr () else Inl e)"

definition map_err :: "('e \<Rightarrow> 'f) \<Rightarrow> 'e + 'a \<Rightarrow> 'f + 'a" where
  "map_err g r = (case r of Inl e \<Rightarrow> Inl (g e) | Inr x \<Rightarrow> Inr x)"

definition ok_or :: "'a option \<Rightarrow> 'e \<Rightarrow> 'e + 'a" where
  "ok_or x e = (case x of None \<Rightarrow> Inl e | Some v \<Rightarrow> Inr v)"

named_theorems result_simps \<open>results: when a sequence of fallible steps succeeds\<close>

lemma try_res_Inr_iff [result_simps]: "try_res r f = Inr y \<longleftrightarrow> (\<exists>x. r = Inr x \<and> f x = Inr y)"
  by (auto simp: try_res_def split: sum.splits)

lemma try_opt_Inr_iff [result_simps]:
  "try_opt r f = Some (Inr y) \<longleftrightarrow> (\<exists>x. r = Some (Inr x) \<and> f x = Some (Inr y))"
  by (auto simp: try_opt_def split: option.splits sum.splits)

lemma ensure_Inr_iff [result_simps]: "ensure b e = Inr u \<longleftrightarrow> b"
  by (simp add: ensure_def)

lemma map_err_Inr_iff [result_simps]: "map_err g r = Inr x \<longleftrightarrow> r = Inr x"
  by (auto simp: map_err_def split: sum.splits)

lemma ok_or_Inr_iff [result_simps]: "ok_or x e = Inr v \<longleftrightarrow> x = Some v"
  by (auto simp: ok_or_def split: option.splits)

lemma try_res_simps [simp]: "try_res (Inr x) f = f x" "try_res (Inl e) f = Inl e"
  by (simp_all add: try_res_def)

lemma try_opt_simps [simp]:
  "try_opt (Some (Inr x)) f = f x" "try_opt (Some (Inl e)) f = Some (Inl e)" "try_opt None f = None"
  by (simp_all add: try_opt_def)

lemma ensure_simps [simp]: "ensure True e = Inr ()" "ensure False e = Inl e"
  by (simp_all add: ensure_def)

lemma map_err_simps [simp]: "map_err g (Inr x) = Inr x" "map_err g (Inl e) = Inl (g e)"
  by (simp_all add: map_err_def)

lemma ok_or_simps [simp]: "ok_or (Some x) e = Inr x" "ok_or None e = Inl e"
  by (simp_all add: ok_or_def)

text \<open>
  A method with \<^verbatim>\<open>&mut self\<close> that returns a \<^verbatim>\<open>Result\<close>: the state is returned with the result, also
  with an error. \<open>stry\<close> is \<^verbatim>\<open>?\<close> after a call that may change the state, \<open>slift\<close> a call that does not.
\<close>

definition stry ::
  "('s \<times> ('e + 'a)) option \<Rightarrow> ('s \<Rightarrow> 'a \<Rightarrow> ('s \<times> ('e + 'b)) option) \<Rightarrow> ('s \<times> ('e + 'b)) option" where
  "stry r f = (case r of None \<Rightarrow> None | Some (s, Inl e) \<Rightarrow> Some (s, Inl e) | Some (s, Inr x) \<Rightarrow> f s x)"

definition slift :: "'s \<Rightarrow> ('e + 'a) option \<Rightarrow> ('s \<times> ('e + 'a)) option" where
  "slift s r = map_option (Pair s) r"

lemma stry_simps [simp]:
  "stry (Some (s, Inr x)) f = f s x" "stry (Some (s, Inl e)) f = Some (s, Inl e)" "stry None f = None"
  by (simp_all add: stry_def)

lemma slift_simps [simp]: "slift s (Some r) = Some (s, r)" "slift s None = None"
  by (simp_all add: slift_def)

lemma stry_Some_iff [result_simps]:
  "stry r f = Some (s', Inr y) \<longleftrightarrow> (\<exists>s x. r = Some (s, Inr x) \<and> f s x = Some (s', Inr y))"
  by (auto simp: stry_def split: option.splits sum.splits)

lemma stry_Inl_iff [result_simps]:
  "stry r f = Some (s', Inl e) \<longleftrightarrow>
     r = Some (s', Inl e) \<or> (\<exists>s x. r = Some (s, Inr x) \<and> f s x = Some (s', Inl e))"
  by (auto simp: stry_def split: option.splits sum.splits)

lemma slift_Some_iff [result_simps]: "slift s r = Some (s', x) \<longleftrightarrow> s' = s \<and> r = Some x"
  by (auto simp: slift_def)

section \<open>Runs of fallible operations\<close>

text \<open>A sequence of operations, each of which may panic.\<close>

fun run_ops :: "('op \<Rightarrow> 's \<Rightarrow> 's option) \<Rightarrow> 'op list \<Rightarrow> 's \<Rightarrow> 's option" where
  "run_ops step [] s = Some s"
| "run_ops step (op # ops) s = do { s' \<leftarrow> step op s; run_ops step ops s' }"

text \<open>
  The contract of a ledger: every operation keeps the invariant and changes the total by exactly
  what it mints. A ledger is total when an operation that is within its bounds and does not
  overflow the total returns.
\<close>

locale ledger =
  fixes step :: "'op \<Rightarrow> 's \<Rightarrow> 's option"
    and inv :: "'s \<Rightarrow> bool"
    and safe :: "'op \<Rightarrow> bool"
    and total :: "'s \<Rightarrow> nat"
    and minted :: "'op \<Rightarrow> nat"
  assumes step_inv: "inv s \<Longrightarrow> safe op \<Longrightarrow> step op s = Some s' \<Longrightarrow> inv s'"
    and step_total: "inv s \<Longrightarrow> safe op \<Longrightarrow> step op s = Some s' \<Longrightarrow> total s' = total s + minted op"
begin

lemma run_conserves:
  "inv s \<Longrightarrow> list_all safe ops \<Longrightarrow> run_ops step ops s = Some s' \<Longrightarrow>
     inv s' \<and> total s' = total s + sum_list (map minted ops)"
proof (induction ops arbitrary: s)
  case (Cons op ops)
  then obtain t where t: "step op s = Some t" "run_ops step ops t = Some s'" and op: "safe op"
    by (auto simp: bind_eq_Some_conv)
  then show ?case
    using Cons.IH [of t] Cons.prems step_inv [OF Cons.prems(1) op t(1)] step_total [OF Cons.prems(1) op t(1)]
    by simp
qed simp

end

locale total_ledger = ledger step inv safe total minted
  for step :: "'op \<Rightarrow> 's \<Rightarrow> 's option" and inv safe total minted +
  assumes step_defined:
    "inv s \<Longrightarrow> safe op \<Longrightarrow> total s + minted op \<le> U64_MAX \<Longrightarrow> \<exists>s'. step op s = Some s'"
begin

lemma run_defined:
  "inv s \<Longrightarrow> list_all safe ops \<Longrightarrow> total s + sum_list (map minted ops) \<le> U64_MAX \<Longrightarrow>
     \<exists>s'. run_ops step ops s = Some s'"
proof (induction ops arbitrary: s)
  case (Cons op ops)
  then obtain t where t: "step op s = Some t"
    using step_defined [of s op] by auto
  then show ?case
    using Cons step_inv [OF Cons.prems(1) _ t] step_total [OF Cons.prems(1) _ t] by simp
qed simp

end

end
