(* ===== verification/Pos_Config.thy ===== *)
theory Pos_Config
  imports Prelude
begin

text \<open>
  The parameters of the PoS chain (\<^verbatim>\<open>term_state/pos_state_config.rs\<close>) and the reward
  constants derived from them (module \<^verbatim>\<open>incentives\<close> of \<^verbatim>\<open>term_state.rs\<close>). The Rust code
  reads them from the global \<^verbatim>\<open>POS_STATE_CONFIG\<close>; here the configuration is an argument.
  A view belongs to the term \<open>get_term_view\<close> computes, and \<open>get_starting_view_for_term\<close>
  is its inverse; at the CIP-136 transition view the length of a term changes.
\<close>

type_synonym view = nat
type_synonym round = nat

definition TERM_LIST_LEN :: nat where "TERM_LIST_LEN = 6"
definition ROUND_PER_TERM :: round where "ROUND_PER_TERM = 60"
definition IN_QUEUE_LOCKED_VIEWS :: nat where "IN_QUEUE_LOCKED_VIEWS = 10080"
definition OUT_QUEUE_LOCKED_VIEWS :: nat where "OUT_QUEUE_LOCKED_VIEWS = 10080"
definition TERM_MAX_SIZE :: nat where "TERM_MAX_SIZE = 10000"
definition TERM_ELECTED_SIZE :: nat where "TERM_ELECTED_SIZE = 50"
definition CIP99_FORCE_RETIRE_EPOCH_COUNT :: nat where "CIP99_FORCE_RETIRE_EPOCH_COUNT = 3"

record pos_state_config =
  c_round_per_term :: round
  c_term_max_size :: nat
  c_term_elected_size :: nat
  c_in_queue_locked_views :: nat
  c_out_queue_locked_views :: nat
  c_cip99_transition_view :: view
  c_cip99_out_queue_locked_views :: nat
  c_cip99_in_queue_locked_views :: nat
  c_cip136_transition_view :: view
  c_cip136_out_queue_locked_views :: nat
  c_cip136_in_queue_locked_views :: nat
  c_cip136_round_per_term :: round
  c_cip156_transition_view :: view
  c_cip156_dispute_locked_views :: nat
  c_nonce_limit_transition_view :: view
  c_max_nonce_per_account :: nat

definition default_config :: pos_state_config where
  "default_config = \<lparr>
     c_round_per_term = ROUND_PER_TERM,
     c_term_max_size = TERM_MAX_SIZE,
     c_term_elected_size = TERM_ELECTED_SIZE,
     c_in_queue_locked_views = IN_QUEUE_LOCKED_VIEWS,
     c_out_queue_locked_views = OUT_QUEUE_LOCKED_VIEWS,
     c_cip99_transition_view = U64_MAX,
     c_cip99_out_queue_locked_views = IN_QUEUE_LOCKED_VIEWS,
     c_cip99_in_queue_locked_views = OUT_QUEUE_LOCKED_VIEWS,
     c_cip136_transition_view = U64_MAX,
     c_cip136_out_queue_locked_views = IN_QUEUE_LOCKED_VIEWS,
     c_cip136_in_queue_locked_views = OUT_QUEUE_LOCKED_VIEWS,
     c_cip136_round_per_term = ROUND_PER_TERM,
     c_cip156_transition_view = U64_MAX,
     c_cip156_dispute_locked_views = U64_MAX,
     c_nonce_limit_transition_view = U64_MAX,
     c_max_nonce_per_account = U64_MAX \<rparr>"

text \<open>The constructor, with the argument order of the source.\<close>

definition pos_state_config_new ::
  "round \<Rightarrow> nat \<Rightarrow> nat \<Rightarrow> nat \<Rightarrow> nat \<Rightarrow> view \<Rightarrow> nat \<Rightarrow> nat \<Rightarrow> view \<Rightarrow> nat \<Rightarrow> view \<Rightarrow> nat \<Rightarrow> nat \<Rightarrow>
     round \<Rightarrow> view \<Rightarrow> nat \<Rightarrow> pos_state_config" where
  "pos_state_config_new round_per_term' term_max_size' term_elected_size' in_queue_locked_views'
     out_queue_locked_views' cip99_transition_view' cip99_in_queue_locked_views'
     cip99_out_queue_locked_views' nonce_limit_transition_view' max_nonce_per_account'
     cip136_transition_view' cip136_in_queue_locked_views' cip136_out_queue_locked_views'
     cip136_round_per_term' cip156_transition_view' cip156_dispute_locked_views' = \<lparr>
     c_round_per_term = round_per_term',
     c_term_max_size = term_max_size',
     c_term_elected_size = term_elected_size',
     c_in_queue_locked_views = in_queue_locked_views',
     c_out_queue_locked_views = out_queue_locked_views',
     c_cip99_transition_view = cip99_transition_view',
     c_cip99_out_queue_locked_views = cip99_out_queue_locked_views',
     c_cip99_in_queue_locked_views = cip99_in_queue_locked_views',
     c_cip136_transition_view = cip136_transition_view',
     c_cip136_out_queue_locked_views = cip136_out_queue_locked_views',
     c_cip136_in_queue_locked_views = cip136_in_queue_locked_views',
     c_cip136_round_per_term = cip136_round_per_term',
     c_cip156_transition_view = cip156_transition_view',
     c_cip156_dispute_locked_views = cip156_dispute_locked_views',
     c_nonce_limit_transition_view = nonce_limit_transition_view',
     c_max_nonce_per_account = max_nonce_per_account' \<rparr>"

definition term_max_size :: "pos_state_config \<Rightarrow> nat" where
  "term_max_size conf = c_term_max_size conf"

definition term_elected_size :: "pos_state_config \<Rightarrow> nat" where
  "term_elected_size conf = c_term_elected_size conf"

definition round_per_term :: "pos_state_config \<Rightarrow> view \<Rightarrow> round" where
  "round_per_term conf view =
     (if view < c_cip136_transition_view conf then c_round_per_term conf
      else c_cip136_round_per_term conf)"

definition election_term_start_round :: "pos_state_config \<Rightarrow> view \<Rightarrow> round option" where
  "election_term_start_round conf view = mul64 (round_per_term conf view div 2) 3"

definition election_term_end_round :: "pos_state_config \<Rightarrow> view \<Rightarrow> round" where
  "election_term_end_round conf view = round_per_term conf view div 2"

definition first_start_election_view :: "pos_state_config \<Rightarrow> view option" where
  "first_start_election_view conf =
     do { t \<leftarrow> mul64 TERM_LIST_LEN (round_per_term conf 0);
          s \<leftarrow> election_term_start_round conf 0;
          sub64 t s }"

definition first_end_election_view :: "pos_state_config \<Rightarrow> view option" where
  "first_end_election_view conf =
     do { t \<leftarrow> mul64 TERM_LIST_LEN (round_per_term conf 0);
          sub64 t (election_term_end_round conf 0) }"

definition in_queue_locked_views :: "pos_state_config \<Rightarrow> view \<Rightarrow> nat" where
  "in_queue_locked_views conf view =
     (if c_cip99_transition_view conf \<le> view \<and> view < c_cip136_transition_view conf
      then c_cip99_in_queue_locked_views conf
      else if c_cip136_transition_view conf \<le> view
      then c_cip136_in_queue_locked_views conf
      else c_in_queue_locked_views conf)"

definition out_queue_locked_views :: "pos_state_config \<Rightarrow> view \<Rightarrow> nat" where
  "out_queue_locked_views conf view =
     (if c_cip99_transition_view conf \<le> view \<and> view < c_cip136_transition_view conf
      then c_cip99_out_queue_locked_views conf
      else if c_cip136_transition_view conf \<le> view
      then c_cip136_out_queue_locked_views conf
      else c_out_queue_locked_views conf)"

definition force_retired_locked_views :: "pos_state_config \<Rightarrow> view \<Rightarrow> nat" where
  "force_retired_locked_views conf view = out_queue_locked_views conf view"

definition force_retire_check_epoch_count :: "pos_state_config \<Rightarrow> view \<Rightarrow> nat" where
  "force_retire_check_epoch_count conf view =
     (if c_cip99_transition_view conf \<le> view then CIP99_FORCE_RETIRE_EPOCH_COUNT else 1)"

definition max_nonce_per_account :: "pos_state_config \<Rightarrow> view \<Rightarrow> nat" where
  "max_nonce_per_account conf view =
     (if c_nonce_limit_transition_view conf \<le> view then c_max_nonce_per_account conf
      else U64_MAX)"

text \<open>The term of a view and the position in it; the divisions panic on a zero term length.\<close>

definition get_term_view :: "pos_state_config \<Rightarrow> view \<Rightarrow> (nat \<times> nat) option" where
  "get_term_view conf view =
     (if view < c_cip136_transition_view conf
      then do { t \<leftarrow> div64 view (c_round_per_term conf);
                k \<leftarrow> mod64 view (c_round_per_term conf);
                Some (t, k) }
      else do { transition_term \<leftarrow> div64 (c_cip136_transition_view conf) (c_round_per_term conf);
                view_after \<leftarrow> sub64 view (c_cip136_transition_view conf);
                d \<leftarrow> div64 view_after (c_cip136_round_per_term conf);
                t \<leftarrow> add64 transition_term d;
                k \<leftarrow> mod64 view_after (c_cip136_round_per_term conf);
                Some (t, k) })"

text \<open>
  The first view of a term. The inner option is the value the Rust function returns
  (\<open>None\<close> when the multiplication overflows); the outer option is \<open>None\<close> where it panics.
\<close>

definition get_starting_view_for_term :: "pos_state_config \<Rightarrow> nat \<Rightarrow> view option option" where
  "get_starting_view_for_term conf term =
     do { transition_term \<leftarrow> div64 (c_cip136_transition_view conf) (c_round_per_term conf);
          if term < transition_term
          then do { v \<leftarrow> mul64 term (c_round_per_term conf); Some (Some v) }
          else do { d \<leftarrow> sub64 term transition_term;
                    case mul64 d (c_cip136_round_per_term conf) of
                      None \<Rightarrow> Some None
                    | Some v \<Rightarrow> do { w \<leftarrow> add64 v (c_cip136_transition_view conf); Some (Some w) } } }"

text \<open>\<open>None\<close>: the stake is forfeited instead of being locked.\<close>

definition dispute_locked_views :: "pos_state_config \<Rightarrow> view \<Rightarrow> nat option" where
  "dispute_locked_views conf view =
     (if view < c_cip156_transition_view conf then None
      else Some (c_cip156_dispute_locked_views conf))"

section \<open>Reward points\<close>

definition MAX_TERM_POINTS :: nat where "MAX_TERM_POINTS = 6000000"
definition BONUS_VOTE_MAX_SIZE :: nat where "BONUS_VOTE_MAX_SIZE = 100"
definition ELECTION_PERCENTAGE :: nat where "ELECTION_PERCENTAGE = 20"
definition COMMITTEE_PERCENTAGE :: nat where "COMMITTEE_PERCENTAGE = 75"
definition LEADER_PERCENTAGE :: nat where "LEADER_PERCENTAGE = 3"
definition BONUS_VOTE_PERCENTAGE :: nat where "BONUS_VOTE_PERCENTAGE = 2"

definition ELECTION_POINTS :: nat where
  "ELECTION_POINTS = MAX_TERM_POINTS * ELECTION_PERCENTAGE div 100 div TERM_MAX_SIZE"

definition COMMITTEE_POINTS :: nat where
  "COMMITTEE_POINTS =
     MAX_TERM_POINTS * COMMITTEE_PERCENTAGE div 100 div TERM_ELECTED_SIZE div TERM_LIST_LEN"

definition leader_points :: "pos_state_config \<Rightarrow> view \<Rightarrow> nat option" where
  "leader_points conf view =
     div64 (MAX_TERM_POINTS * LEADER_PERCENTAGE div 100) (round_per_term conf view)"

definition bonus_vote_points :: "pos_state_config \<Rightarrow> view \<Rightarrow> nat option" where
  "bonus_vote_points conf view =
     do { p \<leftarrow> div64 (MAX_TERM_POINTS * BONUS_VOTE_PERCENTAGE div 100) (round_per_term conf view);
          Some (p div BONUS_VOTE_MAX_SIZE) }"

section \<open>Terms and views\<close>

text \<open>
  What the node's own configuration checks and its parameters satisfy: positive even term
  lengths, the CIP-136 transition at a term boundary (or never) and after the initial terms.
\<close>

definition config_wf :: "pos_state_config \<Rightarrow> bool" where
  "config_wf conf \<longleftrightarrow>
     0 < c_round_per_term conf \<and> even (c_round_per_term conf) \<and>
     0 < c_cip136_round_per_term conf \<and> even (c_cip136_round_per_term conf) \<and>
     c_round_per_term conf dvd c_cip136_transition_view conf \<and>
     TERM_LIST_LEN * c_round_per_term conf \<le> c_cip136_transition_view conf \<and>
     c_cip136_transition_view conf \<le> U64_MAX"

lemma get_term_view_before:
  assumes "0 < c_round_per_term conf" and "v < c_cip136_transition_view conf"
  shows "get_term_view conf v = Some (v div c_round_per_term conf, v mod c_round_per_term conf)"
  using assms by (simp add: get_term_view_def div64_def mod64_def)

lemma get_term_view_after:
  assumes "0 < c_round_per_term conf" and "0 < c_cip136_round_per_term conf"
    and "c_cip136_transition_view conf \<le> v" and "v \<le> U64_MAX"
  shows "get_term_view conf v =
    Some (c_cip136_transition_view conf div c_round_per_term conf
            + (v - c_cip136_transition_view conf) div c_cip136_round_per_term conf,
          (v - c_cip136_transition_view conf) mod c_cip136_round_per_term conf)"
proof -
  have "c_cip136_transition_view conf div c_round_per_term conf
      + (v - c_cip136_transition_view conf) div c_cip136_round_per_term conf \<le> U64_MAX"
    using assms add_mono [OF div_le_dividend [of "c_cip136_transition_view conf" "c_round_per_term conf"]
        div_le_dividend [of "v - c_cip136_transition_view conf" "c_cip136_round_per_term conf"]]
    by linarith
  then show ?thesis
    using assms by (simp add: get_term_view_def div64_def mod64_def sub64_def add64_def)
qed

text \<open>The term of a view starts at that view less its position, and the position is in range.\<close>

lemma get_term_view_start:
  assumes "0 < c_round_per_term conf" and "0 < c_cip136_round_per_term conf"
    and dvd: "c_round_per_term conf dvd c_cip136_transition_view conf"
    and "v \<le> U64_MAX"
  shows "\<exists>t k. get_term_view conf v = Some (t, k) \<and> k \<le> v \<and> k < round_per_term conf v \<and>
    get_starting_view_for_term conf t = Some (Some (v - k))"
proof (cases "v < c_cip136_transition_view conf")
  case True
  let ?R = "c_round_per_term conf" and ?V = "c_cip136_transition_view conf"
  obtain n where n: "?V = ?R * n" using dvd by auto
  have "v div ?R < ?V div ?R"
    using True assms(1) by (simp add: n less_mult_imp_div_less mult.commute)
  moreover have "v div ?R * ?R \<le> U64_MAX"
    using assms(4) div_times_less_eq_dividend [of v ?R] by linarith
  moreover have "v div ?R * ?R = v - v mod ?R"
    by (simp add: minus_mod_eq_div_mult)
  ultimately have "get_starting_view_for_term conf (v div ?R) = Some (Some (v - v mod ?R))"
    using assms(1) by (simp add: get_starting_view_for_term_def div64_def mul64_def)
  then show ?thesis
    using assms(1) True
    by (intro exI [of _ "v div ?R"] exI [of _ "v mod ?R"])
      (simp add: get_term_view_before round_per_term_def)
next
  case False
  let ?R = "c_round_per_term conf" and ?V = "c_cip136_transition_view conf"
    and ?R' = "c_cip136_round_per_term conf"
  let ?a = "v - ?V"
  have am: "?a div ?R' * ?R' = ?a - ?a mod ?R'"
    by (simp add: minus_mod_eq_div_mult)
  have le: "?a mod ?R' \<le> ?a" by simp
  have "mul64 (?a div ?R') ?R' = Some (?a - ?a mod ?R')"
    using assms(4) False am by (simp add: mul64_def)
  moreover have "?a - ?a mod ?R' + ?V = v - ?a mod ?R'"
    using False le by linarith
  then have "add64 (?a - ?a mod ?R') ?V = Some (v - ?a mod ?R')"
    using assms(4) by (simp add: add64_def del: diff_diff_left)
  ultimately have "get_starting_view_for_term conf (?V div ?R + ?a div ?R') = Some (Some (v - ?a mod ?R'))"
    using assms(1) by (simp add: get_starting_view_for_term_def div64_def sub64_def)
  then show ?thesis
    using assms False le
    by (simp add: get_term_view_after round_per_term_def)
      (meson diff_le_self le_trans mod_less_eq_dividend)
qed

lemma get_starting_view_term:
  assumes "0 < c_round_per_term conf" and "0 < c_cip136_round_per_term conf"
    and dvd: "c_round_per_term conf dvd c_cip136_transition_view conf"
    and start: "get_starting_view_for_term conf t = Some (Some v)"
  shows "get_term_view conf v = Some (t, 0) \<and> v \<le> U64_MAX"
proof (cases "t < c_cip136_transition_view conf div c_round_per_term conf")
  case True
  let ?R = "c_round_per_term conf" and ?V = "c_cip136_transition_view conf"
  have v: "v = t * ?R" and le: "v \<le> U64_MAX"
    using start True assms(1)
    by (auto simp: get_starting_view_for_term_def div64_def mul64_def split: if_splits)
  obtain n where n: "?V = ?R * n" using dvd by auto
  have "t * ?R < ?V"
    using True assms(1) by (simp add: n)
  then show ?thesis
    using assms(1) le by (simp add: v get_term_view_before)
next
  case False
  let ?R = "c_round_per_term conf" and ?V = "c_cip136_transition_view conf"
    and ?R' = "c_cip136_round_per_term conf"
  have v: "v = (t - ?V div ?R) * ?R' + ?V" and le: "v \<le> U64_MAX"
    using start False assms(1)
    by (auto simp: get_starting_view_for_term_def u64_simps div64_def bind_eq_Some_conv
        split: option.splits)
  have "?V \<le> v" "v - ?V = (t - ?V div ?R) * ?R'"
    by (simp_all add: v)
  then show ?thesis
    using assms le False by (simp add: get_term_view_after)
qed

text \<open>
  C35. Views and terms correspond: the starting view of a term is position 0 of that term,
  and every 64-bit view lies in the term \<^const>\<open>get_term_view\<close> computes, less than one term
  length after that term's starting view; neither function panics on such views. The CIP-136
  change of the term length at a term boundary keeps both directions.
\<close>

theorem term_view_roundtrip:
  assumes "0 < c_round_per_term conf" and "0 < c_cip136_round_per_term conf"
    and "c_round_per_term conf dvd c_cip136_transition_view conf"
  shows "(\<forall>t v. get_starting_view_for_term conf t = Some (Some v) \<longrightarrow>
            get_term_view conf v = Some (t, 0)) \<and>
         (\<forall>v \<le> U64_MAX. \<exists>t k. get_term_view conf v = Some (t, k) \<and> k < round_per_term conf v \<and>
            k \<le> v \<and> get_starting_view_for_term conf t = Some (Some (v - k)))"
  using get_starting_view_term [OF assms] get_term_view_start [OF assms] by blast

theorem term_view_roundtrip_witness:
  "get_starting_view_for_term (default_config\<lparr>c_cip136_transition_view := 600,
       c_cip136_round_per_term := 20\<rparr>) 12 = Some (Some 640) \<and>
   get_term_view (default_config\<lparr>c_cip136_transition_view := 600,
       c_cip136_round_per_term := 20\<rparr>) 640 = Some (12, 0)"
proof -
  let ?c = "default_config\<lparr>c_cip136_transition_view := 600, c_cip136_round_per_term := 20\<rparr>"
  have start: "get_starting_view_for_term ?c 12 = Some (Some 640)"
    by (simp add: get_starting_view_for_term_def default_config_def ROUND_PER_TERM_def
        div64_def mul64_def sub64_def add64_def U64_MAX_def)
  then show ?thesis
    using term_view_roundtrip [of ?c] by (simp add: default_config_def ROUND_PER_TERM_def)
qed

text \<open>
  The starting view of a term can panic: the multiplication is checked, but the sum with
  the CIP-136 transition view is not, so for the term whose offset just fits the
  multiplication the addition leaves the 64-bit range.
\<close>

lemma starting_view_overflow_panics:
  assumes "0 < c_round_per_term conf" and "0 < c_cip136_round_per_term conf"
    and "U64_MAX mod c_cip136_round_per_term conf < c_cip136_transition_view conf"
  shows "get_starting_view_for_term conf
    (c_cip136_transition_view conf div c_round_per_term conf
       + U64_MAX div c_cip136_round_per_term conf) = None"
proof -
  let ?q = "U64_MAX div c_cip136_round_per_term conf * c_cip136_round_per_term conf"
  have "?q + U64_MAX mod c_cip136_round_per_term conf = U64_MAX"
    by simp
  then have "?q \<le> U64_MAX" and "U64_MAX < ?q + c_cip136_transition_view conf"
    using assms(3) by linarith+
  then show ?thesis
    using assms(1) by (simp add: get_starting_view_for_term_def div64_def sub64_def mul64_def add64_def)
qed



end
