(* ===== verification/Lock_Status.thy ===== *)
theory Lock_Status
  imports Pos_Config
begin

text \<open>
  The stake of one PoS node (\<^verbatim>\<open>term_state/lock_status.rs\<close>). Votes enter \<open>in_queue\<close> when they
  are staked, become \<open>locked\<close> when their view is reached, move to \<open>out_queue\<close> when the node
  retires them and become \<open>unlocked\<close> when the exit view is reached. \<open>force_retired\<close> and
  \<open>exempt_from_forfeit\<close> record the two punishments. The queues are \<open>StatusList\<close>s, deques
  that are sorted by view lazily. The vector \<open>update_views\<close> that the Rust code fills through a
  mutable reference is an argument and part of the result.
\<close>

section \<open>Status lists\<close>

record status_item =
  si_view :: view
  si_votes :: nat

record status_list =
  sl_inner :: "status_item list"
  sl_sorted :: bool

definition status_list_default :: status_list where
  "status_list_default = \<lparr>sl_inner = [], sl_sorted = True\<rparr>"

definition sl_push :: "status_list \<Rightarrow> view \<Rightarrow> nat \<Rightarrow> view list \<Rightarrow> status_list \<times> view list" where
  "sl_push self exit_view votes update_views =
     (let out_of_order = (case rev (sl_inner self) of [] \<Rightarrow> False | item # _ \<Rightarrow> exit_view < si_view item)
      in (\<lparr>sl_inner = sl_inner self @ [\<lparr>si_view = exit_view, si_votes = votes\<rparr>],
           sl_sorted = (if out_of_order then False else sl_sorted self)\<rparr>,
          update_views @ [exit_view]))"

text \<open>\<^verbatim>\<open>sort_unstable_by_key\<close> leaves the order of equal views open; the stable sort is one of
  the allowed orders, and the facts below only speak of the multiset of items.\<close>

definition sl_sort :: "status_list \<Rightarrow> status_list" where
  "sl_sort self =
     (if \<not> sl_sorted self
      then \<lparr>sl_inner = sort_key si_view (sl_inner self), sl_sorted = True\<rparr>
      else self)"

definition sl_pull :: "status_list \<Rightarrow> nat \<Rightarrow> status_list \<times> status_item option" where
  "sl_pull self required_votes =
     (let s = sl_sort self in
      case sl_inner s of
        [] \<Rightarrow> (s, None)
      | item # rest \<Rightarrow>
          if si_votes item \<le> required_votes then (s\<lparr>sl_inner := rest\<rparr>, Some item)
          else (s\<lparr>sl_inner := \<lparr>si_view = si_view item,
                                si_votes = si_votes item - required_votes\<rparr> # rest\<rparr>,
                Some \<lparr>si_view = si_view item, si_votes = required_votes\<rparr>))"

definition sl_pop_by_view :: "status_list \<Rightarrow> view \<Rightarrow> status_list \<times> status_item option" where
  "sl_pop_by_view self view =
     (let s = sl_sort self in
      case sl_inner s of
        [] \<Rightarrow> (s, None)
      | item # rest \<Rightarrow> if view < si_view item then (s, None) else (s\<lparr>sl_inner := rest\<rparr>, Some item))"

definition sl_clear :: "status_list \<Rightarrow> status_list" where
  "sl_clear self = \<lparr>sl_inner = [], sl_sorted = True\<rparr>"

text \<open>The flag never claims an order that does not hold.\<close>

definition sl_ok :: "status_list \<Rightarrow> bool" where
  "sl_ok self \<longleftrightarrow> (sl_sorted self \<longrightarrow> sorted (map si_view (sl_inner self)))"

definition sl_items :: "status_list \<Rightarrow> status_item multiset" where
  "sl_items self = mset (sl_inner self)"

lemma sl_sort_sorted: "sl_ok q \<Longrightarrow> sorted (map si_view (sl_inner (sl_sort q)))"
  by (auto simp: sl_sort_def sl_ok_def)

lemma sl_sort_items: "mset (sl_inner (sl_sort q)) = sl_items q"
  by (simp add: sl_sort_def sl_items_def)

lemma sl_sort_length [simp]: "length (sl_inner (sl_sort q)) = length (sl_inner q)"
  by (simp add: sl_sort_def)

lemma sl_sort_flag [simp]: "sl_sorted (sl_sort q)"
  by (simp add: sl_sort_def)

section \<open>The interface of a view queue\<close>

text \<open>
  What the lock status relies on: a queue of items ordered by view, seen as a multiset.
  \<open>pop_by_view\<close> yields an item of least view if that view is due, \<open>pull\<close> takes at most the
  required votes from an item of least view.
\<close>

locale view_queue =
  fixes invar :: "'q \<Rightarrow> bool"
    and items :: "'q \<Rightarrow> status_item multiset"
    and push :: "'q \<Rightarrow> view \<Rightarrow> nat \<Rightarrow> 'q"
    and pull :: "'q \<Rightarrow> nat \<Rightarrow> 'q \<times> status_item option"
    and pop_by_view :: "'q \<Rightarrow> view \<Rightarrow> 'q \<times> status_item option"
  assumes push_items: "items (push q v n) = add_mset \<lparr>si_view = v, si_votes = n\<rparr> (items q)"
    and push_invar: "invar q \<Longrightarrow> invar (push q v n)"
    and pop_None: "invar q \<Longrightarrow> pop_by_view q v = (q', None) \<Longrightarrow>
      invar q' \<and> items q' = items q \<and> (\<forall>i\<in>#items q. v < si_view i)"
    and pop_Some: "invar q \<Longrightarrow> pop_by_view q v = (q', Some i) \<Longrightarrow>
      invar q' \<and> items q = add_mset i (items q') \<and> si_view i \<le> v"
    and pull_None: "invar q \<Longrightarrow> pull q n = (q', None) \<Longrightarrow>
      invar q' \<and> items q = {#} \<and> items q' = {#}"
    and pull_Some: "invar q \<Longrightarrow> pull q n = (q', Some i) \<Longrightarrow>
      invar q' \<and> si_votes i \<le> n \<and>
      (items q = add_mset i (items q') \<or>
       (\<exists>r M. si_votes i = n \<and> items q = add_mset \<lparr>si_view = si_view i, si_votes = n + r\<rparr> M \<and>
          items q' = add_mset \<lparr>si_view = si_view i, si_votes = r\<rparr> M))"
begin

text \<open>The votes in a queue and the votes in it that are due at a view.\<close>

definition votes :: "'q \<Rightarrow> nat" where
  "votes q = sum_mset (image_mset si_votes (items q))"

definition due :: "'q \<Rightarrow> view \<Rightarrow> nat" where
  "due q v = sum_mset (image_mset si_votes (filter_mset (\<lambda>i. si_view i \<le> v) (items q)))"

definition late :: "'q \<Rightarrow> view \<Rightarrow> status_item multiset" where
  "late q v = filter_mset (\<lambda>i. v < si_view i) (items q)"

lemma votes_push: "votes (push q v n) = votes q + n"
  by (simp add: votes_def push_items)

lemma due_push: "due (push q v n) w = due q w + (if v \<le> w then n else 0)"
  by (simp add: due_def push_items)

lemma due_le_votes: "due q v \<le> votes q"
proof -
  have "filter_mset (\<lambda>i. si_view i \<le> v) (items q) + filter_mset (\<lambda>i. \<not> si_view i \<le> v) (items q) = items q"
    by (rule multiset_partition [symmetric])
  then have "votes q = due q v + sum_mset (image_mset si_votes (filter_mset (\<lambda>i. \<not> si_view i \<le> v) (items q)))"
    by (metis due_def image_mset_union sum_mset.union votes_def)
  then show ?thesis by simp
qed

lemma pop_None_due:
  assumes "invar q" and "pop_by_view q v = (q', None)"
  shows "invar q'" and "items q' = items q" and "due q v = 0" and "items q' = late q v"
proof -
  have *: "invar q' \<and> items q' = items q \<and> (\<forall>i\<in>#items q. v < si_view i)"
    using assms by (rule pop_None)
  then show "invar q'" and "items q' = items q" by auto
  have "filter_mset (\<lambda>i. si_view i \<le> v) (items q) = {#}"
    using * by (auto simp: filter_mset_eq_mempty_iff not_le)
  then show "due q v = 0"
    by (simp only: due_def image_mset_empty sum_mset.empty)
  have "late q v = filter_mset (\<lambda>_. True) (items q)"
    unfolding late_def by (rule filter_mset_cong) (use * in auto)
  then show "items q' = late q v"
    using * by simp
qed

lemma pop_Some_due:
  assumes "invar q" and "pop_by_view q v = (q', Some i)"
  shows "invar q'" and "votes q = si_votes i + votes q'" and "due q v = si_votes i + due q' v"
    and "late q v = late q' v" and "si_view i \<le> v" and "i \<in># items q"
proof -
  have *: "invar q' \<and> items q = add_mset i (items q') \<and> si_view i \<le> v"
    using assms by (rule pop_Some)
  then show "invar q'" "votes q = si_votes i + votes q'" "due q v = si_votes i + due q' v"
    "late q v = late q' v" "si_view i \<le> v" "i \<in># items q"
    by (simp_all add: votes_def due_def late_def)
qed

lemma pull_Some_votes:
  assumes "invar q" and "pull q n = (q', Some i)"
  shows "votes q = si_votes i + votes q'" and "invar q'" and "si_votes i \<le> n"
  using pull_Some [OF assms] by (auto simp: votes_def)

lemma pull_Some_views:
  assumes "invar q" and "pull q n = (q', Some i)"
  shows "si_view i \<in> si_view ` set_mset (items q)"
    and "si_view ` set_mset (items q') \<subseteq> si_view ` set_mset (items q)"
  using pull_Some [OF assms] by (auto simp: image_iff)

lemma votes_zero_if_empty: "items q = {#} \<Longrightarrow> votes q = 0"
  by (simp add: votes_def)

end

lemma sl_push_items: "sl_items (fst (sl_push q v n uv)) = add_mset \<lparr>si_view = v, si_votes = n\<rparr> (sl_items q)"
  by (simp add: sl_push_def sl_items_def Let_def)

lemma sl_push_ok: "sl_ok q \<Longrightarrow> sl_ok (fst (sl_push q v n uv))"
proof (cases "sl_inner q" rule: rev_cases)
  case Nil
  then show ?thesis by (simp add: sl_push_def sl_ok_def)
next
  case (snoc ys y)
  assume "sl_ok q"
  with snoc show ?thesis
    by (auto simp: sl_push_def sl_ok_def Let_def sorted_append)
qed

interpretation slq: view_queue sl_ok sl_items "\<lambda>q v n. fst (sl_push q v n uv)" sl_pull sl_pop_by_view
  for uv
proof unfold_locales
  fix q v n
  show "sl_items (fst (sl_push q v n uv)) = add_mset \<lparr>si_view = v, si_votes = n\<rparr> (sl_items q)"
    by (rule sl_push_items)
  show "sl_ok q \<Longrightarrow> sl_ok (fst (sl_push q v n uv))"
    by (rule sl_push_ok)
next
  fix q v q'
  assume ok: "sl_ok q" and pop: "sl_pop_by_view q v = (q', None)"
  have "q' = sl_sort q" and "\<forall>i\<in>set (sl_inner (sl_sort q)). v < si_view i"
    using pop sl_sort_sorted [OF ok]
    by (auto simp: sl_pop_by_view_def Let_def split: list.splits if_splits)
  then show "sl_ok q' \<and> sl_items q' = sl_items q \<and> (\<forall>i\<in>#sl_items q. v < si_view i)"
    using sl_sort_sorted [OF ok] sl_sort_items [of q]
    by (metis set_mset_mset sl_items_def sl_ok_def)
next
  fix q v q' i
  assume ok: "sl_ok q" and pop: "sl_pop_by_view q v = (q', Some i)"
  then obtain rest where r: "sl_inner (sl_sort q) = i # rest" and v: "si_view i \<le> v"
    and q': "q' = (sl_sort q)\<lparr>sl_inner := rest\<rparr>"
    by (auto simp: sl_pop_by_view_def Let_def split: list.splits if_splits)
  then show "sl_ok q' \<and> sl_items q = add_mset i (sl_items q') \<and> si_view i \<le> v"
    using sl_sort_sorted [OF ok] sl_sort_items [of q]
    by (simp add: sl_items_def sl_ok_def)
next
  fix q n q'
  assume ok: "sl_ok q" and pull: "sl_pull q n = (q', None)"
  then have "sl_inner (sl_sort q) = []" and "q' = sl_sort q"
    by (auto simp: sl_pull_def Let_def split: list.splits if_splits)
  then show "sl_ok q' \<and> sl_items q = {#} \<and> sl_items q' = {#}"
    using sl_sort_items [of q] by (simp add: sl_items_def sl_ok_def)
next
  fix q n q' i
  assume ok: "sl_ok q" and pull: "sl_pull q n = (q', Some i)"
  then obtain item rest where r: "sl_inner (sl_sort q) = item # rest"
    by (auto simp: sl_pull_def Let_def split: list.splits)
  have items: "sl_items q = add_mset item (mset rest)"
    using sl_sort_items [of q] r by simp
  have srt: "sorted (map si_view (item # rest))"
    using sl_sort_sorted [OF ok] r by simp
  show "sl_ok q' \<and> si_votes i \<le> n \<and>
      (sl_items q = add_mset i (sl_items q') \<or>
       (\<exists>r M. si_votes i = n \<and> sl_items q = add_mset \<lparr>si_view = si_view i, si_votes = n + r\<rparr> M \<and>
          sl_items q' = add_mset \<lparr>si_view = si_view i, si_votes = r\<rparr> M))"
  proof (cases "si_votes item \<le> n")
    case True
    then have "q' = (sl_sort q)\<lparr>sl_inner := rest\<rparr>" "i = item"
      using pull r by (auto simp: sl_pull_def Let_def)
    then show ?thesis
      using srt items True by (simp add: sl_ok_def sl_items_def)
  next
    case False
    then have i: "i = \<lparr>si_view = si_view item, si_votes = n\<rparr>"
      and q': "q' = (sl_sort q)\<lparr>sl_inner := \<lparr>si_view = si_view item, si_votes = si_votes item - n\<rparr> # rest\<rparr>"
      using pull r by (auto simp: sl_pull_def Let_def)
    have "item = \<lparr>si_view = si_view i, si_votes = n + (si_votes item - n)\<rparr>"
      using False i by simp
    then have "\<exists>r M. si_votes i = n \<and> sl_items q = add_mset \<lparr>si_view = si_view i, si_votes = n + r\<rparr> M \<and>
        sl_items q' = add_mset \<lparr>si_view = si_view i, si_votes = r\<rparr> M"
      by (intro exI [of _ "si_votes item - n"] exI [of _ "mset rest"])
        (use items i q' in \<open>simp add: sl_items_def\<close>)
    then show ?thesis
      using srt i q' by (simp add: sl_ok_def)
  qed
qed

section \<open>The lock status of a node\<close>

record node_lock_status =
  ls_in_queue :: status_list
  ls_locked :: nat
  ls_out_queue :: status_list
  ls_unlocked :: nat
  ls_available_votes :: nat
  ls_force_retired :: "view option"
  ls_exempt_from_forfeit :: "nat option"

definition node_lock_status_default :: node_lock_status where
  "node_lock_status_default = \<lparr>
     ls_in_queue = status_list_default, ls_locked = 0,
     ls_out_queue = status_list_default, ls_unlocked = 0,
     ls_available_votes = 0, ls_force_retired = None, ls_exempt_from_forfeit = None \<rparr>"

definition available_votes :: "node_lock_status \<Rightarrow> nat" where
  "available_votes self =
     (if ls_exempt_from_forfeit self \<noteq> None then 0 else ls_available_votes self)"

definition unlocked_votes :: "node_lock_status \<Rightarrow> nat" where
  "unlocked_votes self =
     (case ls_exempt_from_forfeit self of Some e \<Rightarrow> e | None \<Rightarrow> ls_unlocked self)"

definition forfeited :: "node_lock_status \<Rightarrow> nat option" where
  "forfeited self = sub64 (ls_unlocked self) (unlocked_votes self)"

text \<open>The two \<^verbatim>\<open>while let\<close> loops of \<^verbatim>\<open>update\<close>.\<close>

lemma pop_by_view_length:
  "sl_pop_by_view q v = (q', Some i) \<Longrightarrow> length (sl_inner q') < length (sl_inner q)"
  using sl_sort_length [of q]
  by (auto simp: sl_pop_by_view_def Let_def simp del: sl_sort_length split: list.splits if_splits)

function update_in_queue :: "view \<Rightarrow> node_lock_status \<Rightarrow> node_lock_status option" where
  "update_in_queue view self =
     (case sl_pop_by_view (ls_in_queue self) view of
        (q, None) \<Rightarrow> Some (self\<lparr>ls_in_queue := q\<rparr>)
      | (q, Some item) \<Rightarrow>
          do { locked \<leftarrow> add64 (ls_locked self) (si_votes item);
               update_in_queue view (self\<lparr>ls_in_queue := q, ls_locked := locked\<rparr>) })"
  by pat_completeness auto
termination
  by (relation "measure (\<lambda>(v, s). length (sl_inner (ls_in_queue s)))")
    (auto dest: pop_by_view_length [OF sym])

function update_out_queue :: "view \<Rightarrow> node_lock_status \<Rightarrow> bool \<Rightarrow> (node_lock_status \<times> bool) option" where
  "update_out_queue view self new_votes_unlocked =
     (case sl_pop_by_view (ls_out_queue self) view of
        (q, None) \<Rightarrow> Some (self\<lparr>ls_out_queue := q\<rparr>, new_votes_unlocked)
      | (q, Some item) \<Rightarrow>
          do { unlocked \<leftarrow> add64 (ls_unlocked self) (si_votes item);
               update_out_queue view (self\<lparr>ls_out_queue := q, ls_unlocked := unlocked\<rparr>) True })"
  by pat_completeness auto
termination
  by (relation "measure (\<lambda>(v, s, b). length (sl_inner (ls_out_queue s)))")
    (auto dest: pop_by_view_length [OF sym])

declare update_in_queue.simps [simp del] update_out_queue.simps [simp del]

definition update :: "pos_state_config \<Rightarrow> view \<Rightarrow> node_lock_status \<Rightarrow> (node_lock_status \<times> bool) option" where
  "update conf view self =
     do { s1 \<leftarrow> update_in_queue view self;
          (s2, new_votes_unlocked) \<leftarrow> update_out_queue view s1 False;
          s3 \<leftarrow> (case ls_force_retired s2 of
                   None \<Rightarrow> Some s2
                 | Some retire_view \<Rightarrow>
                     do { t \<leftarrow> add64 retire_view (force_retired_locked_views conf view);
                          Some (if t \<le> view then s2\<lparr>ls_force_retired := None\<rparr> else s2) });
          Some (s3, if ls_exempt_from_forfeit s3 \<noteq> None then False else new_votes_unlocked) }"

definition new_lock ::
  "pos_state_config \<Rightarrow> view \<Rightarrow> nat \<Rightarrow> bool \<Rightarrow> node_lock_status \<Rightarrow> view list \<Rightarrow>
     (node_lock_status \<times> view list) option" where
  "new_lock conf view votes initialize_mode self update_views =
     (if votes = 0 then Some (self, update_views)
      else if initialize_mode
      then do { a \<leftarrow> add64 (ls_available_votes self) votes;
                l \<leftarrow> add64 (ls_locked self) votes;
                Some (self\<lparr>ls_available_votes := a, ls_locked := l\<rparr>, update_views) }
      else if ls_force_retired self \<noteq> None
      then do { t \<leftarrow> add64 view (in_queue_locked_views conf view);
                exit_view \<leftarrow> add64 t (out_queue_locked_views conf view);
                let (q, uv) = sl_push (ls_out_queue self) exit_view votes update_views;
                Some (self\<lparr>ls_out_queue := q\<rparr>, uv) }
      else do { a \<leftarrow> add64 (ls_available_votes self) votes;
                exit_view \<leftarrow> add64 view (in_queue_locked_views conf view);
                let (q, uv) = sl_push (ls_in_queue self) exit_view votes update_views;
                Some (self\<lparr>ls_available_votes := a, ls_in_queue := q\<rparr>, uv) })"

text \<open>The loop of \<^verbatim>\<open>new_unlock\<close> that takes the rest of the votes from \<open>in_queue\<close>.\<close>

lemma sl_pull_length:
  "sl_pull q n = (q', Some i) \<Longrightarrow>
     length (sl_inner q') < length (sl_inner q) \<or> (si_votes i = n \<and> length (sl_inner q') = length (sl_inner q))"
  using sl_sort_length [of q]
  by (auto simp: sl_pull_def Let_def simp del: sl_sort_length split: list.splits if_splits)

function new_unlock_loop ::
  "pos_state_config \<Rightarrow> view \<Rightarrow> nat \<Rightarrow> node_lock_status \<Rightarrow> view list \<Rightarrow>
     (node_lock_status \<times> view list) option" where
  "new_unlock_loop conf view rest_votes self update_views =
     (if rest_votes = 0 then Some (self, update_views)
      else case sl_pull (ls_in_queue self) rest_votes of
        (q, None) \<Rightarrow> Some (self\<lparr>ls_in_queue := q\<rparr>, update_views)
      | (q, Some item) \<Rightarrow>
          do { r \<leftarrow> sub64 rest_votes (si_votes item);
               a \<leftarrow> sub64 (ls_available_votes self) (si_votes item);
               exit_view \<leftarrow> add64 (si_view item) (out_queue_locked_views conf view);
               let (oq, uv) = sl_push (ls_out_queue self) exit_view (si_votes item) update_views;
               new_unlock_loop conf view r
                 (self\<lparr>ls_in_queue := q, ls_available_votes := a, ls_out_queue := oq\<rparr>) uv })"
  by pat_completeness auto
termination
  by (relation "measure (\<lambda>(c, v, r, s, u). length (sl_inner (ls_in_queue s)) + (if r = 0 then 0 else 1))")
    (auto dest!: sl_pull_length [OF sym] simp: u64_simps)

declare new_unlock_loop.simps [simp del]

definition new_unlock ::
  "pos_state_config \<Rightarrow> view \<Rightarrow> nat \<Rightarrow> node_lock_status \<Rightarrow> view list \<Rightarrow>
     (node_lock_status \<times> view list) option" where
  "new_unlock conf view to_unlock_votes self update_views =
     (if to_unlock_votes = 0 then Some (self, update_views)
      else
        let votes = min to_unlock_votes (ls_locked self) in
        if 0 < votes
        then do { r \<leftarrow> sub64 to_unlock_votes votes;
                  l \<leftarrow> sub64 (ls_locked self) votes;
                  a \<leftarrow> sub64 (ls_available_votes self) votes;
                  exit_view \<leftarrow> add64 view (out_queue_locked_views conf view);
                  let (oq, uv) = sl_push (ls_out_queue self) exit_view votes update_views;
                  new_unlock_loop conf view r
                    (self\<lparr>ls_locked := l, ls_available_votes := a, ls_out_queue := oq\<rparr>) uv }
        else new_unlock_loop conf view to_unlock_votes self update_views)"

definition force_retire ::
  "pos_state_config \<Rightarrow> view \<Rightarrow> node_lock_status \<Rightarrow> view list \<Rightarrow>
     (node_lock_status \<times> view list) option" where
  "force_retire conf view self callback_views =
     (if ls_force_retired self = None
      then do { t \<leftarrow> add64 view (force_retired_locked_views conf view);
                new_unlock conf view (ls_available_votes self)
                  (self\<lparr>ls_force_retired := Some view\<rparr>) (callback_views @ [t]) }
      else Some (self, callback_views))"

text \<open>The loop of \<^verbatim>\<open>forfeit\<close> that empties \<open>out_queue\<close> into \<open>to_lock_votes\<close>.\<close>

function forfeit_drain :: "status_list \<Rightarrow> nat \<Rightarrow> (status_list \<times> nat) option" where
  "forfeit_drain out_queue to_lock_votes =
     (case sl_pop_by_view out_queue U64_MAX of
        (q, None) \<Rightarrow> Some (q, to_lock_votes)
      | (q, Some item) \<Rightarrow> do { t \<leftarrow> add64 to_lock_votes (si_votes item); forfeit_drain q t })"
  by pat_completeness auto
termination
  by (relation "measure (\<lambda>(q, n). length (sl_inner q))") (auto dest: pop_by_view_length [OF sym])

declare forfeit_drain.simps [simp del]

definition forfeit ::
  "pos_state_config \<Rightarrow> view \<Rightarrow> node_lock_status \<Rightarrow> view list \<Rightarrow>
     (node_lock_status \<times> view list) option" where
  "forfeit conf view self updated_views =
     (if ls_exempt_from_forfeit self \<noteq> None then Some (self, updated_views)
      else case dispute_locked_views conf view of
        None \<Rightarrow> Some (self\<lparr>ls_exempt_from_forfeit := Some (ls_unlocked self)\<rparr>, updated_views)
      | Some dispute_locked \<Rightarrow>
          if 0 < ls_available_votes self
          then do { (oq, to_lock_votes) \<leftarrow> forfeit_drain (ls_out_queue self) (ls_available_votes self);
                    let (oq', uv) = sl_push oq (saturating_add64 view dispute_locked) to_lock_votes updated_views;
                    Some (self\<lparr>ls_in_queue := sl_clear (ls_in_queue self), ls_locked := 0,
                               ls_available_votes := 0, ls_force_retired := None,
                               ls_out_queue := oq'\<rparr>, uv) }
          else Some (self, updated_views))"

end
