(* ===== verification/Lock_Props.thy ===== *)
theory Lock_Props
  imports Lock_Status
begin

text \<open>
  The correctness of the lock status of \<^verbatim>\<open>Lock_Status\<close>: the invariant that
  \<open>available_votes\<close> equals the votes in \<open>in_queue\<close> plus the locked ones, conservation of votes
  by every operation, absence of panics within the bounds of a chain, what \<open>update\<close> releases,
  and the delay between retiring votes and unlocking them.
\<close>

section \<open>Votes, due votes and the invariant\<close>

definition sl_votes :: "status_list \<Rightarrow> nat" where
  "sl_votes q = sum_list (map si_votes (sl_inner q))"

definition sl_due :: "status_list \<Rightarrow> view \<Rightarrow> nat" where
  "sl_due q v = sum_list (map si_votes (filter (\<lambda>i. si_view i \<le> v) (sl_inner q)))"

definition sl_views :: "status_list \<Rightarrow> view set" where
  "sl_views q = si_view ` set (sl_inner q)"

lemma sl_votes_eq: "slq.votes q = sl_votes q"
  by (simp add: slq.votes_def sl_votes_def sl_items_def flip: mset_map sum_mset_sum_list)

lemma sl_due_eq: "slq.due q v = sl_due q v"
  by (simp add: slq.due_def sl_due_def sl_items_def flip: mset_map mset_filter sum_mset_sum_list)

lemma sl_views_eq: "sl_views q = si_view ` set_mset (sl_items q)"
  by (simp add: sl_views_def sl_items_def)

lemma sl_votes_default [simp]: "sl_votes status_list_default = 0" "sl_votes (sl_clear q) = 0"
  by (simp_all add: sl_votes_def status_list_default_def sl_clear_def)

lemma sl_ok_default [simp]: "sl_ok status_list_default" "sl_ok (sl_clear q)"
  by (simp_all add: sl_ok_def status_list_default_def sl_clear_def)

lemma sl_views_default [simp]: "sl_views status_list_default = {}" "sl_views (sl_clear q) = {}"
  by (simp_all add: sl_views_def status_list_default_def sl_clear_def)

lemma sl_push_votes [simp]: "sl_votes (fst (sl_push q v n uv)) = sl_votes q + n"
  using slq.votes_push [of q v n uv] by (simp add: sl_votes_eq)

lemma sl_push_due [simp]: "sl_due (fst (sl_push q v n uv)) w = sl_due q w + (if v \<le> w then n else 0)"
  using slq.due_push [of q v n uv w] by (simp add: sl_due_eq)

lemma sl_push_views [simp]: "sl_views (fst (sl_push q v n uv)) = insert v (sl_views q)"
  by (simp add: sl_views_eq sl_push_items)

lemma sl_push_update_views [simp]: "snd (sl_push q v n uv) = uv @ [v]"
  by (simp add: sl_push_def Let_def)

lemma sl_push_pair: "sl_push q v n uv = (q', uv') \<longleftrightarrow> q' = fst (sl_push q v n uv) \<and> uv' = uv @ [v]"
  by (metis prod.collapse fst_conv snd_conv sl_push_update_views)

lemma sl_push_collapse [simp]: "(fst (sl_push q v n uv), uv @ [v]) = sl_push q v n uv"
  by (metis prod.collapse sl_push_update_views)

lemma sl_votes_pos_due: "sl_views q \<subseteq> {..v} \<Longrightarrow> sl_due q v = sl_votes q"
proof -
  assume "sl_views q \<subseteq> {..v}"
  then have "filter (\<lambda>i. si_view i \<le> v) (sl_inner q) = sl_inner q"
    by (auto simp: sl_views_def filter_id_conv)
  then show ?thesis by (simp add: sl_due_def sl_votes_def)
qed

definition lock_ok :: "node_lock_status \<Rightarrow> bool" where
  "lock_ok s \<longleftrightarrow> sl_ok (ls_in_queue s) \<and> sl_ok (ls_out_queue s) \<and>
     ls_available_votes s = sl_votes (ls_in_queue s) + ls_locked s \<and>
     (case ls_exempt_from_forfeit s of None \<Rightarrow> True | Some e \<Rightarrow> e \<le> ls_unlocked s)"

text \<open>All votes that were ever staked and are still accounted for.\<close>

definition total_votes :: "node_lock_status \<Rightarrow> nat" where
  "total_votes s = sl_votes (ls_in_queue s) + ls_locked s + sl_votes (ls_out_queue s) + ls_unlocked s"

lemma lock_ok_default: "lock_ok node_lock_status_default" "total_votes node_lock_status_default = 0"
  by (simp_all add: lock_ok_def total_votes_def node_lock_status_default_def)

section \<open>The queue loops\<close>

lemma update_in_queue_spec:
  assumes "update_in_queue v s = Some s'" and "sl_ok (ls_in_queue s)"
  shows "\<exists>q. s' = s\<lparr>ls_in_queue := q, ls_locked := ls_locked s + sl_due (ls_in_queue s) v\<rparr> \<and>
    sl_ok q \<and> sl_items q = slq.late (ls_in_queue s) v \<and>
    sl_votes (ls_in_queue s) = sl_votes q + sl_due (ls_in_queue s) v"
  using assms
proof (induction v s arbitrary: s' rule: update_in_queue.induct)
  case (1 v s)
  obtain q r where pop: "sl_pop_by_view (ls_in_queue s) v = (q, r)"
    by (cases "sl_pop_by_view (ls_in_queue s) v")
  show ?case
  proof (cases r)
    case None
    note p = slq.pop_None_due [OF 1(3) pop [unfolded None]]
    have "sl_votes q = sl_votes (ls_in_queue s)"
      using p(2) by (metis slq.votes_def sl_votes_eq)
    then show ?thesis
      using 1(2) pop None p by (subst (asm) update_in_queue.simps) (auto simp: sl_due_eq)
  next
    case (Some i)
    note p = slq.pop_Some_due [OF 1(3) pop [unfolded Some]]
    have "update_in_queue v (s\<lparr>ls_in_queue := q, ls_locked := ls_locked s + si_votes i\<rparr>) = Some s'"
      and "add64 (ls_locked s) (si_votes i) = Some (ls_locked s + si_votes i)"
      using 1(2) pop Some by (auto simp: update_in_queue.simps [of v s] u64_simps option_bind_simps)
    from 1(1) [OF pop [symmetric] Some this(2) this(1)] obtain q' where
      "s' = s\<lparr>ls_in_queue := q', ls_locked := ls_locked s + si_votes i + sl_due q v\<rparr>"
      "sl_ok q'" "sl_items q' = slq.late q v" "sl_votes q = sl_votes q' + sl_due q v"
      using p(1) by auto
    then show ?thesis
      using p by (intro exI [of _ q']) (simp add: sl_due_eq sl_votes_eq add.assoc)
  qed
qed

lemma update_out_queue_spec:
  assumes "update_out_queue v s b = Some (s', b')" and "sl_ok (ls_out_queue s)"
  shows "\<exists>q. s' = s\<lparr>ls_out_queue := q, ls_unlocked := ls_unlocked s + sl_due (ls_out_queue s) v\<rparr> \<and>
    sl_ok q \<and> sl_items q = slq.late (ls_out_queue s) v \<and>
    sl_votes (ls_out_queue s) = sl_votes q + sl_due (ls_out_queue s) v \<and>
    (b' \<longleftrightarrow> b \<or> (\<exists>w\<in>sl_views (ls_out_queue s). w \<le> v))"
  using assms
proof (induction v s b arbitrary: s' rule: update_out_queue.induct)
  case (1 v s b)
  obtain q r where pop: "sl_pop_by_view (ls_out_queue s) v = (q, r)"
    by (cases "sl_pop_by_view (ls_out_queue s) v")
  show ?case
  proof (cases r)
    case None
    note p = slq.pop_None_due [OF 1(3) pop [unfolded None]]
    have "sl_votes q = sl_votes (ls_out_queue s)"
      using p(2) by (metis slq.votes_def sl_votes_eq)
    moreover have "\<not> (\<exists>w\<in>sl_views (ls_out_queue s). w \<le> v)"
      using slq.pop_None [OF 1(3) pop [unfolded None]] by (auto simp: sl_views_eq not_le)
    ultimately show ?thesis
      using 1(2) pop None p by (subst (asm) update_out_queue.simps) (auto simp: sl_due_eq)
  next
    case (Some i)
    note p = slq.pop_Some_due [OF 1(3) pop [unfolded Some]]
    have "update_out_queue v (s\<lparr>ls_out_queue := q, ls_unlocked := ls_unlocked s + si_votes i\<rparr>) True = Some (s', b')"
      and "add64 (ls_unlocked s) (si_votes i) = Some (ls_unlocked s + si_votes i)"
      using 1(2) pop Some by (auto simp: update_out_queue.simps [of v s b] u64_simps option_bind_simps)
    from 1(1) [OF pop [symmetric] Some this(2) this(1)] obtain q' where
      "s' = s\<lparr>ls_out_queue := q', ls_unlocked := ls_unlocked s + si_votes i + sl_due q v\<rparr>"
      "sl_ok q'" "sl_items q' = slq.late q v" "sl_votes q = sl_votes q' + sl_due q v" "b'"
      using p(1) by auto
    moreover have "\<exists>w\<in>sl_views (ls_out_queue s). w \<le> v"
      using p(5,6) by (auto simp: sl_views_eq)
    ultimately show ?thesis
      using p by (intro exI [of _ q']) (simp add: sl_due_eq sl_votes_eq add.assoc)
  qed
qed

text \<open>The loops return when the votes they move do not overflow.\<close>

lemma update_in_queue_defined:
  assumes "sl_ok (ls_in_queue s)" and "ls_locked s + sl_due (ls_in_queue s) v \<le> U64_MAX"
  shows "\<exists>s'. update_in_queue v s = Some s'"
  using assms
proof (induction v s rule: update_in_queue.induct)
  case (1 v s)
  obtain q r where pop: "sl_pop_by_view (ls_in_queue s) v = (q, r)"
    by (cases "sl_pop_by_view (ls_in_queue s) v")
  show ?case
  proof (cases r)
    case None
    then show ?thesis using pop by (simp add: update_in_queue.simps [of v s])
  next
    case (Some i)
    note p = slq.pop_Some_due [OF 1(2) pop [unfolded Some]]
    have a: "add64 (ls_locked s) (si_votes i) = Some (ls_locked s + si_votes i)"
      using 1(3) p(3) by (simp add: u64_simps sl_due_eq)
    from 1(1) [OF pop [symmetric] Some a] show ?thesis
      using p 1(3) pop Some a by (simp add: update_in_queue.simps [of v s] sl_due_eq add.assoc)
  qed
qed

lemma update_out_queue_defined:
  assumes "sl_ok (ls_out_queue s)" and "ls_unlocked s + sl_due (ls_out_queue s) v \<le> U64_MAX"
  shows "\<exists>r. update_out_queue v s b = Some r"
  using assms
proof (induction v s b rule: update_out_queue.induct)
  case (1 v s b)
  obtain q r where pop: "sl_pop_by_view (ls_out_queue s) v = (q, r)"
    by (cases "sl_pop_by_view (ls_out_queue s) v")
  show ?case
  proof (cases r)
    case None
    then show ?thesis using pop by (simp add: update_out_queue.simps [of v s b])
  next
    case (Some i)
    note p = slq.pop_Some_due [OF 1(2) pop [unfolded Some]]
    have a: "add64 (ls_unlocked s) (si_votes i) = Some (ls_unlocked s + si_votes i)"
      using 1(3) p(3) by (simp add: u64_simps sl_due_eq)
    from 1(1) [OF pop [symmetric] Some a] show ?thesis
      using p 1(3) pop Some a by (simp add: update_out_queue.simps [of v s b] sl_due_eq add.assoc)
  qed
qed

lemma forfeit_drain_spec:
  assumes "sl_ok q" and "sl_views q \<subseteq> {..U64_MAX}" and "n + sl_votes q \<le> U64_MAX"
  shows "\<exists>q'. forfeit_drain q n = Some (q', n + sl_votes q) \<and> sl_ok q' \<and> sl_items q' = {#}"
  using assms
proof (induction q n rule: forfeit_drain.induct)
  case (1 q n)
  obtain q' r where pop: "sl_pop_by_view q U64_MAX = (q', r)"
    by (cases "sl_pop_by_view q U64_MAX")
  show ?case
  proof (cases r)
    case None
    have "sl_items q = {#}"
    proof (rule ccontr)
      assume "sl_items q \<noteq> {#}"
      then obtain i where i: "i \<in># sl_items q" by (rule multiset_nonemptyE)
      then have "U64_MAX < si_view i" "si_view i \<le> U64_MAX"
        using slq.pop_None [OF 1(2) pop [unfolded None]] 1(3) by (auto simp: sl_views_eq)
      then show False by simp
    qed
    then show ?thesis
      using slq.pop_None [OF 1(2) pop [unfolded None]] pop None slq.votes_zero_if_empty [of q]
      by (simp add: forfeit_drain.simps [of q] sl_votes_eq)
  next
    case (Some i)
    note p = slq.pop_Some_due [OF 1(2) pop [unfolded Some]]
    have v: "sl_votes q = si_votes i + sl_votes q'"
      using p(2) by (simp add: sl_votes_eq)
    have a: "add64 n (si_votes i) = Some (n + si_votes i)"
      using 1(4) v by (simp add: u64_simps)
    have "sl_views q' \<subseteq> sl_views q"
      using slq.pop_Some [OF 1(2) pop [unfolded Some]] by (auto simp: sl_views_eq)
    with 1(1) [OF pop [symmetric] Some a] show ?thesis
      using p(1) 1(3,4) v pop Some a by (simp add: forfeit_drain.simps [of q] add.assoc)
  qed
qed

lemma forfeit_drain_votes:
  assumes "forfeit_drain q n = Some (q', m)" and "sl_ok q"
  shows "m = n + sl_votes q - sl_votes q' \<and> sl_votes q' \<le> sl_votes q \<and> sl_ok q' \<and> sl_views q' \<subseteq> sl_views q"
  using assms
proof (induction q n rule: forfeit_drain.induct)
  case (1 q n)
  obtain q1 r where pop: "sl_pop_by_view q U64_MAX = (q1, r)"
    by (cases "sl_pop_by_view q U64_MAX")
  show ?case
  proof (cases r)
    case None
    note p = slq.pop_None_due [OF 1(3) pop [unfolded None]]
    have "q' = q1" "m = n" using 1(2) pop None by (auto simp: forfeit_drain.simps [of q])
    moreover have "sl_votes q1 = sl_votes q"
      using p(2) by (metis slq.votes_def sl_votes_eq)
    ultimately show ?thesis
      using p by (simp add: sl_views_eq)
  next
    case (Some i)
    note p = slq.pop_Some_due [OF 1(3) pop [unfolded Some]]
    have "forfeit_drain q1 (n + si_votes i) = Some (q', m)"
      and a: "add64 n (si_votes i) = Some (n + si_votes i)"
      using 1(2) pop Some by (auto simp: forfeit_drain.simps [of q] u64_simps option_bind_simps)
    moreover have "sl_views q1 \<subseteq> sl_views q"
      using slq.pop_Some [OF 1(3) pop [unfolded Some]] by (auto simp: sl_views_eq)
    ultimately show ?thesis
      using 1(1) [OF pop [symmetric] Some a] p(1,2) by (auto simp: sl_votes_eq)
  qed
qed

section \<open>Retiring votes\<close>

text \<open>
  The effect of retiring \<open>t\<close> votes at view \<open>v\<close> with the exit delay \<open>L\<close>: they move from the
  available ones to \<open>out_queue\<close>, each new exit view is \<open>L\<close> after \<open>v\<close> or after the view of an
  item of \<open>in_queue\<close> and is recorded in \<open>update_views\<close>, and nothing falls due earlier.
\<close>

definition retired ::
  "nat \<Rightarrow> view \<Rightarrow> nat \<Rightarrow> node_lock_status \<Rightarrow> view list \<Rightarrow> node_lock_status \<Rightarrow> view list \<Rightarrow> bool" where
  "retired L v t s uv s' uv' \<longleftrightarrow>
     ls_unlocked s' = ls_unlocked s \<and> ls_force_retired s' = ls_force_retired s \<and>
     ls_exempt_from_forfeit s' = ls_exempt_from_forfeit s \<and>
     sl_ok (ls_in_queue s') \<and> sl_ok (ls_out_queue s') \<and>
     ls_available_votes s = ls_available_votes s' + t \<and>
     sl_votes (ls_in_queue s) + ls_locked s = sl_votes (ls_in_queue s') + ls_locked s' + t \<and>
     sl_votes (ls_out_queue s') = sl_votes (ls_out_queue s) + t \<and>
     sl_views (ls_in_queue s') \<subseteq> sl_views (ls_in_queue s) \<and>
     (\<exists>ds. uv' = uv @ ds \<and> sl_views (ls_out_queue s') = sl_views (ls_out_queue s) \<union> set ds \<and>
        (\<forall>d\<in>set ds. \<exists>x\<in>insert v (sl_views (ls_in_queue s)). d = x + L)) \<and>
     (\<forall>w. (\<forall>x\<in>insert v (sl_views (ls_in_queue s)). w < x + L) \<longrightarrow>
        sl_due (ls_out_queue s') w = sl_due (ls_out_queue s) w)"

lemma retired_refl:
  "sl_ok (ls_in_queue s) \<Longrightarrow> sl_ok (ls_out_queue s) \<Longrightarrow> retired L v 0 s uv s uv"
  by (auto simp: retired_def)

lemma retired_trans:
  assumes "retired L v t s uv s1 uv1" and "retired L v t' s1 uv1 s2 uv2"
  shows "retired L v (t + t') s uv s2 uv2"
proof -
  obtain ds where ds: "uv1 = uv @ ds" "sl_views (ls_out_queue s1) = sl_views (ls_out_queue s) \<union> set ds"
      "\<forall>d\<in>set ds. \<exists>x\<in>insert v (sl_views (ls_in_queue s)). d = x + L"
    using assms(1) by (auto simp: retired_def)
  obtain es where es: "uv2 = uv1 @ es" "sl_views (ls_out_queue s2) = sl_views (ls_out_queue s1) \<union> set es"
      "\<forall>d\<in>set es. \<exists>x\<in>insert v (sl_views (ls_in_queue s1)). d = x + L"
    using assms(2) by (auto simp: retired_def)
  have sub: "sl_views (ls_in_queue s1) \<subseteq> sl_views (ls_in_queue s)"
    "sl_views (ls_in_queue s2) \<subseteq> sl_views (ls_in_queue s1)"
    using assms by (auto simp: retired_def)
  have "\<exists>ds. uv2 = uv @ ds \<and> sl_views (ls_out_queue s2) = sl_views (ls_out_queue s) \<union> set ds \<and>
      (\<forall>d\<in>set ds. \<exists>x\<in>insert v (sl_views (ls_in_queue s)). d = x + L)"
    using ds es sub(1) by (intro exI [of _ "ds @ es"]) fastforce
  moreover have "\<forall>w. (\<forall>x\<in>insert v (sl_views (ls_in_queue s)). w < x + L) \<longrightarrow>
      sl_due (ls_out_queue s2) w = sl_due (ls_out_queue s) w"
  proof (intro allI impI)
    fix w
    assume w: "\<forall>x\<in>insert v (sl_views (ls_in_queue s)). w < x + L"
    then have "\<forall>x\<in>insert v (sl_views (ls_in_queue s1)). w < x + L"
      using sub(1) by auto
    with w show "sl_due (ls_out_queue s2) w = sl_due (ls_out_queue s) w"
      using assms unfolding retired_def by metis
  qed
  ultimately show ?thesis
    using assms sub by (simp add: retired_def)
qed

text \<open>Retiring \<open>t\<close> locked votes, the first part of \<open>new_unlock\<close>.\<close>

lemma retired_locked:
  assumes "sl_ok (ls_in_queue s)" and "sl_ok (ls_out_queue s)"
    and "t \<le> ls_locked s" and "t \<le> ls_available_votes s"
  shows "retired L v t s uv
    (s\<lparr>ls_locked := ls_locked s - t, ls_available_votes := ls_available_votes s - t,
       ls_out_queue := fst (sl_push (ls_out_queue s) (v + L) t uv)\<rparr>) (uv @ [v + L])"
  using assms sl_push_ok [OF assms(2), of "v + L" t uv] by (auto simp: retired_def not_le)

text \<open>Retiring an item of \<open>in_queue\<close>, one iteration of the loop.\<close>

lemma retired_item:
  assumes "sl_ok (ls_in_queue s)" and "sl_ok (ls_out_queue s)"
    and pull: "sl_pull (ls_in_queue s) r = (q, Some i)" and "si_votes i \<le> ls_available_votes s"
  shows "retired L v (si_votes i) s uv
    (s\<lparr>ls_in_queue := q, ls_available_votes := ls_available_votes s - si_votes i,
       ls_out_queue := fst (sl_push (ls_out_queue s) (si_view i + L) (si_votes i) uv)\<rparr>)
    (uv @ [si_view i + L])"
proof -
  note p = slq.pull_Some_votes [OF assms(1) pull, unfolded sl_votes_eq]
    slq.pull_Some_views [OF assms(1) pull, folded sl_views_eq]
  then show ?thesis
    using assms sl_push_ok [OF assms(2), of "si_view i + L" "si_votes i" uv]
    by (auto simp: retired_def not_le)
qed

lemma new_unlock_loop_spec:
  assumes "new_unlock_loop conf v r s uv = Some (s', uv')"
    and "sl_ok (ls_in_queue s)" and "sl_ok (ls_out_queue s)"
  shows "retired (out_queue_locked_views conf v) v (min r (sl_votes (ls_in_queue s))) s uv s' uv'
    \<and> ls_locked s' = ls_locked s"
  using assms
proof (induction conf v r s uv rule: new_unlock_loop.induct)
  case (1 conf v r s uv)
  let ?L = "out_queue_locked_views conf v"
  obtain q m where pull: "sl_pull (ls_in_queue s) r = (q, m)"
    by (cases "sl_pull (ls_in_queue s) r")
  consider "r = 0" | "0 < r" "m = None" | i where "0 < r" "m = Some i"
    by (cases m) auto
  then show ?case
  proof cases
    case 1
    then show ?thesis
      using "1.prems" by (simp add: new_unlock_loop.simps [of conf v 0 s uv] retired_refl)
  next
    case 2
    have e: "sl_items (ls_in_queue s) = {#}" "sl_items q = {#}" "sl_ok q"
      using slq.pull_None [OF "1.prems"(2)] pull 2 by auto
    have "sl_votes (ls_in_queue s) = 0" "sl_votes q = 0"
      using slq.votes_zero_if_empty [OF e(1)] slq.votes_zero_if_empty [OF e(2)] by (simp_all add: sl_votes_eq)
    moreover have "s' = s\<lparr>ls_in_queue := q\<rparr>" "uv' = uv"
      using "1.prems"(1) pull 2 by (auto simp: new_unlock_loop.simps [of conf v r s uv])
    ultimately show ?thesis
      using e "1.prems"(3) by (auto simp: retired_def sl_views_eq)
  next
    case 3
    let ?s = "s\<lparr>ls_in_queue := q, ls_available_votes := ls_available_votes s - si_votes i,
      ls_out_queue := fst (sl_push (ls_out_queue s) (si_view i + ?L) (si_votes i) uv)\<rparr>"
    let ?uv = "uv @ [si_view i + ?L]"
    have step: "si_votes i \<le> r" "si_votes i \<le> ls_available_votes s" "si_view i + ?L \<le> U64_MAX"
      "new_unlock_loop conf v (r - si_votes i) ?s ?uv = Some (s', uv')"
      using "1.prems"(1) pull 3
      by (auto simp: new_unlock_loop.simps [of conf v r s uv] u64_simps option_bind_simps sl_push_pair
          split: prod.splits)
    note p = slq.pull_Some_votes [OF "1.prems"(2) pull [unfolded 3], unfolded sl_votes_eq]
    have "retired ?L v (min (r - si_votes i) (sl_votes q)) ?s ?uv s' uv' \<and> ls_locked s' = ls_locked s"
      using "1.IH" [of q m i "r - si_votes i" "ls_available_votes s - si_votes i" "si_view i + ?L"
          "sl_push (ls_out_queue s) (si_view i + ?L) (si_votes i) uv"
          "fst (sl_push (ls_out_queue s) (si_view i + ?L) (si_votes i) uv)" ?uv] step pull 3 p
        sl_push_ok [OF "1.prems"(3)]
      by (simp add: u64_simps sl_push_pair)
    moreover have "retired ?L v (si_votes i) s uv ?s ?uv"
      using "1.prems"(2,3) pull 3 step(2) by (intro retired_item) auto
    ultimately have "retired ?L v (si_votes i + min (r - si_votes i) (sl_votes q)) s uv s' uv'"
      and "ls_locked s' = ls_locked s"
      using retired_trans by blast+
    moreover have "si_votes i + min (r - si_votes i) (sl_votes q) = min r (sl_votes (ls_in_queue s))"
      using p step(1) by auto
    ultimately show ?thesis by simp
  qed
qed

lemma new_unlock_loop_defined:
  assumes "sl_ok (ls_in_queue s)" and "sl_votes (ls_in_queue s) \<le> ls_available_votes s"
    and "\<forall>x\<in>sl_views (ls_in_queue s). x + out_queue_locked_views conf v \<le> U64_MAX"
  shows "\<exists>s' uv'. new_unlock_loop conf v r s uv = Some (s', uv')"
  using assms
proof (induction conf v r s uv rule: new_unlock_loop.induct)
  case (1 conf v r s uv)
  let ?L = "out_queue_locked_views conf v"
  obtain q m where pull: "sl_pull (ls_in_queue s) r = (q, m)"
    by (cases "sl_pull (ls_in_queue s) r")
  consider "r = 0 \<or> m = None" | i where "0 < r" "m = Some i"
    by (cases m) auto
  then show ?case
  proof cases
    case 1
    then show ?thesis
      using pull by (auto simp: new_unlock_loop.simps [of conf v r s uv] new_unlock_loop.simps [of conf v 0 s uv])
  next
    case 2
    note p = slq.pull_Some_votes [OF "1.prems"(1) pull [unfolded 2], unfolded sl_votes_eq]
      slq.pull_Some_views [OF "1.prems"(1) pull [unfolded 2], folded sl_views_eq]
    have b: "si_view i + ?L \<le> U64_MAX" "\<forall>x\<in>sl_views q. x + ?L \<le> U64_MAX"
      using p(4,5) "1.prems"(3) by auto
    then show ?thesis
      using "1.IH" [of q m i "r - si_votes i" "ls_available_votes s - si_votes i" "si_view i + ?L"
          "sl_push (ls_out_queue s) (si_view i + ?L) (si_votes i) uv"
          "fst (sl_push (ls_out_queue s) (si_view i + ?L) (si_votes i) uv)" "uv @ [si_view i + ?L]"]
        "1.prems"(2) pull 2 p(1-3)
      by (auto simp: new_unlock_loop.simps [of conf v r s uv] add64_ok sub64_ok sl_push_pair split: prod.splits)
  qed
qed

text \<open>\<^verbatim>\<open>new_unlock\<close> retires exactly the requested votes, or all available ones if fewer.\<close>

lemma new_unlock_spec:
  assumes "new_unlock conf v n s uv = Some (s', uv')" and "lock_ok s"
  shows "retired (out_queue_locked_views conf v) v (min n (ls_available_votes s)) s uv s' uv'"
proof (cases "n = 0 \<or> ls_locked s = 0")
  case True
  then have "n = 0 \<and> s' = s \<and> uv' = uv \<or> ls_locked s = 0 \<and> new_unlock_loop conf v n s uv = Some (s', uv')"
    using assms(1) by (auto simp: new_unlock_def Let_def split: if_splits)
  then show ?thesis
    using assms(2) new_unlock_loop_spec [of conf v n s uv s' uv']
    by (auto simp: lock_ok_def retired_refl)
next
  case False
  let ?L = "out_queue_locked_views conf v"
  let ?t = "min n (ls_locked s)"
  let ?s = "s\<lparr>ls_locked := ls_locked s - ?t, ls_available_votes := ls_available_votes s - ?t,
       ls_out_queue := fst (sl_push (ls_out_queue s) (v + ?L) ?t uv)\<rparr>"
  have ok: "sl_ok (ls_in_queue s)" "sl_ok (ls_out_queue s)"
    "ls_available_votes s = sl_votes (ls_in_queue s) + ls_locked s"
    using assms(2) by (auto simp: lock_ok_def)
  have "new_unlock_loop conf v (n - ?t) ?s (uv @ [v + ?L]) = Some (s', uv')"
    using False assms(1)
    by (auto simp: new_unlock_def Let_def option_bind_simps sub64_def add64_Some_iff sl_push_pair
        split: if_splits prod.splits)
  then have "retired ?L v (min (n - ?t) (sl_votes (ls_in_queue s))) ?s (uv @ [v + ?L]) s' uv'"
    using new_unlock_loop_spec [of conf v "n - ?t" ?s "uv @ [v + ?L]" s' uv'] ok(1)
      sl_push_ok [OF ok(2)] by simp
  moreover have "retired ?L v ?t s uv ?s (uv @ [v + ?L])"
    using ok by (intro retired_locked) auto
  ultimately have "retired ?L v (?t + min (n - ?t) (sl_votes (ls_in_queue s))) s uv s' uv'"
    using retired_trans by blast
  moreover have "?t + min (n - ?t) (sl_votes (ls_in_queue s)) = min n (ls_available_votes s)"
    using ok(3) by auto
  ultimately show ?thesis by simp
qed

lemma new_unlock_defined:
  assumes "lock_ok s" and "v + out_queue_locked_views conf v \<le> U64_MAX"
    and "\<forall>x\<in>sl_views (ls_in_queue s). x + out_queue_locked_views conf v \<le> U64_MAX"
  shows "\<exists>s' uv'. new_unlock conf v n s uv = Some (s', uv')"
proof -
  have loop: "\<And>r uv. \<exists>s' uv'. new_unlock_loop conf v r t uv = Some (s', uv')"
    if "ls_in_queue t = ls_in_queue s" "sl_votes (ls_in_queue s) \<le> ls_available_votes t" for t
    using that assms by (intro new_unlock_loop_defined) (auto simp: lock_ok_def)
  show ?thesis
    using assms(1,2) loop
    by (auto simp: new_unlock_def Let_def lock_ok_def sub64_ok add64_ok sl_push_pair split: prod.splits)
qed

section \<open>The operations keep the invariant and conserve votes\<close>

lemma update_spec:
  assumes "update conf v s = Some (s', b)" and "lock_ok s"
  shows "sl_ok (ls_in_queue s') \<and> sl_ok (ls_out_queue s') \<and>
    sl_items (ls_in_queue s') = slq.late (ls_in_queue s) v \<and> sl_items (ls_out_queue s') = slq.late (ls_out_queue s) v \<and>
    sl_votes (ls_in_queue s) = sl_votes (ls_in_queue s') + sl_due (ls_in_queue s) v \<and>
    sl_votes (ls_out_queue s) = sl_votes (ls_out_queue s') + sl_due (ls_out_queue s) v \<and>
    ls_locked s' = ls_locked s + sl_due (ls_in_queue s) v \<and>
    ls_unlocked s' = ls_unlocked s + sl_due (ls_out_queue s) v \<and>
    ls_available_votes s' = ls_available_votes s \<and>
    ls_exempt_from_forfeit s' = ls_exempt_from_forfeit s \<and>
    (ls_force_retired s' = ls_force_retired s \<or> ls_force_retired s' = None) \<and>
    (b \<longleftrightarrow> ls_exempt_from_forfeit s = None \<and> (\<exists>w\<in>sl_views (ls_out_queue s). w \<le> v))"
proof -
  obtain s1 s2 b1 where 1: "update_in_queue v s = Some s1" and 2: "update_out_queue v s1 False = Some (s2, b1)"
    and 3: "s' = s2 \<or> s' = s2\<lparr>ls_force_retired := None\<rparr>"
    and b: "b \<longleftrightarrow> ls_exempt_from_forfeit s' = None \<and> b1"
    using assms(1) by (auto simp: update_def option_bind_simps split: option.splits if_splits)
  have ok: "sl_ok (ls_in_queue s)" "sl_ok (ls_out_queue s)"
    using assms(2) by (auto simp: lock_ok_def)
  obtain qi where qi: "s1 = s\<lparr>ls_in_queue := qi, ls_locked := ls_locked s + sl_due (ls_in_queue s) v\<rparr>"
    "sl_ok qi" "sl_items qi = slq.late (ls_in_queue s) v"
    "sl_votes (ls_in_queue s) = sl_votes qi + sl_due (ls_in_queue s) v"
    using update_in_queue_spec [OF 1 ok(1)] by auto
  then obtain qo where
    "s2 = s1\<lparr>ls_out_queue := qo, ls_unlocked := ls_unlocked s + sl_due (ls_out_queue s) v\<rparr>"
    "sl_ok qo" "sl_items qo = slq.late (ls_out_queue s) v"
    "sl_votes (ls_out_queue s) = sl_votes qo + sl_due (ls_out_queue s) v"
    "b1 \<longleftrightarrow> (\<exists>w\<in>sl_views (ls_out_queue s). w \<le> v)"
    using update_out_queue_spec [OF 2] ok(2) by auto
  then show ?thesis
    using qi 3 b by auto
qed

lemma update_views_late:
  "sl_items q' = slq.late q v \<Longrightarrow> sl_views q' = {w \<in> sl_views q. v < w}"
  by (auto simp: sl_views_eq slq.late_def)

lemma new_lock_spec:
  assumes "new_lock conf v n init s uv = Some (s', uv')" and "lock_ok s"
  shows "lock_ok s'" and "total_votes s' = total_votes s + n"
    and "ls_force_retired s' = ls_force_retired s"
    and "sl_views (ls_in_queue s') \<subseteq> insert (v + in_queue_locked_views conf v) (sl_views (ls_in_queue s))"
    and "sl_views (ls_out_queue s') \<subseteq>
      insert (v + in_queue_locked_views conf v + out_queue_locked_views conf v) (sl_views (ls_out_queue s))"
    and "sl_views (ls_out_queue s') \<subseteq> sl_views (ls_out_queue s) \<union> {..U64_MAX}"
    and "\<exists>ds. uv' = uv @ ds \<and> sl_views (ls_in_queue s') \<union> sl_views (ls_out_queue s') \<subseteq>
      sl_views (ls_in_queue s) \<union> sl_views (ls_out_queue s) \<union> set ds"
    and "ls_unlocked s' = ls_unlocked s" and "ls_exempt_from_forfeit s' = ls_exempt_from_forfeit s"
    and "ls_available_votes s \<le> ls_available_votes s'"
  using assms sl_push_ok [of "ls_in_queue s"] sl_push_ok [of "ls_out_queue s"]
  by (auto simp: new_lock_def lock_ok_def total_votes_def option_bind_simps u64_simps sl_push_pair
      split: if_splits option.splits prod.splits)

lemma new_unlock_keeps:
  assumes "new_unlock conf v n s uv = Some (s', uv')" and "lock_ok s"
  shows "lock_ok s'" and "total_votes s' = total_votes s"
  using new_unlock_spec [OF assms] assms(2)
  by (auto simp: retired_def lock_ok_def total_votes_def split: option.splits)

lemma force_retire_cases:
  assumes "force_retire conf v s uv = Some (s', uv')"
  obtains "ls_force_retired s \<noteq> None" "s' = s" "uv' = uv"
  | "ls_force_retired s = None" "v + force_retired_locked_views conf v \<le> U64_MAX"
    "new_unlock conf v (ls_available_votes s) (s\<lparr>ls_force_retired := Some v\<rparr>)
       (uv @ [v + force_retired_locked_views conf v]) = Some (s', uv')"
  using assms unfolding force_retire_def
  by (cases "ls_force_retired s") (auto simp: option_bind_simps u64_simps)

lemma force_retire_keeps:
  assumes "force_retire conf v s uv = Some (s', uv')" and "lock_ok s"
  shows "lock_ok s'" and "total_votes s' = total_votes s"
proof -
  have "lock_ok s' \<and> total_votes s' = total_votes s"
    using assms(1)
  proof (cases rule: force_retire_cases)
    case 1
    then show ?thesis using assms(2) by simp
  next
    case 2
    have "lock_ok (s\<lparr>ls_force_retired := Some v\<rparr>)"
      and t: "total_votes (s\<lparr>ls_force_retired := Some v\<rparr>) = total_votes s"
      using assms(2) by (simp_all add: lock_ok_def total_votes_def split: option.splits)
    from new_unlock_keeps [OF 2(3) this(1)] show ?thesis
      using t by simp
  qed
  then show "lock_ok s'" and "total_votes s' = total_votes s" by auto
qed

lemma forfeit_cases:
  assumes "forfeit conf v s uv = Some (s', uv')"
  obtains "s' = s" "uv' = uv"
  | "s' = s\<lparr>ls_exempt_from_forfeit := Some (ls_unlocked s)\<rparr>" "uv' = uv"
    "ls_exempt_from_forfeit s = None" "dispute_locked_views conf v = None"
  | d q m where "forfeit_drain (ls_out_queue s) (ls_available_votes s) = Some (q, m)"
    "ls_exempt_from_forfeit s = None" "dispute_locked_views conf v = Some d" "0 < ls_available_votes s"
    "s' = s\<lparr>ls_in_queue := sl_clear (ls_in_queue s), ls_locked := 0,
             ls_available_votes := 0, ls_force_retired := None,
             ls_out_queue := fst (sl_push q (saturating_add64 v d) m uv)\<rparr>"
    "uv' = uv @ [saturating_add64 v d]"
proof (cases "ls_exempt_from_forfeit s")
  case None
  show ?thesis
  proof (cases "dispute_locked_views conf v")
    case None
    then show ?thesis
      using assms \<open>ls_exempt_from_forfeit s = None\<close> that(2) by (simp add: forfeit_def)
  next
    case (Some d)
    show ?thesis
    proof (cases "0 < ls_available_votes s")
      case True
      then show ?thesis
        using assms \<open>ls_exempt_from_forfeit s = None\<close> Some that(3)
        by (auto simp: forfeit_def option_bind_simps sl_push_pair split: prod.splits)
    next
      case False
      then show ?thesis
        using assms \<open>ls_exempt_from_forfeit s = None\<close> Some that(1) by (simp add: forfeit_def)
    qed
  qed
next
  case (Some e)
  then show ?thesis
    using assms that(1) by (simp add: forfeit_def)
qed

lemma forfeit_keeps:
  assumes "forfeit conf v s uv = Some (s', uv')" and "lock_ok s"
  shows "lock_ok s' \<and> total_votes s' = total_votes s \<and> ls_unlocked s' = ls_unlocked s \<and>
    sl_views (ls_in_queue s') \<subseteq> sl_views (ls_in_queue s) \<and>
    sl_views (ls_out_queue s') \<subseteq> sl_views (ls_out_queue s) \<union> {..U64_MAX} \<and>
    (ls_force_retired s' = ls_force_retired s \<or> ls_force_retired s' = None) \<and>
    (\<exists>ds. uv' = uv @ ds \<and> sl_views (ls_out_queue s') \<subseteq> sl_views (ls_out_queue s) \<union> set ds)"
  using assms(1)
proof (cases rule: forfeit_cases)
  case (3 d q m)
  have ok: "sl_ok (ls_out_queue s)" "ls_available_votes s = sl_votes (ls_in_queue s) + ls_locked s"
    using assms(2) by (auto simp: lock_ok_def)
  note d = forfeit_drain_votes [OF 3(1) ok(1)]
  have "saturating_add64 v d \<le> U64_MAX" by (simp add: saturating_add64_def)
  with 3 d show ?thesis
    using ok sl_push_ok [of q "saturating_add64 v d" m uv] by (auto simp: lock_ok_def total_votes_def)
qed (use assms(2) in \<open>auto simp: lock_ok_def total_votes_def split: option.splits\<close>)

section \<open>Sequences of operations\<close>

text \<open>The operations \<^verbatim>\<open>PosState\<close> performs on the lock status of a node, with their arguments.\<close>

datatype lock_op =
  OpUpdate view
| OpNewLock view nat bool
| OpNewUnlock view nat
| OpForceRetire view
| OpForfeit view

fun lock_step :: "pos_state_config \<Rightarrow> lock_op \<Rightarrow> node_lock_status \<Rightarrow> node_lock_status option" where
  "lock_step conf (OpUpdate v) s = map_option fst (update conf v s)"
| "lock_step conf (OpNewLock v n init) s = map_option fst (new_lock conf v n init s [])"
| "lock_step conf (OpNewUnlock v n) s = map_option fst (new_unlock conf v n s [])"
| "lock_step conf (OpForceRetire v) s = map_option fst (force_retire conf v s [])"
| "lock_step conf (OpForfeit v) s = map_option fst (forfeit conf v s [])"

fun lock_minted :: "lock_op \<Rightarrow> nat" where
  "lock_minted (OpNewLock v n init) = n"
| "lock_minted _ = 0"

fun lock_op_view :: "lock_op \<Rightarrow> view" where
  "lock_op_view (OpUpdate v) = v"
| "lock_op_view (OpNewLock v n init) = v"
| "lock_op_view (OpNewUnlock v n) = v"
| "lock_op_view (OpForceRetire v) = v"
| "lock_op_view (OpForfeit v) = v"

lemma lock_step_keeps:
  assumes "lock_ok s" and "lock_step conf op s = Some s'"
  shows "lock_ok s' \<and> total_votes s' = total_votes s + lock_minted op"
proof (cases op)
  case (OpUpdate v)
  then obtain b where "update conf v s = Some (s', b)" using assms(2) by auto
  from update_spec [OF this assms(1)] show ?thesis
    using assms(1) OpUpdate by (auto simp: lock_ok_def total_votes_def split: option.splits)
next
  case (OpNewLock v n init)
  then show ?thesis using assms new_lock_spec(1,2) by fastforce
next
  case (OpNewUnlock v n)
  then show ?thesis using assms new_unlock_keeps by fastforce
next
  case (OpForceRetire v)
  then show ?thesis using assms force_retire_keeps by fastforce
next
  case (OpForfeit v)
  then show ?thesis using assms forfeit_keeps by fastforce
qed

interpretation locks: ledger "lock_step conf" lock_ok "\<lambda>_. True" total_votes lock_minted for conf
  using lock_step_keeps by unfold_locales blast+

text \<open>The largest lock period of a configuration, and the state of a chain that has reached view \<open>V\<close>.\<close>

definition max_locked_views :: "pos_state_config \<Rightarrow> nat" where
  "max_locked_views conf = Max {c_in_queue_locked_views conf, c_out_queue_locked_views conf,
     c_cip99_in_queue_locked_views conf, c_cip99_out_queue_locked_views conf,
     c_cip136_in_queue_locked_views conf, c_cip136_out_queue_locked_views conf}"

lemma locked_views_le:
  "in_queue_locked_views conf v \<le> max_locked_views conf"
  "out_queue_locked_views conf v \<le> max_locked_views conf"
  "force_retired_locked_views conf v \<le> max_locked_views conf"
  by (simp_all add: in_queue_locked_views_def out_queue_locked_views_def force_retired_locked_views_def
      max_locked_views_def le_max_iff_disj)

definition lock_bounded :: "pos_state_config \<Rightarrow> view \<Rightarrow> node_lock_status \<Rightarrow> bool" where
  "lock_bounded conf V s \<longleftrightarrow> lock_ok s \<and>
     sl_views (ls_in_queue s) \<subseteq> {..V + max_locked_views conf} \<and>
     sl_views (ls_out_queue s) \<subseteq> {..U64_MAX} \<and>
     (case ls_force_retired s of None \<Rightarrow> True | Some r \<Rightarrow> r \<le> V)"

definition lock_op_safe :: "pos_state_config \<Rightarrow> view \<Rightarrow> lock_op \<Rightarrow> bool" where
  "lock_op_safe conf V op \<longleftrightarrow> lock_op_view op \<le> V \<and> V + 2 * max_locked_views conf \<le> U64_MAX"

lemma retired_bounded:
  assumes "retired L v t s uv s' uv'" and "sl_views (ls_in_queue s) \<subseteq> {..B}" and "v \<le> B"
    and "B + L \<le> U64_MAX" and "sl_views (ls_out_queue s) \<subseteq> {..U64_MAX}"
  shows "sl_views (ls_in_queue s') \<subseteq> {..B}" and "sl_views (ls_out_queue s') \<subseteq> {..U64_MAX}"
proof -
  show "sl_views (ls_in_queue s') \<subseteq> {..B}"
    using assms(1,2) by (auto simp: retired_def)
  obtain ds where "sl_views (ls_out_queue s') = sl_views (ls_out_queue s) \<union> set ds"
    "\<forall>d\<in>set ds. \<exists>x\<in>insert v (sl_views (ls_in_queue s)). d = x + L"
    using assms(1) by (auto simp: retired_def)
  then show "sl_views (ls_out_queue s') \<subseteq> {..U64_MAX}"
    using assms(2-5) by fastforce
qed

lemma lock_step_bounded:
  assumes "lock_bounded conf V s" and safe: "lock_op_safe conf V op" and step: "lock_step conf op s = Some s'"
  shows "lock_bounded conf V s'"
proof -
  let ?L = "max_locked_views conf"
  have b: "lock_ok s" "sl_views (ls_in_queue s) \<subseteq> {..V + ?L}" "sl_views (ls_out_queue s) \<subseteq> {..U64_MAX}"
    "\<And>r. ls_force_retired s = Some r \<Longrightarrow> r \<le> V"
    using assms(1) by (auto simp: lock_bounded_def)
  have V: "lock_op_view op \<le> V" "V + ?L + ?L \<le> U64_MAX"
    using safe by (auto simp: lock_op_safe_def)
  have ok: "lock_ok s'"
    using lock_step_keeps [OF b(1) step] by simp
  have ret: "sl_views (ls_in_queue t') \<subseteq> {..V + ?L} \<and> sl_views (ls_out_queue t') \<subseteq> {..U64_MAX} \<and>
      ls_force_retired t' = ls_force_retired t"
    if "new_unlock conf v n t uv = Some (t', uv')" "lock_ok t" "v \<le> V"
      "ls_in_queue t = ls_in_queue s" "ls_out_queue t = ls_out_queue s" for v n t uv t' uv'
  proof -
    note r = new_unlock_spec [OF that(1,2)]
    have "V + ?L + out_queue_locked_views conf v \<le> U64_MAX"
      using V(2) locked_views_le(2) [of conf v] by linarith
    then show ?thesis
      using retired_bounded [OF r, of "V + ?L"] b(2,3) that(3-5) r by (auto simp: retired_def)
  qed
  have "sl_views (ls_in_queue s') \<subseteq> {..V + ?L} \<and> sl_views (ls_out_queue s') \<subseteq> {..U64_MAX} \<and>
      (\<forall>r. ls_force_retired s' = Some r \<longrightarrow> r \<le> V)"
  proof (cases op)
    case (OpUpdate v)
    then obtain c where "update conf v s = Some (s', c)" using step by auto
    from update_spec [OF this b(1)] obtain "sl_items (ls_in_queue s') = slq.late (ls_in_queue s) v"
      "sl_items (ls_out_queue s') = slq.late (ls_out_queue s) v"
      "ls_force_retired s' = ls_force_retired s \<or> ls_force_retired s' = None" by auto
    then show ?thesis
      using b update_views_late by fastforce
  next
    case (OpNewLock v n init)
    then obtain uv where nl: "new_lock conf v n init s [] = Some (s', uv)" using step by auto
    have "v + in_queue_locked_views conf v \<le> V + ?L"
      using OpNewLock V(1) locked_views_le(1) [of conf v] by simp
    then show ?thesis
      using new_lock_spec(3,4,6) [OF nl b(1)] b(2-4) by auto
  next
    case (OpNewUnlock v n)
    then show ?thesis using step ret [of v n s "[]" s'] b V(1) by auto
  next
    case (OpForceRetire v)
    then obtain uv where "force_retire conf v s [] = Some (s', uv)" using step by auto
    then show ?thesis
    proof (cases rule: force_retire_cases)
      case 2
      have "lock_ok (s\<lparr>ls_force_retired := Some v\<rparr>)"
        using b(1) by (simp add: lock_ok_def split: option.splits)
      from ret [OF 2(3) this] show ?thesis
        using OpForceRetire V(1) by auto
    qed (use b in auto)
  next
    case (OpForfeit v)
    then obtain uv where "forfeit conf v s [] = Some (s', uv)" using step by auto
    from forfeit_keeps [OF this b(1)] show ?thesis
      using b(2-4) by auto
  qed
  with ok show ?thesis
    by (auto simp: lock_bounded_def split: option.split)
qed

lemma update_defined:
  assumes "lock_bounded conf V s" and "v \<le> V" and "V + 2 * max_locked_views conf \<le> U64_MAX"
    and "total_votes s \<le> U64_MAX"
  shows "\<exists>r. update conf v s = Some r"
proof -
  have ok: "sl_ok (ls_in_queue s)" "sl_ok (ls_out_queue s)"
    and fr: "\<And>r. ls_force_retired s = Some r \<Longrightarrow> r \<le> V"
    using assms(1) by (auto simp: lock_bounded_def lock_ok_def)
  have due: "sl_due (ls_in_queue s) v \<le> sl_votes (ls_in_queue s)"
    "sl_due (ls_out_queue s) v \<le> sl_votes (ls_out_queue s)"
    using slq.due_le_votes by (simp_all add: sl_due_eq sl_votes_eq)
  obtain s1 where s1: "update_in_queue v s = Some s1"
    using update_in_queue_defined [OF ok(1), of v] due assms(4) by (auto simp: total_votes_def)
  note 1 = update_in_queue_spec [OF s1 ok(1)]
  have "\<exists>r. update_out_queue v s1 False = Some r"
    using 1 due assms(4) ok(2) by (intro update_out_queue_defined) (auto simp: total_votes_def)
  then obtain s2 c where s2: "update_out_queue v s1 False = Some (s2, c)" by auto
  have "ls_force_retired s2 = ls_force_retired s"
    using update_out_queue_spec [OF s2] 1 ok(2) by auto
  moreover have "r + force_retired_locked_views conf v \<le> U64_MAX" if "r \<le> V" for r
    using that assms(3) locked_views_le(3) [of conf v] by linarith
  ultimately show ?thesis
    using s1 s2 fr by (cases "ls_force_retired s") (auto simp: update_def add64_ok)
qed

lemma lock_step_defined:
  assumes "lock_bounded conf V s" and "lock_op_safe conf V op"
    and "total_votes s + lock_minted op \<le> U64_MAX"
  shows "\<exists>s'. lock_step conf op s = Some s'"
proof -
  let ?L = "max_locked_views conf"
  have b: "lock_ok s" "sl_views (ls_in_queue s) \<subseteq> {..V + ?L}" "sl_views (ls_out_queue s) \<subseteq> {..U64_MAX}"
    using assms(1) by (auto simp: lock_bounded_def)
  have V: "lock_op_view op \<le> V" "V + 2 * ?L \<le> U64_MAX"
    using assms(2) by (auto simp: lock_op_safe_def)
  have unlock: "\<exists>t' uv'. new_unlock conf v n t uv = Some (t', uv')"
    if "lock_ok t" "v \<le> V" "ls_in_queue t = ls_in_queue s" for v n t uv
    using that(1)
  proof (rule new_unlock_defined)
    show "v + out_queue_locked_views conf v \<le> U64_MAX"
      using that(2) V(2) locked_views_le(2) [of conf v] by linarith
    show "\<forall>x\<in>sl_views (ls_in_queue t). x + out_queue_locked_views conf v \<le> U64_MAX"
      using that(3) b(2) V(2) locked_views_le(2) [of conf v] by fastforce
  qed
  have av: "ls_available_votes s = sl_votes (ls_in_queue s) + ls_locked s" "sl_ok (ls_out_queue s)"
    using b(1) by (auto simp: lock_ok_def)
  show ?thesis
  proof (cases op)
    case (OpUpdate v)
    then show ?thesis
      using update_defined [OF assms(1) _ V(2)] V(1) assms(3) by fastforce
  next
    case (OpNewLock v n init)
    have "v + in_queue_locked_views conf v + out_queue_locked_views conf v \<le> U64_MAX"
      using OpNewLock V locked_views_le(1,2) [of conf v] by simp
    then show ?thesis
      using OpNewLock assms(3) av(1)
      by (auto simp: new_lock_def add64_ok total_votes_def sl_push_pair split: prod.splits)
  next
    case (OpNewUnlock v n)
    then show ?thesis using unlock [of s v n "[]"] b(1) V(1) by auto
  next
    case (OpForceRetire v)
    have "lock_ok (s\<lparr>ls_force_retired := Some v\<rparr>)"
      using b(1) by (simp add: lock_ok_def split: option.splits)
    moreover have "v + force_retired_locked_views conf v \<le> U64_MAX"
      using OpForceRetire V locked_views_le(3) [of conf v] by simp
    ultimately show ?thesis
      using OpForceRetire V(1) unlock [of "s\<lparr>ls_force_retired := Some v\<rparr>" v]
      by (auto simp: force_retire_def add64_ok)
  next
    case (OpForfeit v)
    obtain q' where "forfeit_drain (ls_out_queue s) (ls_available_votes s) =
        Some (q', ls_available_votes s + sl_votes (ls_out_queue s))"
      using forfeit_drain_spec [OF av(2) b(3), of "ls_available_votes s"] assms(3) av(1) by (auto simp: total_votes_def)
    then show ?thesis
      using OpForfeit by (auto simp: forfeit_def sl_push_pair split: option.splits prod.splits)
  qed
qed

interpretation locks_total: total_ledger "lock_step conf" "lock_bounded conf V" "lock_op_safe conf V"
    total_votes lock_minted for conf V
proof unfold_locales
  fix s op s'
  assume "lock_bounded conf V s" "lock_op_safe conf V op" "lock_step conf op s = Some s'"
  then show "lock_bounded conf V s'" by (rule lock_step_bounded)
next
  fix s op s'
  assume "lock_bounded conf V s" "lock_op_safe conf V op" "lock_step conf op s = Some s'"
  then show "total_votes s' = total_votes s + lock_minted op"
    using lock_step_keeps [of s conf op s'] by (simp add: lock_bounded_def)
qed (rule lock_step_defined)

lemma lock_bounded_default: "lock_bounded conf V node_lock_status_default"
  using lock_ok_default(1) by (simp add: lock_bounded_def node_lock_status_default_def)

text \<open>A forfeited stake stays forfeited.\<close>

lemma lock_step_exempt:
  assumes "lock_ok s" and "ls_exempt_from_forfeit s = Some e" and "lock_step conf op s = Some s'"
  shows "ls_exempt_from_forfeit s' = Some e"
proof (cases op)
  case (OpUpdate v)
  then obtain b where "update conf v s = Some (s', b)" using assms(3) by auto
  then show ?thesis using update_spec [OF _ assms(1)] assms(2) by auto
next
  case (OpNewLock v n init)
  then show ?thesis using assms new_lock_spec(9) by fastforce
next
  case (OpNewUnlock v n)
  then obtain uv where "new_unlock conf v n s [] = Some (s', uv)" using assms(3) by auto
  then show ?thesis using new_unlock_spec [OF _ assms(1)] assms(2) by (auto simp: retired_def)
next
  case (OpForceRetire v)
  then obtain uv where "force_retire conf v s [] = Some (s', uv)" using assms(3) by auto
  then show ?thesis
  proof (cases rule: force_retire_cases)
    case 2
    have "lock_ok (s\<lparr>ls_force_retired := Some v\<rparr>)"
      using assms(1) by (simp add: lock_ok_def split: option.splits)
    from new_unlock_spec [OF 2(3) this] show ?thesis
      using assms(2) by (auto simp: retired_def)
  qed (use assms in auto)
next
  case (OpForfeit v)
  then show ?thesis using assms by (auto simp: forfeit_def)
qed

interpretation exempts: ledger "lock_step conf" "\<lambda>s. lock_ok s \<and> ls_exempt_from_forfeit s = Some e"
    "\<lambda>_. True" total_votes lock_minted for conf e
  using lock_step_keeps lock_step_exempt by unfold_locales blast+

text \<open>A run that exercises every operation, on the default configuration.\<close>

definition sample_ops :: "lock_op list" where
  "sample_ops = [OpNewLock 5 100 False, OpUpdate 10085, OpNewLock 10090 20 False, OpNewUnlock 10100 110,
     OpUpdate 20180, OpForceRetire 20200, OpNewLock 20210 7 False, OpForfeit 20220, OpUpdate 40000]"

text \<open>The loops by the outcome of their first step, for evaluation on concrete states.\<close>

lemma update_in_queue_eval:
  "sl_pop_by_view (ls_in_queue s) v = (q, None) \<Longrightarrow> update_in_queue v s = Some (s\<lparr>ls_in_queue := q\<rparr>)"
  "sl_pop_by_view (ls_in_queue s) v = (q, Some i) \<Longrightarrow> update_in_queue v s =
     do { l \<leftarrow> add64 (ls_locked s) (si_votes i); update_in_queue v (s\<lparr>ls_in_queue := q, ls_locked := l\<rparr>) }"
  by (simp_all add: update_in_queue.simps [of v s])

lemma update_out_queue_eval:
  "sl_pop_by_view (ls_out_queue s) v = (q, None) \<Longrightarrow> update_out_queue v s b = Some (s\<lparr>ls_out_queue := q\<rparr>, b)"
  "sl_pop_by_view (ls_out_queue s) v = (q, Some i) \<Longrightarrow> update_out_queue v s b =
     do { l \<leftarrow> add64 (ls_unlocked s) (si_votes i);
          update_out_queue v (s\<lparr>ls_out_queue := q, ls_unlocked := l\<rparr>) True }"
  by (simp_all add: update_out_queue.simps [of v s b])

lemma forfeit_drain_eval:
  "sl_pop_by_view q U64_MAX = (q', None) \<Longrightarrow> forfeit_drain q n = Some (q', n)"
  "sl_pop_by_view q U64_MAX = (q', Some i) \<Longrightarrow> forfeit_drain q n =
     do { t \<leftarrow> add64 n (si_votes i); forfeit_drain q' t }"
  by (simp_all add: forfeit_drain.simps [of q n])

lemma new_unlock_loop_eval:
  "new_unlock_loop conf v 0 s uv = Some (s, uv)"
  "sl_pull (ls_in_queue s) r = (q, None) \<Longrightarrow> 0 < r \<Longrightarrow>
     new_unlock_loop conf v r s uv = Some (s\<lparr>ls_in_queue := q\<rparr>, uv)"
  "sl_pull (ls_in_queue s) r = (q, Some i) \<Longrightarrow> 0 < r \<Longrightarrow> new_unlock_loop conf v r s uv =
     do { r' \<leftarrow> sub64 r (si_votes i);
          a \<leftarrow> sub64 (ls_available_votes s) (si_votes i);
          e \<leftarrow> add64 (si_view i) (out_queue_locked_views conf v);
          let (oq, uv') = sl_push (ls_out_queue s) e (si_votes i) uv;
          new_unlock_loop conf v r' (s\<lparr>ls_in_queue := q, ls_available_votes := a, ls_out_queue := oq\<rparr>) uv' }"
  by (simp_all add: new_unlock_loop.simps [of conf v r s uv] new_unlock_loop.simps [of conf v 0 s uv])

lemmas lock_code =
  node_lock_status_default_def status_list_default_def sl_push_def sl_pull_def sl_pop_by_view_def
  sl_sort_def sl_clear_def update_def new_lock_def new_unlock_def force_retire_def forfeit_def
  in_queue_locked_views_def out_queue_locked_views_def force_retired_locked_views_def
  dispute_locked_views_def default_config_def IN_QUEUE_LOCKED_VIEWS_def OUT_QUEUE_LOCKED_VIEWS_def
  add64_def sub64_def U64_MAX_def saturating_add64_def update_in_queue_eval update_out_queue_eval
  new_unlock_loop_eval forfeit_drain_eval

definition sample_final :: node_lock_status where
  "sample_final = \<lparr>ls_in_queue = status_list_default, ls_locked = 0,
     ls_out_queue = status_list_default\<lparr>sl_inner := [\<lparr>si_view = 40370, si_votes = 7\<rparr>]\<rparr>, ls_unlocked = 120,
     ls_available_votes = 0, ls_force_retired = None, ls_exempt_from_forfeit = Some 100\<rparr>"

lemma sample_run: "run_ops (lock_step default_config) sample_ops node_lock_status_default = Some sample_final"
  by (simp add: sample_ops_def sample_final_def lock_code)

section \<open>Properties\<close>

text \<open>
  C30. In every sequence of operations on a fresh lock status that returns, votes are neither
  created nor lost: the votes in the two queues, the locked and the unlocked ones add up to
  exactly the votes that \<^const>\<open>new_lock\<close> staked, \<open>available_votes\<close> is the number in
  \<open>in_queue\<close> plus the locked ones, and the votes exempt from forfeiture never exceed the
  unlocked ones, so that \<^const>\<open>forfeited\<close> does not underflow.
\<close>

theorem lock_votes_conserved:
  assumes "run_ops (lock_step conf) ops node_lock_status_default = Some s"
  shows "sl_votes (ls_in_queue s) + ls_locked s + sl_votes (ls_out_queue s) + ls_unlocked s
           = sum_list (map lock_minted ops) \<and>
         ls_available_votes s = sl_votes (ls_in_queue s) + ls_locked s \<and>
         (\<exists>f. forfeited s = Some f \<and> f + unlocked_votes s = ls_unlocked s)"
proof -
  have s: "lock_ok s" "total_votes s = sum_list (map lock_minted ops)"
    using locks.run_conserves [OF lock_ok_default(1) _ assms] lock_ok_default(2)
    by (auto simp: list_all_iff)
  then have "\<exists>f. forfeited s = Some f \<and> f + unlocked_votes s = ls_unlocked s"
    by (auto simp: lock_ok_def forfeited_def unlocked_votes_def sub64_def split: option.splits)
  then show ?thesis
    using s by (simp add: total_votes_def lock_ok_def)
qed

theorem lock_votes_conserved_witness:
  "run_ops (lock_step default_config) sample_ops node_lock_status_default = Some sample_final \<and>
   sl_votes (ls_in_queue sample_final) + ls_locked sample_final + sl_votes (ls_out_queue sample_final)
     + ls_unlocked sample_final = sum_list (map lock_minted sample_ops)"
  using sample_run lock_votes_conserved [OF sample_run] by blast

text \<open>
  C31. No operation on a lock status panics while the chain is within its bounds: for any
  sequence of operations at views up to \<open>V\<close>, in any order, if \<open>V\<close> plus two lock periods and
  the staked votes fit 64 bits, every operation returns.
\<close>

theorem lock_ops_never_panic:
  assumes "\<forall>op\<in>set ops. lock_op_view op \<le> V"
    and "V + 2 * max_locked_views conf \<le> U64_MAX"
    and "sum_list (map lock_minted ops) \<le> U64_MAX"
  shows "\<exists>s. run_ops (lock_step conf) ops node_lock_status_default = Some s"
proof -
  have "list_all (lock_op_safe conf V) ops"
    using assms(1,2) by (simp add: list_all_iff lock_op_safe_def)
  then show ?thesis
    using locks_total.run_defined [OF lock_bounded_default] assms(3) lock_ok_default(2) by simp
qed

theorem lock_ops_never_panic_witness:
  "\<exists>s. run_ops (lock_step default_config) sample_ops node_lock_status_default = Some s"
  by (rule lock_ops_never_panic [where V = 40000])
    (simp_all add: sample_ops_def max_locked_views_def default_config_def IN_QUEUE_LOCKED_VIEWS_def
      OUT_QUEUE_LOCKED_VIEWS_def U64_MAX_def)

text \<open>
  C32. \<^const>\<open>update\<close> at view \<open>v\<close> moves exactly the votes that are due: the items of
  \<open>in_queue\<close> with a view up to \<open>v\<close> become locked, those of \<open>out_queue\<close> become unlocked, the later
  items of both queues stay, the voting power does not change, and it reports new unlocked votes
  if and only if something was due and the stake was not forfeited.
\<close>

theorem update_releases_due:
  assumes "update conf v s = Some (s', b)" and "lock_ok s"
  shows "ls_locked s' = ls_locked s + sl_due (ls_in_queue s) v \<and>
    ls_unlocked s' = ls_unlocked s + sl_due (ls_out_queue s) v \<and>
    sl_items (ls_in_queue s') = {#i \<in># sl_items (ls_in_queue s). v < si_view i#} \<and>
    sl_items (ls_out_queue s') = {#i \<in># sl_items (ls_out_queue s). v < si_view i#} \<and>
    available_votes s' = available_votes s \<and>
    (b \<longleftrightarrow> ls_exempt_from_forfeit s = None \<and> (\<exists>i\<in>#sl_items (ls_out_queue s). si_view i \<le> v))"
  using update_spec [OF assms]
  by (auto simp: slq.late_def available_votes_def sl_views_eq)

definition sample_retired :: node_lock_status where
  "sample_retired = \<lparr>ls_in_queue = \<lparr>sl_inner = [\<lparr>si_view = 20170, si_votes = 10\<rparr>], sl_sorted = True\<rparr>,
     ls_locked = 0, ls_out_queue = \<lparr>sl_inner = [\<lparr>si_view = 30250, si_votes = 10\<rparr>,
       \<lparr>si_view = 20180, si_votes = 100\<rparr>], sl_sorted = False\<rparr>, ls_unlocked = 0,
     ls_available_votes = 10, ls_force_retired = None, ls_exempt_from_forfeit = None\<rparr>"

theorem update_releases_due_witness:
  "\<exists>s'. update default_config 20180 sample_retired = Some (s', True) \<and> ls_locked s' = 10 \<and> ls_unlocked s' = 100"
proof -
  have run: "\<exists>s'. update default_config 20180 sample_retired = Some (s', True)"
    by (simp add: sample_retired_def lock_code)
  have "lock_ok sample_retired"
    by (simp add: lock_ok_def sample_retired_def sl_ok_def sl_votes_def)
  with run show ?thesis
    using update_releases_due by (fastforce simp: sample_retired_def sl_due_def)
qed

text \<open>
  C33. Retiring stake is slow: \<^const>\<open>new_unlock\<close> at view \<open>v\<close> takes exactly the requested votes
  (or all available ones, if fewer) out of the voting power, and for every view \<open>w\<close> before
  \<open>v\<close> plus the exit delay the votes unlocked by \<open>w\<close> are what they would be without the
  retirement. Every view at which they do unlock is announced in \<open>update_views\<close>.
\<close>

theorem retiring_is_delayed:
  assumes "new_unlock conf v n s uv = Some (s', uv')" and "lock_ok s"
    and "\<forall>i\<in>set (sl_inner (ls_in_queue s)). v \<le> si_view i"
  shows "ls_available_votes s' = ls_available_votes s - min n (ls_available_votes s) \<and>
    sl_votes (ls_out_queue s') = sl_votes (ls_out_queue s) + min n (ls_available_votes s) \<and>
    ls_unlocked s' = ls_unlocked s \<and>
    (\<forall>w < v + out_queue_locked_views conf v. sl_due (ls_out_queue s') w = sl_due (ls_out_queue s) w) \<and>
    sl_views (ls_out_queue s') \<subseteq> sl_views (ls_out_queue s) \<union> set uv'"
proof -
  have "\<forall>x\<in>insert v (sl_views (ls_in_queue s)). v \<le> x"
    using assms(3) by (auto simp: sl_views_def)
  then have "\<forall>x\<in>insert v (sl_views (ls_in_queue s)). w < x + L" if "w < v + L" for w L
    using that by force
  then show ?thesis
    using new_unlock_spec [OF assms(1,2)] by (auto simp: retired_def)
qed

theorem retiring_is_delayed_witness:
  "\<exists>s' uv'. new_unlock default_config 20170 4 sample_retired [] = Some (s', uv') \<and>
     ls_available_votes s' = 6 \<and> sl_due (ls_out_queue s') 20200 = 100 \<and> sl_due (ls_out_queue s') 30250 = 114"
proof -
  let ?s = "sample_retired\<lparr>ls_in_queue := \<lparr>sl_inner = [\<lparr>si_view = 20170, si_votes = 6\<rparr>], sl_sorted = True\<rparr>,
     ls_available_votes := 6,
     ls_out_queue := \<lparr>sl_inner = [\<lparr>si_view = 30250, si_votes = 10\<rparr>, \<lparr>si_view = 20180, si_votes = 100\<rparr>,
       \<lparr>si_view = 30250, si_votes = 4\<rparr>], sl_sorted = False\<rparr>\<rparr>"
  have run: "new_unlock default_config 20170 4 sample_retired [] = Some (?s, [30250])"
    by (simp add: sample_retired_def lock_code)
  have "lock_ok sample_retired"
    by (simp add: lock_ok_def sample_retired_def sl_ok_def sl_votes_def)
  then have "ls_available_votes ?s = 6 \<and> sl_due (ls_out_queue ?s) 20200 = 100"
    using retiring_is_delayed [OF run] by (simp add: sample_retired_def sl_due_def)
  moreover have "sl_due (ls_out_queue ?s) 30250 = 114"
    by (simp add: sl_due_def)
  ultimately show ?thesis
    using run by blast
qed

text \<open>
  C34. A forfeited stake stays forfeited (the rule before CIP-156): once
  \<open>exempt_from_forfeit\<close> is set, no sequence of operations gives the node voting power or lets
  it withdraw more than the votes that were unlocked when it was set.
\<close>

theorem forfeited_forever:
  assumes "forfeit conf v s uv = Some (s0, uv')" and "dispute_locked_views conf v = None"
    and "ls_exempt_from_forfeit s = None" and "lock_ok s"
    and "run_ops (lock_step conf') ops s0 = Some s'"
  shows "available_votes s' = 0 \<and> unlocked_votes s' = ls_unlocked s"
proof -
  have "lock_ok s0" "ls_exempt_from_forfeit s0 = Some (ls_unlocked s)"
    using assms(1-4) forfeit_keeps [OF assms(1,4)] by (auto simp: forfeit_def)
  then show ?thesis
    using exempts.run_conserves [of s0 "ls_unlocked s", OF _ _ assms(5)]
    by (simp add: list_all_iff available_votes_def unlocked_votes_def)
qed

theorem forfeited_forever_witness:
  "\<exists>s0 uv' s'. forfeit default_config 20200 sample_retired [] = Some (s0, uv') \<and>
     run_ops (lock_step default_config) [OpUpdate 40000, OpNewLock 40001 5 False] s0 = Some s' \<and>
     ls_unlocked s' = 110 \<and> available_votes s' = 0 \<and> unlocked_votes s' = 0"
proof -
  let ?s0 = "sample_retired\<lparr>ls_exempt_from_forfeit := Some 0\<rparr>"
  let ?s1 = "\<lparr>ls_in_queue = \<lparr>sl_inner = [\<lparr>si_view = 50081, si_votes = 5\<rparr>], sl_sorted = True\<rparr>,
     ls_locked = 10, ls_out_queue = status_list_default, ls_unlocked = 110,
     ls_available_votes = 15, ls_force_retired = None, ls_exempt_from_forfeit = Some 0\<rparr>"
  have f: "forfeit default_config 20200 sample_retired [] = Some (?s0, [])"
    by (simp add: sample_retired_def lock_code)
  have r: "run_ops (lock_step default_config) [OpUpdate 40000, OpNewLock 40001 5 False] ?s0 = Some ?s1"
    by (simp add: sample_retired_def lock_code)
  have "lock_ok sample_retired" "dispute_locked_views default_config 20200 = None"
    "ls_exempt_from_forfeit sample_retired = None" "ls_unlocked sample_retired = 0"
    by (simp_all add: lock_ok_def sample_retired_def sl_ok_def sl_votes_def dispute_locked_views_def
        default_config_def U64_MAX_def)
  with f r show ?thesis
    using forfeited_forever [OF f _ _ _ r] by fastforce
qed

text \<open>
  The dispute rule of CIP-156: if the node has available votes, all of its votes that are not
  yet unlocked (staked, locked or already retiring) are locked in one item that leaves at
  \<open>v\<close> plus the dispute period, its voting power is zero and nothing is unlocked by the dispute.
  A node whose votes are all in \<open>out_queue\<close> already is left unchanged.
\<close>

theorem dispute_locks_stake:
  assumes "lock_ok s" and "total_votes s \<le> U64_MAX" and "\<forall>w\<in>sl_views (ls_out_queue s). w \<le> U64_MAX"
    and "ls_exempt_from_forfeit s = None" and "dispute_locked_views conf v = Some d"
  shows "if ls_available_votes s = 0 then forfeit conf v s uv = Some (s, uv)
    else \<exists>s' uv'. forfeit conf v s uv = Some (s', uv') \<and> available_votes s' = 0 \<and>
      ls_locked s' = 0 \<and> sl_inner (ls_in_queue s') = [] \<and> ls_unlocked s' = ls_unlocked s \<and>
      sl_inner (ls_out_queue s') = [\<lparr>si_view = min (v + d) U64_MAX,
         si_votes = total_votes s - ls_unlocked s\<rparr>] \<and> min (v + d) U64_MAX \<in> set uv'"
proof (cases "ls_available_votes s = 0")
  case True
  then show ?thesis using assms(4,5) by (simp add: forfeit_def)
next
  case False
  have ok: "sl_ok (ls_out_queue s)" "ls_available_votes s = sl_votes (ls_in_queue s) + ls_locked s"
    using assms(1) by (auto simp: lock_ok_def)
  obtain q where q: "forfeit_drain (ls_out_queue s) (ls_available_votes s) =
      Some (q, ls_available_votes s + sl_votes (ls_out_queue s))" "sl_items q = {#}"
    using forfeit_drain_spec [OF ok(1), of "ls_available_votes s"] assms(2,3) ok(2)
    by (auto simp: total_votes_def)
  have "total_votes s - ls_unlocked s = ls_available_votes s + sl_votes (ls_out_queue s)"
    using ok(2) by (simp add: total_votes_def)
  then show ?thesis
    using False assms(4,5) q
    by (auto simp: forfeit_def sl_push_def Let_def sl_clear_def available_votes_def sl_items_def
        saturating_add64_def)
qed

theorem dispute_locks_stake_witness:
  "\<exists>s' uv'. forfeit (default_config\<lparr>c_cip156_transition_view := 0, c_cip156_dispute_locked_views := 500\<rparr>)
       20170 sample_retired [] = Some (s', uv') \<and> available_votes s' = 0 \<and>
     sl_inner (ls_out_queue s') = [\<lparr>si_view = 20670, si_votes = 120\<rparr>]"
proof -
  let ?c = "default_config\<lparr>c_cip156_transition_view := 0, c_cip156_dispute_locked_views := 500\<rparr>"
  have "lock_ok sample_retired" "dispute_locked_views ?c 20170 = Some 500"
    "ls_exempt_from_forfeit sample_retired = None" "total_votes sample_retired = 120"
    "ls_available_votes sample_retired = 10" "ls_unlocked sample_retired = 0"
    "\<forall>w\<in>sl_views (ls_out_queue sample_retired). w \<le> U64_MAX" "min (20170 + 500) U64_MAX = 20670"
    "(120::nat) \<le> U64_MAX"
    by (simp_all add: lock_ok_def sample_retired_def sl_ok_def sl_votes_def dispute_locked_views_def
        total_votes_def sl_views_def U64_MAX_def)
  then show ?thesis
    using dispute_locks_stake [of sample_retired ?c 20170 500 "[]"] by auto
qed

end
