(* ===== verification/Validator.thy ===== *)
theory Validator
  imports Prelude
begin

text \<open>
  The validator set of an epoch (\<^verbatim>\<open>validator_verifier.rs\<close>, \<^verbatim>\<open>epoch_state.rs\<close>): voting powers,
  the quorum of two thirds plus one, and the verification of sets of signatures. Signatures and
  VRF proofs come from external libraries and are arguments: \<open>vsig pk m sig\<close> is the verification
  of a BLS signature on the serialized message \<open>m\<close>, \<open>vvrf pk seed proof\<close> that of a VRF proof.
  Account addresses are 32-byte strings, here numbers (their order is the same).
\<close>

type_synonym address = nat
type_synonym public_key = nat
type_synonym vrf_public_key = nat
type_synonym signature = nat
type_synonym vrf_proof = nat
type_synonym bytes = "nat list"
type_synonym hash = nat

datatype verify_error =
  UnknownAuthor
| TooLittleVotingPower nat nat
| TooManySignatures nat nat
| InvalidSignature
| InvalidVrfProof

record validator_consensus_info =
  vi_public_key :: public_key
  vi_vrf_public_key :: "vrf_public_key option"
  vi_voting_power :: nat

record validator_verifier =
  vv_address_to_validator_info :: "(address, validator_consensus_info) btree"
  vv_quorum_voting_power :: nat
  vv_total_voting_power :: nat

text \<open>\<^verbatim>\<open>sum_voting_power\<close>: the fold with \<^verbatim>\<open>checked_add(..).expect(..)\<close>.\<close>

fun sum_voting_power_from :: "nat \<Rightarrow> (address, validator_consensus_info) btree \<Rightarrow> nat option" where
  "sum_voting_power_from acc [] = Some acc"
| "sum_voting_power_from acc ((a, info) # m) =
     do { acc' \<leftarrow> add64 acc (vi_voting_power info); sum_voting_power_from acc' m }"

definition sum_voting_power :: "(address, validator_consensus_info) btree \<Rightarrow> nat option" where
  "sum_voting_power m = sum_voting_power_from 0 m"

definition validator_verifier_new ::
  "(address, validator_consensus_info) btree \<Rightarrow> validator_verifier option" where
  "validator_verifier_new m =
     do { total_voting_power \<leftarrow> sum_voting_power m;
          quorum_voting_power \<leftarrow>
            (if m = [] then Some 0
             else do { d \<leftarrow> mul64 total_voting_power 2; add64 (d div 3) 1 });
          Some \<lparr>vv_address_to_validator_info = m, vv_quorum_voting_power = quorum_voting_power,
                vv_total_voting_power = total_voting_power\<rparr> }"

definition validator_verifier_new_single ::
  "address \<Rightarrow> public_key \<Rightarrow> vrf_public_key option \<Rightarrow> validator_verifier option" where
  "validator_verifier_new_single author pk vrf =
     validator_verifier_new (bt_insert author
       \<lparr>vi_public_key = pk, vi_vrf_public_key = vrf, vi_voting_power = 1\<rparr> [])"

definition get_public_key :: "validator_verifier \<Rightarrow> address \<Rightarrow> public_key option" where
  "get_public_key self author =
     map_option vi_public_key (map_of (vv_address_to_validator_info self) author)"

definition get_vrf_public_key :: "validator_verifier \<Rightarrow> address \<Rightarrow> vrf_public_key option option" where
  "get_vrf_public_key self author =
     map_option vi_vrf_public_key (map_of (vv_address_to_validator_info self) author)"

definition get_voting_power :: "validator_verifier \<Rightarrow> address \<Rightarrow> nat option" where
  "get_voting_power self author =
     map_option vi_voting_power (map_of (vv_address_to_validator_info self) author)"

definition get_ordered_account_addresses :: "validator_verifier \<Rightarrow> address list" where
  "get_ordered_account_addresses self = map fst (vv_address_to_validator_info self)"

definition vv_len :: "validator_verifier \<Rightarrow> nat" where
  "vv_len self = length (vv_address_to_validator_info self)"

definition vv_verify ::
  "(public_key \<Rightarrow> 'm \<Rightarrow> signature \<Rightarrow> bool) \<Rightarrow> validator_verifier \<Rightarrow> address \<Rightarrow> 'm \<Rightarrow> signature \<Rightarrow>
     verify_error + unit" where
  "vv_verify vsig self author message signature =
     (case get_public_key self author of
        Some public_key \<Rightarrow>
          if \<not> vsig public_key message signature then Inl InvalidSignature else Inr ()
      | None \<Rightarrow> Inl UnknownAuthor)"

definition verify_vrf ::
  "(vrf_public_key \<Rightarrow> bytes \<Rightarrow> vrf_proof \<Rightarrow> bool) \<Rightarrow> validator_verifier \<Rightarrow> address \<Rightarrow> bytes \<Rightarrow> vrf_proof \<Rightarrow>
     verify_error + unit" where
  "verify_vrf vvrf self author seed proof' =
     (case get_vrf_public_key self author of
        Some (Some public_key) \<Rightarrow>
          if \<not> vvrf public_key seed proof' then Inl InvalidVrfProof else Inr ()
      | _ \<Rightarrow> Inl UnknownAuthor)"

definition check_num_of_signatures ::
  "validator_verifier \<Rightarrow> (address, signature) btree \<Rightarrow> verify_error + unit" where
  "check_num_of_signatures self aggregated_signature =
     (let num_of_signatures = length aggregated_signature in
      if vv_len self < num_of_signatures
      then Inl (TooManySignatures num_of_signatures (vv_len self)) else Inr ())"

text \<open>The loop of \<^verbatim>\<open>check_voting_power\<close>; the additions are checked.\<close>

fun aggregate_voting_power ::
  "validator_verifier \<Rightarrow> nat \<Rightarrow> address list \<Rightarrow> (verify_error + nat) option" where
  "aggregate_voting_power self acc [] = Some (Inr acc)"
| "aggregate_voting_power self acc (a # authors) =
     (case get_voting_power self a of
        Some voting_power \<Rightarrow>
          do { acc' \<leftarrow> add64 acc voting_power; aggregate_voting_power self acc' authors }
      | None \<Rightarrow> Some (Inl UnknownAuthor))"

definition check_voting_power ::
  "validator_verifier \<Rightarrow> address list \<Rightarrow> (verify_error + unit) option" where
  "check_voting_power self authors =
     try_opt (aggregate_voting_power self 0 authors) (\<lambda>aggregated_voting_power.
       if aggregated_voting_power < vv_quorum_voting_power self
       then Some (Inl (TooLittleVotingPower aggregated_voting_power (vv_quorum_voting_power self)))
       else Some (Inr ()))"

fun verify_each ::
  "(public_key \<Rightarrow> 'm \<Rightarrow> signature \<Rightarrow> bool) \<Rightarrow> validator_verifier \<Rightarrow> 'm \<Rightarrow> (address, signature) btree \<Rightarrow>
     verify_error + unit" where
  "verify_each vsig self message [] = Inr ()"
| "verify_each vsig self message ((author, signature) # m) =
     try_res (vv_verify vsig self author message signature) (\<lambda>_. verify_each vsig self message m)"

definition verify_aggregated_struct_signature ::
  "(public_key \<Rightarrow> 'm \<Rightarrow> signature \<Rightarrow> bool) \<Rightarrow> validator_verifier \<Rightarrow> 'm \<Rightarrow> (address, signature) btree \<Rightarrow>
     (verify_error + unit) option" where
  "verify_aggregated_struct_signature vsig self message aggregated_signature =
     try_opt (Some (check_num_of_signatures self aggregated_signature)) (\<lambda>_.
     try_opt (check_voting_power self (map fst aggregated_signature)) (\<lambda>_.
       Some (verify_each vsig self message aggregated_signature)))"

text \<open>The default \<^verbatim>\<open>Signature::batch_verify\<close>, which BLS signatures do not override.\<close>

fun batch_verify ::
  "(public_key \<Rightarrow> 'm \<Rightarrow> signature \<Rightarrow> bool) \<Rightarrow> 'm \<Rightarrow> (public_key \<times> signature) list \<Rightarrow> bool" where
  "batch_verify vsig message [] = True"
| "batch_verify vsig message ((key, signature) # rest) =
     (if vsig key message signature then batch_verify vsig message rest else False)"

definition batch_verify_aggregated_signatures ::
  "(public_key \<Rightarrow> 'm \<Rightarrow> signature \<Rightarrow> bool) \<Rightarrow> validator_verifier \<Rightarrow> 'm \<Rightarrow> (address, signature) btree \<Rightarrow>
     (verify_error + unit) option" where
  "batch_verify_aggregated_signatures vsig self message aggregated_signature =
     try_opt (Some (check_num_of_signatures self aggregated_signature)) (\<lambda>_.
     try_opt (check_voting_power self (map fst aggregated_signature)) (\<lambda>_.
       let keys_and_signatures = List.map_filter (\<lambda>(address, signature).
             map_option (\<lambda>pub_key. (pub_key, signature)) (get_public_key self address)) aggregated_signature
       in if \<not> batch_verify vsig message keys_and_signatures
          then verify_aggregated_struct_signature vsig self message aggregated_signature
          else Some (Inr ())))"

text \<open>\<open>None\<close>: panic; \<open>Inl\<close>: the two errors of \<^verbatim>\<open>extra_vote_count\<close>.\<close>

fun extra_vote_count_loop :: "validator_verifier \<Rightarrow> nat \<Rightarrow> address list \<Rightarrow> (string + nat) option" where
  "extra_vote_count_loop self total_count [] = Some (Inr total_count)"
| "extra_vote_count_loop self total_count (signer # signers) =
     (case get_voting_power self signer of
        None \<Rightarrow> Some (Inl ''Signer is not a validator'')
      | Some p \<Rightarrow> do { t \<leftarrow> add64 total_count p; extra_vote_count_loop self t signers })"

definition extra_vote_count :: "validator_verifier \<Rightarrow> address list \<Rightarrow> (string + nat) option" where
  "extra_vote_count self signers =
     try_opt (extra_vote_count_loop self 0 signers) (\<lambda>total_count.
       Some (ok_or (sub64 total_count (vv_quorum_voting_power self))
         ''counted voting power overflows total power''))"

text \<open>The conversion from the on-chain validator set.\<close>

record validator_info =
  va_account_address :: address
  va_consensus_public_key :: public_key
  va_vrf_public_key :: "vrf_public_key option"
  va_consensus_voting_power :: nat

definition validator_verifier_from_set :: "validator_info list \<Rightarrow> validator_verifier option" where
  "validator_verifier_from_set payload =
     validator_verifier_new (fold (\<lambda>validator map. bt_insert (va_account_address validator)
       \<lparr>vi_public_key = va_consensus_public_key validator,
         vi_vrf_public_key = va_vrf_public_key validator,
         vi_voting_power = va_consensus_voting_power validator\<rparr> map) payload [])"

section \<open>The epoch state\<close>

record epoch_state =
  es_epoch :: nat
  es_verifier :: validator_verifier
  es_vrf_seed :: bytes

definition epoch_state_empty :: "epoch_state option" where
  "epoch_state_empty =
     do { v \<leftarrow> validator_verifier_new []; Some \<lparr>es_epoch = 0, es_verifier = v, es_vrf_seed = []\<rparr> }"

text \<open>\<^verbatim>\<open>HARDCODED_COMMITTEE_FOR_EPOCH\<close> is the argument \<open>hardcoded\<close>.\<close>

definition verifier :: "(nat \<rightharpoonup> validator_verifier) \<Rightarrow> epoch_state \<Rightarrow> validator_verifier" where
  "verifier hardcoded self =
     (case hardcoded (es_epoch self) of Some v \<Rightarrow> v | None \<Rightarrow> es_verifier self)"

section \<open>Voting power\<close>

definition power_of :: "validator_verifier \<Rightarrow> address \<Rightarrow> nat" where
  "power_of vv a = (case get_voting_power vv a of None \<Rightarrow> 0 | Some p \<Rightarrow> p)"

definition validators :: "validator_verifier \<Rightarrow> address set" where
  "validators vv = fst ` set (vv_address_to_validator_info vv)"

text \<open>What \<^verbatim>\<open>ValidatorVerifier::new\<close> establishes.\<close>

definition verifier_ok :: "validator_verifier \<Rightarrow> bool" where
  "verifier_ok vv \<longleftrightarrow> bt_ok (vv_address_to_validator_info vv) \<and>
     vv_total_voting_power vv = sum_list (map (vi_voting_power \<circ> snd) (vv_address_to_validator_info vv)) \<and>
     vv_total_voting_power vv * 2 \<le> U64_MAX \<and>
     vv_quorum_voting_power vv =
       (if vv_address_to_validator_info vv = [] then 0 else vv_total_voting_power vv * 2 div 3 + 1)"

lemma sum_voting_power_from_eq:
  "sum_voting_power_from acc m =
     (let t = acc + sum_list (map (vi_voting_power \<circ> snd) m) in if t \<le> U64_MAX \<or> m = [] then Some t else None)"
  by (induction acc m rule: sum_voting_power_from.induct) (auto simp: Let_def add64_def)

lemma validator_verifier_new_ok:
  assumes "validator_verifier_new m = Some vv" and "bt_ok m"
  shows "verifier_ok vv" and "vv_address_to_validator_info vv = m"
proof -
  let ?t = "sum_list (map (vi_voting_power \<circ> snd) m)"
  have "sum_voting_power m = (if ?t \<le> U64_MAX then Some ?t else None)"
    by (cases "m = []") (auto simp: sum_voting_power_def sum_voting_power_from_eq Let_def)
  with assms show "verifier_ok vv" and "vv_address_to_validator_info vv = m"
    by (auto simp: validator_verifier_new_def verifier_ok_def option_bind_simps u64_simps split: if_splits)
qed

lemma finite_validators [simp]: "finite (validators vv)"
  by (simp add: validators_def)

lemma get_voting_power_None: "get_voting_power vv a = None \<longleftrightarrow> a \<notin> validators vv"
  by (simp add: get_voting_power_def validators_def map_of_eq_None_iff)

lemma get_voting_power_known: "a \<in> validators vv \<Longrightarrow> get_voting_power vv a = Some (power_of vv a)"
  using get_voting_power_None [of vv a] by (cases "get_voting_power vv a") (auto simp: power_of_def)

lemma get_public_key_known: "a \<in> validators vv \<longleftrightarrow> (\<exists>pk. get_public_key vv a = Some pk)"
  using map_of_eq_None_iff [of "vv_address_to_validator_info vv" a]
  by (auto simp: get_public_key_def validators_def)

lemma total_voting_power_eq:
  assumes "verifier_ok vv"
  shows "vv_total_voting_power vv = sum (power_of vv) (validators vv)"
proof -
  let ?m = "vv_address_to_validator_info vv"
  have d: "distinct (map fst ?m)"
    using assms by (simp add: verifier_ok_def bt_ok_distinct)
  have "\<forall>e\<in>set ?m. power_of vv (fst e) = vi_voting_power (snd e)"
    using d by (auto simp: power_of_def get_voting_power_def)
  then have "map (power_of vv) (map fst ?m) = map (vi_voting_power \<circ> snd) ?m"
    by simp
  then have "sum_list (map (power_of vv) (map fst ?m)) = vv_total_voting_power vv"
    using assms unfolding verifier_ok_def by metis
  then show ?thesis
    using sum_list_distinct_conv_sum_set [OF d, of "power_of vv"] by (simp add: validators_def)
qed

lemma power_le_total:
  assumes "verifier_ok vv" and "distinct authors" and "set authors \<subseteq> validators vv"
  shows "sum_list (map (power_of vv) authors) \<le> vv_total_voting_power vv"
  using assms by (simp add: total_voting_power_eq sum_list_distinct_conv_sum_set sum_mono2)

lemma total_le_max: "verifier_ok vv \<Longrightarrow> vv_total_voting_power vv \<le> U64_MAX"
  by (simp add: verifier_ok_def)

lemma aggregate_voting_power_known:
  assumes "set authors \<subseteq> validators vv" and "acc + sum_list (map (power_of vv) authors) \<le> U64_MAX"
  shows "aggregate_voting_power vv acc authors = Some (Inr (acc + sum_list (map (power_of vv) authors)))"
  using assms
  by (induction vv acc authors rule: aggregate_voting_power.induct)
    (auto simp: get_voting_power_known add64_ok add.assoc)

lemma aggregate_voting_power_unknown:
  assumes "acc + sum_list (map (power_of vv) authors) \<le> U64_MAX" and "\<not> set authors \<subseteq> validators vv"
  shows "aggregate_voting_power vv acc authors = Some (Inl UnknownAuthor)"
  using assms
proof (induction vv acc authors rule: aggregate_voting_power.induct)
  case (2 vv acc a authors)
  show ?case
  proof (cases "a \<in> validators vv")
    case True
    have "add64 acc (power_of vv a) = Some (acc + power_of vv a)"
      using "2.prems"(1) by (simp add: add64_ok)
    then show ?thesis
      using 2 True by (simp add: get_voting_power_known add.assoc)
  next
    case False
    then show ?thesis by (simp flip: get_voting_power_None)
  qed
qed simp

lemma power_of_unknown: "a \<notin> validators vv \<Longrightarrow> power_of vv a = 0"
  by (simp add: power_of_def flip: get_voting_power_None)

lemma sum_power_known_part:
  "sum_list (map (power_of vv) authors) = sum_list (map (power_of vv) (filter (\<lambda>a. a \<in> validators vv) authors))"
  by (induction authors) (simp_all add: power_of_unknown)

lemma power_le_total':
  assumes "verifier_ok vv" and "distinct authors"
  shows "sum_list (map (power_of vv) authors) \<le> vv_total_voting_power vv"
  using assms power_le_total [of vv "filter (\<lambda>a. a \<in> validators vv) authors"]
  by (subst sum_power_known_part) auto

lemma aggregate_voting_power_eq:
  assumes "verifier_ok vv" and "distinct authors"
  shows "aggregate_voting_power vv 0 authors =
    Some (if set authors \<subseteq> validators vv then Inr (sum_list (map (power_of vv) authors)) else Inl UnknownAuthor)"
proof -
  have "0 + sum_list (map (power_of vv) authors) \<le> U64_MAX"
    using power_le_total' [OF assms] total_le_max [OF assms(1)] by simp
  then show ?thesis
    using aggregate_voting_power_known [of authors vv 0] aggregate_voting_power_unknown [of 0 vv authors] by simp
qed

lemma check_voting_power_eq:
  assumes "verifier_ok vv" and "distinct authors"
  shows "check_voting_power vv authors = Some
    (if \<not> set authors \<subseteq> validators vv then Inl UnknownAuthor
     else if sum_list (map (power_of vv) authors) < vv_quorum_voting_power vv
     then Inl (TooLittleVotingPower (sum_list (map (power_of vv) authors)) (vv_quorum_voting_power vv))
     else Inr ())"
  by (simp add: check_voting_power_def aggregate_voting_power_eq [OF assms])

lemma verify_each_ok_iff:
  "verify_each vsig vv msg m = Inr () \<longleftrightarrow>
     (\<forall>(a, sig)\<in>set m. \<exists>pk. get_public_key vv a = Some pk \<and> vsig pk msg sig)"
  by (induction vsig vv msg m rule: verify_each.induct)
    (auto simp: result_simps vv_verify_def split: option.splits if_splits)

lemma batch_verify_all: "batch_verify vsig msg ks \<longleftrightarrow> (\<forall>(k, sig)\<in>set ks. vsig k msg sig)"
  by (induction vsig msg ks rule: batch_verify.induct) auto

lemma batch_verify_keys:
  assumes "\<forall>e\<in>set m. fst e \<in> validators vv"
  shows "batch_verify vsig msg (List.map_filter (\<lambda>(a, sig). map_option (\<lambda>pk. (pk, sig)) (get_public_key vv a)) m)
    \<longleftrightarrow> verify_each vsig vv msg m = Inr ()"
  unfolding batch_verify_all verify_each_ok_iff
  using assms by (fastforce simp: List.map_filter_def get_public_key_known split: option.splits)

lemma check_num_of_signatures_known:
  assumes "distinct (map fst sigs)" and "fst ` set sigs \<subseteq> validators vv"
  shows "check_num_of_signatures vv sigs = Inr ()"
proof -
  have "length sigs = card (fst ` set sigs)"
    using distinct_card [OF assms(1)] by simp
  also have "\<dots> \<le> card (validators vv)"
    using assms(2) by (simp add: card_mono)
  also have "\<dots> \<le> vv_len vv"
    using card_length [of "map fst (vv_address_to_validator_info vv)"] by (simp add: validators_def vv_len_def)
  finally show ?thesis
    by (simp add: check_num_of_signatures_def Let_def)
qed

text \<open>A verified set of signatures is one of validators that reach the quorum.\<close>

lemma verify_aggregated_iff:
  assumes "verifier_ok vv" and "bt_ok sigs"
  shows "verify_aggregated_struct_signature vsig vv msg sigs = Some (Inr ()) \<longleftrightarrow>
    verify_each vsig vv msg sigs = Inr () \<and> vv_quorum_voting_power vv \<le> sum (power_of vv) (fst ` set sigs)"
proof -
  have d: "distinct (map fst sigs)"
    using assms(2) by (rule bt_ok_distinct)
  have sum: "sum_list (map (power_of vv) (map fst sigs)) = sum (power_of vv) (fst ` set sigs)"
    using sum_list_distinct_conv_sum_set [OF d, of "power_of vv"] by simp
  have known: "verify_each vsig vv msg sigs = Inr () \<Longrightarrow> fst ` set sigs \<subseteq> validators vv"
    by (auto simp: verify_each_ok_iff get_public_key_known)
  show ?thesis
  proof (cases "fst ` set sigs \<subseteq> validators vv")
    case True
    then show ?thesis
      using check_num_of_signatures_known [OF d True] check_voting_power_eq [OF assms(1) d] sum
      by (auto simp: verify_aggregated_struct_signature_def)
  next
    case False
    then have "check_voting_power vv (map fst sigs) = Some (Inl UnknownAuthor)"
      using check_voting_power_eq [OF assms(1) d] by simp
    then show ?thesis
      using known False by (auto simp: verify_aggregated_struct_signature_def result_simps)
  qed
qed

lemma batch_verify_aggregated_eq:
  assumes "verifier_ok vv" and "bt_ok sigs"
  shows "batch_verify_aggregated_signatures vsig vv msg sigs = verify_aggregated_struct_signature vsig vv msg sigs"
    and "verify_aggregated_struct_signature vsig vv msg sigs \<noteq> None"
proof -
  have d: "distinct (map fst sigs)"
    using assms(2) by (rule bt_ok_distinct)
  obtain r where r: "check_voting_power vv (map fst sigs) = Some r"
    and known: "r = Inr () \<Longrightarrow> \<forall>e\<in>set sigs. fst e \<in> validators vv"
    using check_voting_power_eq [OF assms(1) d] by (auto split: if_splits)
  show "verify_aggregated_struct_signature vsig vv msg sigs \<noteq> None"
    using r by (auto simp: verify_aggregated_struct_signature_def try_opt_def split: sum.splits)
  show "batch_verify_aggregated_signatures vsig vv msg sigs = verify_aggregated_struct_signature vsig vv msg sigs"
  proof (cases "check_num_of_signatures vv sigs = Inr () \<and> r = Inr ()")
    case True
    then show ?thesis
      using r batch_verify_keys [OF known, of vsig msg]
      by (auto simp: batch_verify_aggregated_signatures_def verify_aggregated_struct_signature_def Let_def)
  next
    case False
    then show ?thesis
      using r by (auto simp: batch_verify_aggregated_signatures_def verify_aggregated_struct_signature_def
          try_opt_def split: sum.splits)
  qed
qed

section \<open>Quorums\<close>

text \<open>
  The contract of a quorum system with weights: a quorum consists of members and weighs more than
  two thirds of all of them. Two quorums share more than one third, so they share a correct member
  whenever the faulty ones weigh at most a third.
\<close>

locale quorum_system =
  fixes members :: "'n set"
    and weight :: "'n \<Rightarrow> nat"
    and quorum :: "'n set \<Rightarrow> bool"
  assumes finite_members: "finite members"
    and quorum_members: "quorum Q \<Longrightarrow> Q \<subseteq> members"
    and quorum_weight: "quorum Q \<Longrightarrow> 2 * sum weight members < 3 * sum weight Q"
begin

lemma intersection_weight:
  assumes "quorum Q" and "quorum R"
  shows "sum weight members < 3 * sum weight (Q \<inter> R)"
proof -
  have fin: "finite Q" "finite R"
    using assms quorum_members finite_members finite_subset by blast+
  have "sum weight (Q \<union> R) + sum weight (Q \<inter> R) = sum weight Q + sum weight R"
    using fin by (rule sum.union_inter)
  moreover have "sum weight (Q \<union> R) \<le> sum weight members"
    using assms quorum_members finite_members by (intro sum_mono2) auto
  ultimately show ?thesis
    using quorum_weight [OF assms(1)] quorum_weight [OF assms(2)] by linarith
qed

lemma correct_intersection:
  assumes "quorum Q" and "quorum R" and "3 * sum weight (members \<inter> faulty) \<le> sum weight members"
  shows "\<exists>n\<in>Q \<inter> R. n \<notin> faulty"
proof (rule ccontr)
  assume "\<not> (\<exists>n\<in>Q \<inter> R. n \<notin> faulty)"
  then have "Q \<inter> R \<subseteq> members \<inter> faulty"
    using quorum_members [OF assms(1)] by auto
  then have "sum weight (Q \<inter> R) \<le> sum weight (members \<inter> faulty)"
    using finite_members by (intro sum_mono2) auto
  then show False
    using intersection_weight [OF assms(1,2)] assms(3) by linarith
qed

end

text \<open>A set of authors is a quorum when \<^verbatim>\<open>check_voting_power\<close> accepts it.\<close>

definition is_quorum :: "validator_verifier \<Rightarrow> address set \<Rightarrow> bool" where
  "is_quorum vv Q \<longleftrightarrow> verifier_ok vv \<and> validators vv \<noteq> {} \<and> finite Q \<and>
     check_voting_power vv (sorted_list_of_set Q) = Some (Inr ())"

lemma is_quorum_power:
  assumes "is_quorum vv Q"
  shows "Q \<subseteq> validators vv" and "vv_quorum_voting_power vv \<le> sum (power_of vv) Q"
  using assms check_voting_power_eq [of vv "sorted_list_of_set Q"]
  by (auto simp: is_quorum_def sum_list_distinct_conv_sum_set split: if_splits)

lemma is_quorumI:
  assumes "verifier_ok vv" and "validators vv \<noteq> {}" and "distinct authors"
    and "check_voting_power vv authors = Some (Inr ())"
  shows "is_quorum vv (set authors)"
  using assms check_voting_power_eq [of vv authors] check_voting_power_eq [of vv "sorted_list_of_set (set authors)"]
  by (auto simp: is_quorum_def sum_list_distinct_conv_sum_set split: if_splits)

interpretation vq: quorum_system "validators vv" "power_of vv" "is_quorum vv" for vv
proof unfold_locales
  fix Q
  assume q: "is_quorum vv Q"
  then show "Q \<subseteq> validators vv" by (rule is_quorum_power)
  have "vv_quorum_voting_power vv = vv_total_voting_power vv * 2 div 3 + 1" "verifier_ok vv"
    using q by (auto simp: is_quorum_def verifier_ok_def validators_def)
  then have "2 * vv_total_voting_power vv < 3 * vv_quorum_voting_power vv"
    by simp
  then show "2 * sum (power_of vv) (validators vv) < 3 * sum (power_of vv) Q"
    using is_quorum_power(2) [OF q] total_voting_power_eq [OF \<open>verifier_ok vv\<close>] by linarith
qed simp

section \<open>Properties\<close>

text \<open>
  C8. Quorum intersection: on the validator set \<^const>\<open>validator_verifier_new\<close> builds from a
  non-empty ordered map, any two author lists without duplicates that \<^const>\<open>check_voting_power\<close>
  accepts have common authors with more than one third of the total voting power.
\<close>

theorem quorums_intersect:
  assumes "validator_verifier_new m = Some vv" and "bt_ok m" and "m \<noteq> []"
    and "distinct as" and "check_voting_power vv as = Some (Inr ())"
    and "distinct bs" and "check_voting_power vv bs = Some (Inr ())"
  shows "vv_total_voting_power vv < 3 * sum (power_of vv) (set as \<inter> set bs)"
proof -
  note ok = validator_verifier_new_ok [OF assms(1,2)]
  have "validators vv \<noteq> {}"
    using ok(2) assms(3) by (auto simp: validators_def)
  then show ?thesis
    using vq.intersection_weight [of vv "set as" "set bs"] is_quorumI [OF ok(1)] assms(4-7)
      total_voting_power_eq [OF ok(1)] by simp
qed

definition sample_info :: "nat \<Rightarrow> validator_consensus_info" where
  "sample_info p = \<lparr>vi_public_key = p, vi_vrf_public_key = None, vi_voting_power = p\<rparr>"

definition sample_verifier :: validator_verifier where
  "sample_verifier = \<lparr>vv_address_to_validator_info = [(1, sample_info 10), (2, sample_info 20), (3, sample_info 30),
     (4, sample_info 40)], vv_quorum_voting_power = 67, vv_total_voting_power = 100\<rparr>"

lemmas verifier_code =
  validator_verifier_new_def sum_voting_power_def add64_def mul64_def U64_MAX_def check_voting_power_def
  get_voting_power_def sample_info_def sample_verifier_def

theorem quorums_intersect_witness:
  "check_voting_power sample_verifier [2, 3, 4] = Some (Inr ()) \<and>
   check_voting_power sample_verifier [1, 3, 4] = Some (Inr ()) \<and>
   vv_total_voting_power sample_verifier < 3 * sum (power_of sample_verifier) ({2, 3, 4} \<inter> {1, 3, 4})"
proof -
  have a: "check_voting_power sample_verifier [2, 3, 4] = Some (Inr ())"
    and b: "check_voting_power sample_verifier [1, 3, 4] = Some (Inr ())"
    by (simp_all add: verifier_code)
  have "validator_verifier_new [(1, sample_info 10), (2, sample_info 20), (3, sample_info 30), (4, sample_info 40)]
      = Some sample_verifier"
    by (simp add: verifier_code)
  from quorums_intersect [OF this _ _ _ a _ b] a b show ?thesis
    by (simp add: bt_ok_def)
qed

text \<open>
  The outcome of \<^const>\<open>check_voting_power\<close> on authors without duplicates: it never panics,
  reports an unknown author if there is one, otherwise compares the exact sum of the powers
  with the quorum.
\<close>

theorem check_voting_power_outcome:
  assumes "validator_verifier_new m = Some vv" and "bt_ok m" and "distinct authors"
  shows "check_voting_power vv authors = Some
    (if \<not> set authors \<subseteq> fst ` set m then Inl UnknownAuthor
     else let power = sum_list (map (power_of vv) authors) in
       if power < vv_quorum_voting_power vv then Inl (TooLittleVotingPower power (vv_quorum_voting_power vv))
       else Inr ())"
  using check_voting_power_eq [OF validator_verifier_new_ok(1) [OF assms(1,2)] assms(3)]
    validator_verifier_new_ok(2) [OF assms(1,2)]
  by (simp add: validators_def Let_def)

theorem check_voting_power_outcome_witness:
  "check_voting_power sample_verifier [2, 9] = Some (Inl UnknownAuthor) \<and>
   check_voting_power sample_verifier [2, 4] = Some (Inl (TooLittleVotingPower 60 67))"
proof -
  have n: "validator_verifier_new [(1, sample_info 10), (2, sample_info 20), (3, sample_info 30), (4, sample_info 40)]
      = Some sample_verifier" and s: "bt_ok [(1::nat, sample_info 10), (2, sample_info 20), (3, sample_info 30), (4, sample_info 40)]"
    by (simp_all add: verifier_code bt_ok_def)
  have "power_of sample_verifier 2 = 20" "power_of sample_verifier 4 = 40"
    by (simp_all add: power_of_def verifier_code)
  then show ?thesis
    using check_voting_power_outcome [OF n s, of "[2, 9]"] check_voting_power_outcome [OF n s, of "[2, 4]"]
    by (simp add: Let_def sample_verifier_def)
qed

text \<open>
  C9. Signature sets: batch verification and its fallback give the same outcome as verifying one by
  one, without panicking, and succeed if and only if every signer is a validator whose signature on
  the message verifies under its own key and the signers together reach the quorum.
\<close>

theorem aggregated_signatures_verified:
  assumes "validator_verifier_new m = Some vv" and "bt_ok m" and "bt_ok sigs"
  shows "batch_verify_aggregated_signatures vsig vv msg sigs
           = verify_aggregated_struct_signature vsig vv msg sigs \<and>
    (batch_verify_aggregated_signatures vsig vv msg sigs = Some (Inr ()) \<longleftrightarrow>
       (\<forall>(a, sig)\<in>set sigs. \<exists>pk. get_public_key vv a = Some pk \<and> vsig pk msg sig) \<and>
       vv_quorum_voting_power vv \<le> sum (power_of vv) (fst ` set sigs)) \<and>
    batch_verify_aggregated_signatures vsig vv msg sigs \<noteq> None"
proof -
  note ok = validator_verifier_new_ok(1) [OF assms(1,2)]
  show ?thesis
    using batch_verify_aggregated_eq [OF ok assms(3), of vsig msg] verify_aggregated_iff [OF ok assms(3), of vsig msg]
    by (simp add: verify_each_ok_iff)
qed

theorem aggregated_signatures_verified_witness:
  "batch_verify_aggregated_signatures (\<lambda>pk m sig. sig = pk + m) sample_verifier (5::nat) [(2, 25), (3, 35), (4, 45)]
     = Some (Inr ()) \<and>
   batch_verify_aggregated_signatures (\<lambda>pk m sig. sig = pk + m) sample_verifier (5::nat) [(2, 25), (3, 36), (4, 45)]
     \<noteq> Some (Inr ())"
proof -
  have n: "validator_verifier_new [(1, sample_info 10), (2, sample_info 20), (3, sample_info 30), (4, sample_info 40)]
      = Some sample_verifier" and s: "bt_ok [(1::nat, sample_info 10), (2, sample_info 20), (3, sample_info 30), (4, sample_info 40)]"
    by (simp_all add: verifier_code bt_ok_def)
  have p: "power_of sample_verifier 2 = 20" "power_of sample_verifier 3 = 30" "power_of sample_verifier 4 = 40"
    "get_public_key sample_verifier 2 = Some 20" "get_public_key sample_verifier 3 = Some 30"
    "get_public_key sample_verifier 4 = Some 40" "vv_quorum_voting_power sample_verifier = 67"
    by (simp_all add: power_of_def get_public_key_def verifier_code)
  have sigs: "bt_ok [(2::nat, 25::nat), (3, 35), (4, 45)]" "bt_ok [(2::nat, 25::nat), (3, 36), (4, 45)]"
    by (simp_all add: bt_ok_def)
  show ?thesis
    using p aggregated_signatures_verified [OF n s sigs(1), of "\<lambda>pk m sig. sig = pk + m" 5]
      aggregated_signatures_verified [OF n s sigs(2), of "\<lambda>pk m sig. sig = pk + m" 5]
    by auto
qed

end
