(* ===== verification/Accumulator.thy ===== *)
theory Accumulator
  imports Validator
begin

text \<open>
  The in-memory Merkle accumulator (\<^verbatim>\<open>proof/accumulator/mod.rs\<close>) and the extension proof that
  the safety rules evaluate (\<^verbatim>\<open>AccumulatorExtensionProof\<close> of \<^verbatim>\<open>proof/definition.rs\<close>). The hash of an
  inner node is the argument \<open>h\<close>, the placeholder hash the argument \<open>ph\<close>. The accumulator keeps
  only the roots of the full subtrees; the reference is the Merkle tree over all leaves, built
  level by level with the placeholder as padding.
\<close>



section \<open>Bits of a leaf count\<close>

fun count_ones :: "nat \<Rightarrow> nat" where
  "count_ones n = (if n = 0 then 0 else n mod 2 + count_ones (n div 2))"

text \<open>\<^verbatim>\<open>(!n).trailing_zeros()\<close> on \<open>u64\<close>.\<close>

function trailing_ones :: "nat \<Rightarrow> nat" where
  "trailing_ones n = (if odd n then Suc (trailing_ones (n div 2)) else 0)"
  by pat_completeness auto
termination
  by (relation "measure id") (auto simp: odd_pos)

text \<open>\<^verbatim>\<open>trailing_zeros\<close> of a \<open>u64\<close>; 64 for zero.\<close>

fun trailing_zeros :: "nat \<Rightarrow> nat" where
  "trailing_zeros n = (if n = 0 then 64 else if even n then Suc (trailing_zeros (n div 2)) else 0)"

declare count_ones.simps [simp del] trailing_ones.simps [simp del] trailing_zeros.simps [simp del]

definition MAX_ACCUMULATOR_LEAVES :: nat where
  "MAX_ACCUMULATOR_LEAVES = 2 ^ 63"

section \<open>The accumulator\<close>

record accumulator =
  acc_frozen_subtree_roots :: "hash list"
  acc_num_leaves :: nat
  acc_root_hash :: hash

text \<open>The loop of \<^verbatim>\<open>compute_root_hash\<close>; \<open>iter\<close> is the reversed iterator over the subtree roots.\<close>

function root_hash_loop ::
  "(hash \<Rightarrow> hash \<Rightarrow> hash) \<Rightarrow> hash \<Rightarrow> nat \<Rightarrow> hash \<Rightarrow> hash list \<Rightarrow> hash option" where
  "root_hash_loop h ph bitmap current_hash iter =
     (if 0 < bitmap
      then if bitmap mod 2 \<noteq> 0
           then case iter of
                  [] \<Rightarrow> None
                | r # iter' \<Rightarrow> root_hash_loop h ph (bitmap div 2) (h r current_hash) iter'
           else root_hash_loop h ph (bitmap div 2) (h current_hash ph) iter
      else Some current_hash)"
  by pat_completeness auto
termination
  by (relation "measure (\<lambda>(h, ph, b, c, i). b)") auto

declare root_hash_loop.simps [simp del]

definition compute_root_hash ::
  "(hash \<Rightarrow> hash \<Rightarrow> hash) \<Rightarrow> hash \<Rightarrow> hash list \<Rightarrow> nat \<Rightarrow> hash option" where
  "compute_root_hash h ph frozen_subtree_roots num_leaves =
     (case frozen_subtree_roots of
        [] \<Rightarrow> Some ph
      | [r] \<Rightarrow> Some r
      | _ \<Rightarrow> root_hash_loop h ph (num_leaves div 2 ^ trailing_zeros num_leaves) ph (rev frozen_subtree_roots))"

definition accumulator_new ::
  "(hash \<Rightarrow> hash \<Rightarrow> hash) \<Rightarrow> hash \<Rightarrow> hash list \<Rightarrow> nat \<Rightarrow> (string + accumulator) option" where
  "accumulator_new h ph frozen_subtree_roots num_leaves =
     try_opt (Some (ensure (length frozen_subtree_roots = count_ones num_leaves)
       ''The number of frozen subtrees does not match the number of leaves'')) (\<lambda>_.
     do { root_hash \<leftarrow> compute_root_hash h ph frozen_subtree_roots num_leaves;
          Some (Inr \<lparr>acc_frozen_subtree_roots = frozen_subtree_roots, acc_num_leaves = num_leaves,
                      acc_root_hash = root_hash\<rparr>) })"

definition accumulator_default :: "(hash \<Rightarrow> hash \<Rightarrow> hash) \<Rightarrow> hash \<Rightarrow> accumulator option" where
  "accumulator_default h ph =
     do { r \<leftarrow> accumulator_new h ph [] 0; case r of Inl _ \<Rightarrow> None | Inr a \<Rightarrow> Some a }"

text \<open>The roots as a stack with the last root on top, merged \<open>k\<close> times.\<close>

fun merge_last :: "(hash \<Rightarrow> hash \<Rightarrow> hash) \<Rightarrow> nat \<Rightarrow> hash list \<Rightarrow> hash list option" where
  "merge_last h 0 roots = Some roots"
| "merge_last h (Suc k) roots =
     (case rev roots of
        right_hash # left_hash # rest \<Rightarrow> merge_last h k (rev rest @ [h left_hash right_hash])
      | _ \<Rightarrow> None)"

definition append_one :: "(hash \<Rightarrow> hash \<Rightarrow> hash) \<Rightarrow> hash list \<Rightarrow> nat \<Rightarrow> hash \<Rightarrow> hash list option" where
  "append_one h frozen_subtree_roots num_existing_leaves leaf =
     merge_last h (trailing_ones num_existing_leaves) (frozen_subtree_roots @ [leaf])"

fun append_leaves ::
  "(hash \<Rightarrow> hash \<Rightarrow> hash) \<Rightarrow> hash list \<Rightarrow> nat \<Rightarrow> hash list \<Rightarrow> (hash list \<times> nat) option" where
  "append_leaves h frozen_subtree_roots num_leaves [] = Some (frozen_subtree_roots, num_leaves)"
| "append_leaves h frozen_subtree_roots num_leaves (leaf # leaves) =
     do { roots \<leftarrow> append_one h frozen_subtree_roots num_leaves leaf;
          n \<leftarrow> add64 num_leaves 1;
          append_leaves h roots n leaves }"

definition acc_append ::
  "(hash \<Rightarrow> hash \<Rightarrow> hash) \<Rightarrow> hash \<Rightarrow> accumulator \<Rightarrow> hash list \<Rightarrow> accumulator option" where
  "acc_append h ph self leaves =
     do { (roots, n) \<leftarrow> append_leaves h (acc_frozen_subtree_roots self) (acc_num_leaves self) leaves;
          r \<leftarrow> accumulator_new h ph roots n;
          case r of Inl _ \<Rightarrow> None | Inr a \<Rightarrow> Some a }"

definition from_leaves :: "(hash \<Rightarrow> hash \<Rightarrow> hash) \<Rightarrow> hash \<Rightarrow> hash list \<Rightarrow> accumulator option" where
  "from_leaves h ph leaves = do { a \<leftarrow> accumulator_default h ph; acc_append h ph a leaves }"

definition acc_version :: "accumulator \<Rightarrow> nat" where
  "acc_version self = (if acc_num_leaves self = 0 then 0 else acc_num_leaves self - 1)"

section \<open>Extension proofs\<close>

record accumulator_extension_proof =
  ep_frozen_subtree_roots :: "hash list"
  ep_num_leaves :: nat
  ep_leaves :: "hash list"

text \<open>The original root is not looked at.\<close>

definition extension_proof_verify ::
  "(hash \<Rightarrow> hash \<Rightarrow> hash) \<Rightarrow> hash \<Rightarrow> accumulator_extension_proof \<Rightarrow> hash \<Rightarrow> (string + accumulator) option" where
  "extension_proof_verify h ph self original_root =
     try_opt (accumulator_new h ph (ep_frozen_subtree_roots self) (ep_num_leaves self)) (\<lambda>original_tree.
       do { a \<leftarrow> acc_append h ph original_tree (ep_leaves self); Some (Inr a) })"

section \<open>The reference: a Merkle tree built level by level\<close>

text \<open>One level up, with a placeholder to the right of an odd node.\<close>

fun parents :: "(hash \<Rightarrow> hash \<Rightarrow> hash) \<Rightarrow> hash \<Rightarrow> hash list \<Rightarrow> hash list" where
  "parents h ph [] = []"
| "parents h ph [a] = [h a ph]"
| "parents h ph (a # b # xs) = h a b # parents h ph xs"

lemma length_parents [simp]: "length (parents h ph xs) = (length xs + 1) div 2"
  by (induction h ph xs rule: parents.induct) auto

function merkle_root :: "(hash \<Rightarrow> hash \<Rightarrow> hash) \<Rightarrow> hash \<Rightarrow> hash list \<Rightarrow> hash" where
  "merkle_root h ph xs =
     (if length xs \<le> 1 then (case xs of [] \<Rightarrow> ph | x # _ \<Rightarrow> x) else merkle_root h ph (parents h ph xs))"
  by pat_completeness auto
termination
  by (relation "measure (\<lambda>(h, ph, xs). length xs)") auto

declare merkle_root.simps [simp del]

text \<open>The roots of the full subtrees, lowest first.\<close>

fun pairs :: "(hash \<Rightarrow> hash \<Rightarrow> hash) \<Rightarrow> hash list \<Rightarrow> hash list" where
  "pairs h (a # b # xs) = h a b # pairs h xs"
| "pairs h _ = []"

lemma length_pairs [simp]: "length (pairs h xs) = length xs div 2"
  by (induction h xs rule: pairs.induct) auto

lemma half_length: "xs \<noteq> [] \<Longrightarrow> length xs div 2 < length xs" "xs \<noteq> [] \<Longrightarrow> (length xs - Suc 0) div 2 < length xs"
  by (cases xs; simp; linarith)+

function low_roots :: "(hash \<Rightarrow> hash \<Rightarrow> hash) \<Rightarrow> hash list \<Rightarrow> hash list" where
  "low_roots h xs =
     (if xs = [] then []
      else if odd (length xs) then last xs # low_roots h (pairs h (butlast xs))
      else low_roots h (pairs h xs))"
  by pat_completeness auto
termination
  by (relation "measure (\<lambda>(h, xs). length xs)") (simp_all add: half_length)

declare low_roots.simps [simp del]

lemma pairs_append: "even (length xs) \<Longrightarrow> pairs h (xs @ ys) = pairs h xs @ pairs h ys"
  by (induction h xs rule: pairs.induct) auto

lemma parents_even: "even (length xs) \<Longrightarrow> parents h ph xs = pairs h xs"
  by (induction h ph xs rule: parents.induct) auto

lemma parents_snoc: "even (length xs) \<Longrightarrow> parents h ph (xs @ [y]) = pairs h xs @ [h y ph]"
  by (induction h ph xs rule: parents.induct) auto

lemma low_roots_Nil [simp]: "low_roots h [] = []"
  by (simp add: low_roots.simps)

lemma low_roots_odd: "even (length xs) \<Longrightarrow> low_roots h (xs @ [x]) = x # low_roots h (pairs h xs)"
  by (simp add: low_roots.simps [of h "xs @ [x]"])

lemma low_roots_even: "even (length xs) \<Longrightarrow> low_roots h xs = low_roots h (pairs h xs)"
  by (cases "xs = []") (simp_all add: low_roots.simps [of h xs])

text \<open>Appending a leaf merges as many roots as the leaf count has trailing ones.\<close>

lemma merge_last_low:
  "merge_last h (trailing_ones (length xs)) (rev (low_roots h xs) @ [x]) = Some (rev (low_roots h (xs @ [x])))"
proof (induction "length xs" arbitrary: xs x rule: less_induct)
  case less
  show ?case
  proof (cases "even (length xs)")
    case True
    then show ?thesis
      by (simp add: trailing_ones.simps [of "length xs"] low_roots_odd low_roots_even [of xs])
  next
    case False
    then obtain ys y where xs: "xs = ys @ [y]"
      by (cases xs rule: rev_cases) auto
    have ev: "even (length ys)" using False xs by simp
    have "Suc (length ys) div 2 = length ys div 2"
      using ev by simp
    moreover have "length (pairs h ys) < length xs" using xs by simp
    ultimately show ?thesis
      using less.hyps [of "pairs h ys" "h y x"] ev
      by (simp add: xs trailing_ones.simps [of "Suc (length ys)"] low_roots_odd pairs_append
          low_roots_even [of "ys @ [y, x]"])
  qed
qed

lemma append_one_low:
  "append_one h (rev (low_roots h xs)) (length xs) x = Some (rev (low_roots h (xs @ [x])))"
  by (simp add: append_one_def merge_last_low)

lemma append_leaves_low:
  "length xs + length ys \<le> U64_MAX \<Longrightarrow>
   append_leaves h (rev (low_roots h xs)) (length xs) ys = Some (rev (low_roots h (xs @ ys)), length xs + length ys)"
proof (induction ys arbitrary: xs)
  case (Cons y ys)
  then show ?case
    using Cons.IH [of "xs @ [y]"] by (simp add: append_one_low add64_ok)
qed simp

lemma length_low_roots: "length (low_roots h xs) = count_ones (length xs)"
proof (induction h xs rule: low_roots.induct)
  case (1 h xs)
  show ?case
  proof (cases "xs = []")
    case False
    have "odd (length xs) \<Longrightarrow> length xs mod 2 = 1" "even (length xs) \<Longrightarrow> length xs mod 2 = 0"
      by presburger+
    moreover have "odd (length xs) \<Longrightarrow> (length xs - 1) div 2 = length xs div 2"
      by presburger
    ultimately show ?thesis
      using 1 False by (simp add: low_roots.simps [of h xs] count_ones.simps [of "length xs"])
  qed (simp add: count_ones.simps)
qed

section \<open>The root hash\<close>

lemma merkle_root_parents: "2 \<le> length xs \<Longrightarrow> merkle_root h ph xs = merkle_root h ph (parents h ph xs)"
  by (simp add: merkle_root.simps [of h ph xs])

lemma merkle_root_single [simp]: "merkle_root h ph [x] = x" "merkle_root h ph [] = ph"
  by (simp_all add: merkle_root.simps)

lemma root_hash_loop_low:
  "root_hash_loop h ph (length xs) cur (low_roots h xs) = Some (merkle_root h ph (xs @ [cur]))"
proof (induction "length xs" arbitrary: xs cur rule: less_induct)
  case less
  show ?case
  proof (cases "xs = []")
    case True
    then show ?thesis by (simp add: root_hash_loop.simps)
  next
    case False
    show ?thesis
    proof (cases "even (length xs)")
      case True
      have "merkle_root h ph (xs @ [cur]) = merkle_root h ph (pairs h xs @ [h cur ph])"
        using False True merkle_root_parents [of "xs @ [cur]" h ph] by (simp add: parents_snoc Suc_leI)
      then show ?thesis
        using less.hyps [of "pairs h xs" "h cur ph"] False True half_length
        by (auto simp: root_hash_loop.simps [of h ph "length xs"] low_roots_even [of xs])
    next
      case False
      then obtain ys y where xs: "xs = ys @ [y]"
        by (cases xs rule: rev_cases) auto
      have ev: "even (length ys)" using False xs by simp
      have "merkle_root h ph (xs @ [cur]) = merkle_root h ph (pairs h ys @ [h y cur])"
        using ev by (simp add: xs merkle_root_parents parents_even pairs_append)
      moreover have "length (pairs h ys) < length xs" using xs by simp
      moreover have "Suc (length ys) mod 2 = 1" using ev by presburger
      ultimately show ?thesis
        using less.hyps [of "pairs h ys" "h y cur"] ev
        by (simp add: root_hash_loop.simps [of h ph "Suc (length ys)"] xs low_roots_odd)
    qed
  qed
qed

text \<open>The levels below the lowest full subtree can be skipped.\<close>

lemma lowest_level:
  "xs \<noteq> [] \<Longrightarrow> \<exists>ys. odd (length ys) \<and> length ys = length xs div 2 ^ trailing_zeros (length xs) \<and>
     low_roots h ys = low_roots h xs \<and> merkle_root h ph ys = merkle_root h ph xs"
proof (induction "length xs" arbitrary: xs rule: less_induct)
  case less
  show ?case
  proof (cases "even (length xs)")
    case True
    have l: "2 \<le> length xs" using True less.prems by (cases xs) (auto, presburger)
    then have "pairs h xs \<noteq> []" by (cases xs; cases "tl xs"; simp)
    then obtain ys where "odd (length ys)"
      "length ys = length (pairs h xs) div 2 ^ trailing_zeros (length (pairs h xs))"
      "low_roots h ys = low_roots h (pairs h xs)" "merkle_root h ph ys = merkle_root h ph (pairs h xs)"
      using less.hyps [of "pairs h xs"] half_length(1) [OF less.prems] by auto
    moreover have "trailing_zeros (length xs) = Suc (trailing_zeros (length xs div 2))"
      using less.prems True by (subst trailing_zeros.simps) simp
    ultimately show ?thesis
      using True l by (intro exI [of _ ys]) (simp add: low_roots_even [of xs] merkle_root_parents parents_even div_mult2_eq)
  next
    case False
    have "trailing_zeros (length xs) = 0"
      using False by (subst trailing_zeros.simps) auto
    then show ?thesis
      using False by (intro exI [of _ xs]) simp
  qed
qed

lemma low_roots_nonempty:
  assumes "xs \<noteq> []"
  shows "low_roots h xs \<noteq> []"
proof -
  obtain ys where ys: "odd (length ys)" "low_roots h ys = low_roots h xs"
    using lowest_level [OF assms] by blast
  then obtain zs z where "ys = zs @ [z]" "even (length zs)"
    by (cases ys rule: rev_cases) auto
  then show ?thesis
    using ys(2) low_roots_odd [of zs h z] by auto
qed

lemma compute_root_hash_low: "compute_root_hash h ph (rev (low_roots h xs)) (length xs) = Some (merkle_root h ph xs)"
proof (cases "xs = []")
  case True
  then show ?thesis by (simp add: compute_root_hash_def)
next
  case False
  then obtain ys where ys: "odd (length ys)" "length ys = length xs div 2 ^ trailing_zeros (length xs)"
    "low_roots h ys = low_roots h xs" "merkle_root h ph ys = merkle_root h ph xs"
    using lowest_level by blast
  then obtain zs z where z: "ys = zs @ [z]" "even (length zs)"
    by (cases ys rule: rev_cases) auto
  have low: "low_roots h xs = z # low_roots h (pairs h zs)"
    using ys(3) z by (simp add: low_roots_odd)
  show ?thesis
  proof (cases "zs = []")
    case True
    then show ?thesis
      using ys(4) z low by (simp add: compute_root_hash_def)
  next
    case nz: False
    have "2 \<le> length zs" using z(2) nz by (cases zs) (auto, presburger)
    then have "pairs h zs \<noteq> []" by (cases zs; cases "tl zs"; simp)
    then have "low_roots h (pairs h zs) \<noteq> []" by (rule low_roots_nonempty)
    then have "compute_root_hash h ph (rev (low_roots h xs)) (length xs)
        = root_hash_loop h ph (length ys) ph (low_roots h ys)"
      using low ys(2,3) by (cases "low_roots h (pairs h zs)" rule: rev_cases)
        (auto simp: compute_root_hash_def split: list.split)
    also have "\<dots> = Some (merkle_root h ph (ys @ [ph]))"
      by (rule root_hash_loop_low)
    also have "merkle_root h ph (ys @ [ph]) = merkle_root h ph ys"
      using nz z by (simp add: merkle_root_parents parents_even parents_snoc pairs_append Suc_leI)
    finally show ?thesis using ys(4) by simp
  qed
qed

section \<open>Accumulators of a list of leaves\<close>

definition acc_of :: "(hash \<Rightarrow> hash \<Rightarrow> hash) \<Rightarrow> hash \<Rightarrow> hash list \<Rightarrow> accumulator" where
  "acc_of h ph leaves = \<lparr>acc_frozen_subtree_roots = rev (low_roots h leaves), acc_num_leaves = length leaves,
     acc_root_hash = merkle_root h ph leaves\<rparr>"

lemma accumulator_new_low: "accumulator_new h ph (rev (low_roots h xs)) (length xs) = Some (Inr (acc_of h ph xs))"
  by (simp add: accumulator_new_def length_low_roots compute_root_hash_low acc_of_def)

lemma accumulator_default_eq: "accumulator_default h ph = Some (acc_of h ph [])"
  using accumulator_new_low [of h ph "[]"] by (simp add: accumulator_default_def)

lemma acc_append_eq:
  "length xs + length ys \<le> U64_MAX \<Longrightarrow> acc_append h ph (acc_of h ph xs) ys = Some (acc_of h ph (xs @ ys))"
  using accumulator_new_low [of h ph "xs @ ys"]
  by (simp add: acc_append_def append_leaves_low acc_of_def)

text \<open>
  C29. The incremental accumulator is the Merkle tree: building it from leaves and appending more
  never panics while the leaf count fits 64 bits, and the result has the leaf count of the
  concatenation, as many frozen roots as that count has one-bits and, as its root hash, the
  root of the Merkle tree over all leaves built level by level.
\<close>

theorem accumulator_is_merkle_tree:
  assumes "length xs + length ys \<le> U64_MAX"
  shows "\<exists>a b. from_leaves h ph xs = Some a \<and> acc_append h ph a ys = Some b \<and>
    from_leaves h ph (xs @ ys) = Some b \<and>
    acc_num_leaves b = length xs + length ys \<and>
    length (acc_frozen_subtree_roots b) = count_ones (length xs + length ys) \<and>
    acc_root_hash b = merkle_root h ph (xs @ ys)"
proof -
  have "from_leaves h ph xs = Some (acc_of h ph xs)" "from_leaves h ph (xs @ ys) = Some (acc_of h ph (xs @ ys))"
    using assms acc_append_eq [of "[]" xs] acc_append_eq [of "[]" "xs @ ys"]
    by (simp_all add: from_leaves_def accumulator_default_eq)
  then show ?thesis
    using acc_append_eq [OF assms] length_low_roots [of h "xs @ ys"] by (simp add: acc_of_def)
qed

theorem accumulator_is_merkle_tree_witness:
  "\<exists>a b. from_leaves (\<lambda>l r. 3 * l + r) 0 [5, 6, 7] = Some a \<and> acc_append (\<lambda>l r. 3 * l + r) 0 a [8, 9] = Some b \<and>
     acc_num_leaves b = 5 \<and> length (acc_frozen_subtree_roots b) = 2 \<and> acc_root_hash b = 357"
proof -
  have "merkle_root (\<lambda>l r. 3 * l + r) 0 [5, 6, 7, 8, 9] = 357"
    by (simp add: merkle_root.simps)
  moreover have "count_ones (Suc (Suc (Suc (Suc (Suc 0))))) = 2"
    by (simp add: count_ones.simps)
  ultimately show ?thesis
    using accumulator_is_merkle_tree [of "[5, 6, 7]" "[8, 9]" "\<lambda>l r. 3 * l + r" 0] by (auto simp: U64_MAX_def)
qed

text \<open>
  An extension proof that verifies yields the accumulator of the old leaves followed by the new
  ones whenever its roots are those of a list of old leaves, and the outcome does not depend on the
  original root the caller supplies.
\<close>

theorem extension_proof_ignores_root:
  assumes "ep_frozen_subtree_roots p = acc_frozen_subtree_roots a" and "ep_num_leaves p = acc_num_leaves a"
    and "from_leaves h ph xs = Some a" and "length xs + length (ep_leaves p) \<le> U64_MAX"
  shows "\<exists>b. from_leaves h ph (xs @ ep_leaves p) = Some b \<and>
    (\<forall>root. extension_proof_verify h ph p root = Some (Inr b))"
proof -
  have "a = acc_of h ph xs" "from_leaves h ph (xs @ ep_leaves p) = Some (acc_of h ph (xs @ ep_leaves p))"
    using assms(3,4) acc_append_eq [of "[]" xs] acc_append_eq [of "[]" "xs @ ep_leaves p"]
    by (simp_all add: from_leaves_def accumulator_default_eq)
  then show ?thesis
    using assms acc_append_eq [of xs "ep_leaves p" h ph] accumulator_new_low [of h ph xs]
    by (simp add: extension_proof_verify_def acc_of_def)
qed

theorem extension_proof_ignores_root_witness:
  "\<exists>b. from_leaves (\<lambda>l r. 3 * l + r) 0 [5, 6, 7] = Some b \<and>
    (\<forall>root. extension_proof_verify (\<lambda>l r. 3 * l + r) 0
       \<lparr>ep_frozen_subtree_roots = [21], ep_num_leaves = 2, ep_leaves = [7]\<rparr> root = Some (Inr b))"
proof -
  let ?h = "\<lambda>l r. 3 * l + r :: nat"
  let ?a = "\<lparr>acc_frozen_subtree_roots = [21], acc_num_leaves = 2, acc_root_hash = 21\<rparr>"
  have "from_leaves ?h 0 [5, 6] = Some ?a"
    using acc_append_eq [of "[]" "[5, 6]" ?h 0]
    by (simp add: from_leaves_def accumulator_default_eq U64_MAX_def acc_of_def low_roots.simps merkle_root.simps)
  from extension_proof_ignores_root [OF _ _ this, of "\<lparr>ep_frozen_subtree_roots = [21], ep_num_leaves = 2, ep_leaves = [7]\<rparr>"]
  show ?thesis by (simp add: U64_MAX_def)
qed

end
