(* ===== verification/Consensus_Types.thy ===== *)
theory Consensus_Types
  imports Validator Accumulator
begin

text \<open>
  The messages of the PoS consensus: block and ledger infos (\<^verbatim>\<open>pos/types\<close>), vote data, votes,
  quorum and timeout certificates, blocks, sync infos and proposals (\<^verbatim>\<open>consensus-types\<close>), with
  their validation. Accessor methods that only return a field are the record selectors.
  Hashes, signatures and VRF proofs are the functions of the record \<open>crypto\<close>, an argument; the
  current time is an argument too.
\<close>

type_synonym round = nat
type_synonym version = nat
type_synonym payload = "bytes list"

text \<open>\<^verbatim>\<open>anyhow::Error\<close>: a message, a wrapped verification error, or either with a context.\<close>

datatype anyhow = Msg string | Verify verify_error | Context string anyhow

section \<open>Data\<close>

record pivot_block_decision =
  pd_height :: nat
  pd_block_hash :: bytes

record block_info =
  bi_epoch :: nat
  bi_round :: round
  bi_id :: hash
  bi_executed_state_id :: hash
  bi_version :: version
  bi_timestamp_usecs :: nat
  bi_next_epoch_state :: "epoch_state option"
  bi_pivot :: "pivot_block_decision option"

record ledger_info =
  li_commit_info :: block_info
  li_consensus_data_hash :: hash

record ledger_info_with_signatures =
  lis_ledger_info :: ledger_info
  lis_signatures :: "(address, signature) btree"

record vote_data =
  vd_proposed :: block_info
  vd_parent :: block_info

record timeout =
  to_epoch :: nat
  to_round :: round

record timeout_certificate =
  tc_timeout :: timeout
  tc_signatures :: "(address, signature) btree"

record quorum_cert =
  qc_vote_data :: vote_data
  qc_signed_ledger_info :: ledger_info_with_signatures

record vote =
  vote_vote_data :: vote_data
  vote_author :: address
  vote_ledger_info :: ledger_info
  vote_signature :: signature
  vote_timeout_signature :: "signature option"

datatype block_type = Proposal payload address | NilBlock | Genesis

record block_data =
  bd_epoch :: nat
  bd_round :: round
  bd_timestamp_usecs :: nat
  bd_quorum_cert :: quorum_cert
  bd_block_type :: block_type

record block =
  b_id :: hash
  b_block_data :: block_data
  b_signature :: "signature option"
  b_vrf_nonce_and_proof :: "(nat \<times> vrf_proof) option"

record sync_info =
  sy_highest_quorum_cert :: quorum_cert
  sy_highest_commit_cert :: "quorum_cert option"
  sy_highest_timeout_cert :: "timeout_certificate option"

record proposal_msg =
  pm_proposal :: block
  pm_sync_info :: sync_info

record vote_msg =
  vm_vote :: vote
  vm_sync_info :: sync_info

record safety_data =
  sd_epoch :: nat
  sd_last_voted_round :: nat
  sd_preferred_round :: nat
  sd_last_vote :: "vote option"

text \<open>The messages that are signed, and the external functions.\<close>

datatype signed_message = MLedgerInfo ledger_info | MTimeout timeout | MBlockData block_data

record crypto =
  cr_verify :: "public_key \<Rightarrow> signed_message \<Rightarrow> signature \<Rightarrow> bool"
  cr_hash_vote_data :: "vote_data \<Rightarrow> hash"
  cr_hash_block_data :: "block_data \<Rightarrow> hash"
  cr_verify_proof :: "vrf_public_key \<Rightarrow> bytes \<Rightarrow> vrf_proof \<Rightarrow> bool"

section \<open>Block and ledger infos\<close>

text \<open>The constructor drops the executed state.\<close>

definition block_info_new ::
  "nat \<Rightarrow> round \<Rightarrow> hash \<Rightarrow> hash \<Rightarrow> version \<Rightarrow> nat \<Rightarrow> epoch_state option \<Rightarrow> pivot_block_decision option \<Rightarrow>
     block_info" where
  "block_info_new epoch round id' executed_state_id version timestamp_usecs next_epoch_state pivot = \<lparr>
     bi_epoch = epoch, bi_round = round, bi_id = id', bi_executed_state_id = 0, bi_version = version,
     bi_timestamp_usecs = timestamp_usecs, bi_next_epoch_state = next_epoch_state, bi_pivot = pivot \<rparr>"

definition block_info_empty :: block_info where
  "block_info_empty = \<lparr>bi_epoch = 0, bi_round = 0, bi_id = 0, bi_executed_state_id = 0, bi_version = 0,
     bi_timestamp_usecs = 0, bi_next_epoch_state = None, bi_pivot = None\<rparr>"

definition block_info_genesis :: "hash \<Rightarrow> validator_info list \<Rightarrow> block_info option" where
  "block_info_genesis genesis_state_root_hash validator_set =
     do { v \<leftarrow> validator_verifier_from_set validator_set;
          Some \<lparr>bi_epoch = 0, bi_round = 0, bi_id = 0, bi_executed_state_id = genesis_state_root_hash,
                bi_version = 0, bi_timestamp_usecs = 0,
                bi_next_epoch_state = Some \<lparr>es_epoch = 1, es_verifier = v, es_vrf_seed = []\<rparr>,
                bi_pivot = None\<rparr> }"

definition bi_next_block_epoch :: "block_info \<Rightarrow> nat" where
  "bi_next_block_epoch self =
     (case bi_next_epoch_state self of None \<Rightarrow> bi_epoch self | Some e \<Rightarrow> es_epoch e)"

definition has_reconfiguration :: "block_info \<Rightarrow> bool" where
  "has_reconfiguration self \<longleftrightarrow> bi_next_epoch_state self \<noteq> None"

definition li_epoch :: "ledger_info \<Rightarrow> nat" where
  "li_epoch self = bi_epoch (li_commit_info self)"

definition li_round :: "ledger_info \<Rightarrow> round" where
  "li_round self = bi_round (li_commit_info self)"

definition li_next_block_epoch :: "ledger_info \<Rightarrow> nat" where
  "li_next_block_epoch self = bi_next_block_epoch (li_commit_info self)"

definition li_ends_epoch :: "ledger_info \<Rightarrow> bool" where
  "li_ends_epoch self \<longleftrightarrow> bi_next_epoch_state (li_commit_info self) \<noteq> None"

definition lis_add_signature ::
  "ledger_info_with_signatures \<Rightarrow> address \<Rightarrow> signature \<Rightarrow> ledger_info_with_signatures" where
  "lis_add_signature self validator signature =
     self\<lparr>lis_signatures := bt_or_insert validator signature (lis_signatures self)\<rparr>"

definition lis_remove_signature ::
  "ledger_info_with_signatures \<Rightarrow> address \<Rightarrow> ledger_info_with_signatures" where
  "lis_remove_signature self validator =
     self\<lparr>lis_signatures := bt_remove validator (lis_signatures self)\<rparr>"

definition verify_signatures ::
  "crypto \<Rightarrow> ledger_info_with_signatures \<Rightarrow> validator_verifier \<Rightarrow> (verify_error + unit) option" where
  "verify_signatures cr self validator =
     batch_verify_aggregated_signatures (cr_verify cr) validator
       (MLedgerInfo (lis_ledger_info self)) (lis_signatures self)"

text \<open>\<^verbatim>\<open>EpochState\<close> as a verifier of ledger infos.\<close>

definition epoch_state_verify ::
  "crypto \<Rightarrow> (nat \<rightharpoonup> validator_verifier) \<Rightarrow> epoch_state \<Rightarrow> ledger_info_with_signatures \<Rightarrow>
     (anyhow + unit) option" where
  "epoch_state_verify cr hardcoded self ledger_info =
     try_opt (Some (ensure (es_epoch self = li_epoch (lis_ledger_info ledger_info))
       (Msg ''LedgerInfo has unexpected epoch''))) (\<lambda>_.
     map_option (map_err Verify) (verify_signatures cr ledger_info (verifier hardcoded self)))"

definition epoch_change_verification_required :: "epoch_state \<Rightarrow> nat \<Rightarrow> bool" where
  "epoch_change_verification_required self epoch \<longleftrightarrow> es_epoch self < epoch"

definition is_ledger_info_stale :: "epoch_state \<Rightarrow> ledger_info \<Rightarrow> bool" where
  "is_ledger_info_stale self ledger_info \<longleftrightarrow> li_epoch ledger_info < es_epoch self"

section \<open>Vote data and certificates\<close>

definition vote_data_verify :: "vote_data \<Rightarrow> anyhow + unit" where
  "vote_data_verify self =
     try_res (ensure (bi_epoch (vd_parent self) = bi_epoch (vd_proposed self))
       (Msg ''Parent and proposed epochs do not match'')) (\<lambda>_.
     try_res (ensure (bi_round (vd_parent self) < bi_round (vd_proposed self))
       (Msg ''Proposed round is less than parent round'')) (\<lambda>_.
     try_res (ensure (bi_timestamp_usecs (vd_parent self) \<le> bi_timestamp_usecs (vd_proposed self))
       (Msg ''Proposed happened before parent'')) (\<lambda>_.
     ensure (bi_version (vd_parent self) \<le> bi_version (vd_proposed self))
       (Msg ''Proposed version is less than parent version''))))"

definition certified_block :: "quorum_cert \<Rightarrow> block_info" where
  "certified_block self = vd_proposed (qc_vote_data self)"

definition parent_block :: "quorum_cert \<Rightarrow> block_info" where
  "parent_block self = vd_parent (qc_vote_data self)"

definition qc_ledger_info :: "quorum_cert \<Rightarrow> ledger_info" where
  "qc_ledger_info self = lis_ledger_info (qc_signed_ledger_info self)"

definition commit_info :: "quorum_cert \<Rightarrow> block_info" where
  "commit_info self = li_commit_info (qc_ledger_info self)"

definition qc_ends_epoch :: "quorum_cert \<Rightarrow> bool" where
  "qc_ends_epoch self = li_ends_epoch (qc_ledger_info self)"

definition certificate_for_genesis_from_ledger_info ::
  "crypto \<Rightarrow> ledger_info \<Rightarrow> hash \<Rightarrow> quorum_cert option" where
  "certificate_for_genesis_from_ledger_info cr ledger_info genesis_id =
     do { epoch \<leftarrow> add64 (li_epoch ledger_info) 1;
          let ancestor = block_info_new epoch 0 genesis_id
                (bi_executed_state_id (li_commit_info ledger_info)) (bi_version (li_commit_info ledger_info))
                (bi_timestamp_usecs (li_commit_info ledger_info)) None (bi_pivot (li_commit_info ledger_info));
              vote_data = \<lparr>vd_proposed = ancestor, vd_parent = ancestor\<rparr>;
              li = \<lparr>li_commit_info = ancestor, li_consensus_data_hash = cr_hash_vote_data cr vote_data\<rparr>
          in Some \<lparr>qc_vote_data = vote_data,
                    qc_signed_ledger_info = \<lparr>lis_ledger_info = li, lis_signatures = []\<rparr>\<rparr> }"

definition quorum_cert_verify ::
  "crypto \<Rightarrow> quorum_cert \<Rightarrow> validator_verifier \<Rightarrow> (anyhow + unit) option" where
  "quorum_cert_verify cr self validator =
     try_opt (Some (ensure (li_consensus_data_hash (qc_ledger_info self) = cr_hash_vote_data cr (qc_vote_data self))
       (Msg ''Quorum Cert's hash mismatch LedgerInfo''))) (\<lambda>_.
     if bi_round (certified_block self) = 0
     then Some (
       try_res (ensure (parent_block self = certified_block self)
         (Msg ''Genesis QC has inconsistent parent block with certified block'')) (\<lambda>_.
       try_res (ensure (certified_block self = commit_info self)
         (Msg ''Genesis QC has inconsistent commit block with certified block'')) (\<lambda>_.
       ensure (lis_signatures (qc_signed_ledger_info self) = [])
         (Msg ''Genesis QC should not carry signatures''))))
     else
       try_opt (map_option (map_err (\<lambda>e. Context ''Fail to verify QuorumCert'' (Verify e)))
           (verify_signatures cr (qc_signed_ledger_info self) validator)) (\<lambda>_.
         Some (vote_data_verify (qc_vote_data self))))"

definition tc_new :: "timeout \<Rightarrow> timeout_certificate" where
  "tc_new timeout' = \<lparr>tc_timeout = timeout', tc_signatures = []\<rparr>"

definition tc_round :: "timeout_certificate \<Rightarrow> round" where
  "tc_round self = to_round (tc_timeout self)"

definition tc_epoch :: "timeout_certificate \<Rightarrow> nat" where
  "tc_epoch self = to_epoch (tc_timeout self)"

definition tc_verify ::
  "crypto \<Rightarrow> timeout_certificate \<Rightarrow> validator_verifier \<Rightarrow> (anyhow + unit) option" where
  "tc_verify cr self validator =
     map_option (map_err (\<lambda>e. Context ''Failed to verify TimeoutCertificate'' (Verify e)))
       (verify_aggregated_struct_signature (cr_verify cr) validator (MTimeout (tc_timeout self)) (tc_signatures self))"

definition tc_add_signature :: "timeout_certificate \<Rightarrow> address \<Rightarrow> signature \<Rightarrow> timeout_certificate" where
  "tc_add_signature self author signature =
     self\<lparr>tc_signatures := bt_or_insert author signature (tc_signatures self)\<rparr>"

definition tc_remove_signature :: "timeout_certificate \<Rightarrow> address \<Rightarrow> timeout_certificate" where
  "tc_remove_signature self author = self\<lparr>tc_signatures := bt_remove author (tc_signatures self)\<rparr>"

section \<open>Votes\<close>

definition vote_new_with_signature ::
  "vote_data \<Rightarrow> address \<Rightarrow> ledger_info \<Rightarrow> signature \<Rightarrow> vote" where
  "vote_new_with_signature vote_data author ledger_info signature =
     \<lparr>vote_vote_data = vote_data, vote_author = author, vote_ledger_info = ledger_info,
      vote_signature = signature, vote_timeout_signature = None\<rparr>"

text \<open>The signer is the function \<open>sign\<close>.\<close>

definition vote_new ::
  "crypto \<Rightarrow> (signed_message \<Rightarrow> signature) \<Rightarrow> vote_data \<Rightarrow> address \<Rightarrow> ledger_info \<Rightarrow> vote" where
  "vote_new cr sign vote_data author ledger_info_placeholder =
     (let li = ledger_info_placeholder\<lparr>li_consensus_data_hash := cr_hash_vote_data cr vote_data\<rparr>
      in vote_new_with_signature vote_data author li (sign (MLedgerInfo li)))"

definition add_timeout_signature :: "vote \<Rightarrow> signature \<Rightarrow> vote" where
  "add_timeout_signature self signature =
     (if vote_timeout_signature self \<noteq> None then self
      else self\<lparr>vote_timeout_signature := Some signature\<rparr>)"

definition vote_timeout :: "vote \<Rightarrow> timeout" where
  "vote_timeout self = \<lparr>to_epoch = bi_epoch (vd_proposed (vote_vote_data self)),
                        to_round = bi_round (vd_proposed (vote_vote_data self))\<rparr>"

definition vote_epoch :: "vote \<Rightarrow> nat" where
  "vote_epoch self = bi_epoch (vd_proposed (vote_vote_data self))"

definition is_timeout :: "vote \<Rightarrow> bool" where
  "is_timeout self \<longleftrightarrow> vote_timeout_signature self \<noteq> None"

definition vote_verify :: "crypto \<Rightarrow> vote \<Rightarrow> validator_verifier \<Rightarrow> anyhow + unit" where
  "vote_verify cr self validator =
     try_res (ensure (li_consensus_data_hash (vote_ledger_info self) = cr_hash_vote_data cr (vote_vote_data self))
       (Msg ''Vote's hash mismatch with LedgerInfo'')) (\<lambda>_.
     try_res (map_err (\<lambda>e. Context ''Failed to verify Vote'' (Verify e))
       (vv_verify (cr_verify cr) validator (vote_author self) (MLedgerInfo (vote_ledger_info self)) (vote_signature self))) (\<lambda>_.
     try_res (case vote_timeout_signature self of
         None \<Rightarrow> Inr ()
       | Some timeout_signature \<Rightarrow>
           map_err (\<lambda>e. Context ''Failed to verify Timeout Vote'' (Verify e))
             (vv_verify (cr_verify cr) validator (vote_author self) (MTimeout (vote_timeout self)) timeout_signature)) (\<lambda>_.
     vote_data_verify (vote_vote_data self))))"

section \<open>What verification establishes\<close>

lemma vote_data_verify_iff:
  "vote_data_verify vd = Inr () \<longleftrightarrow>
     bi_epoch (vd_parent vd) = bi_epoch (vd_proposed vd) \<and> bi_round (vd_parent vd) < bi_round (vd_proposed vd) \<and>
     bi_timestamp_usecs (vd_parent vd) \<le> bi_timestamp_usecs (vd_proposed vd) \<and>
     bi_version (vd_parent vd) \<le> bi_version (vd_proposed vd)"
  by (auto simp: vote_data_verify_def result_simps)

lemma vv_verify_iff:
  "vv_verify vsig vv a m sig = Inr () \<longleftrightarrow> (\<exists>pk. get_public_key vv a = Some pk \<and> vsig pk m sig)"
  by (auto simp: vv_verify_def split: option.splits)

lemma map_option_map_err_ok [result_simps]:
  "map_option (map_err f) r = Some (Inr x) \<longleftrightarrow> r = Some (Inr x)"
  by (cases r) (auto simp: result_simps)

text \<open>A set of signatures that reaches the quorum of a validator set.\<close>

definition signed_by_quorum ::
  "crypto \<Rightarrow> validator_verifier \<Rightarrow> signed_message \<Rightarrow> (address, signature) btree \<Rightarrow> bool" where
  "signed_by_quorum cr vv m sigs \<longleftrightarrow>
     (\<forall>(a, sig)\<in>set sigs. \<exists>pk. get_public_key vv a = Some pk \<and> cr_verify cr pk m sig) \<and>
     vv_quorum_voting_power vv \<le> sum (power_of vv) (fst ` set sigs)"

lemma verify_signatures_iff:
  assumes "verifier_ok vv" and "bt_ok (lis_signatures lis)"
  shows "verify_signatures cr lis vv = Some (Inr ()) \<longleftrightarrow>
    signed_by_quorum cr vv (MLedgerInfo (lis_ledger_info lis)) (lis_signatures lis)"
  using batch_verify_aggregated_eq(1) [OF assms, of "cr_verify cr" "MLedgerInfo (lis_ledger_info lis)"]
    verify_aggregated_iff [OF assms, of "cr_verify cr" "MLedgerInfo (lis_ledger_info lis)"]
  by (simp add: verify_signatures_def verify_each_ok_iff signed_by_quorum_def)

lemma verify_signatures_defined:
  assumes "verifier_ok vv" and "bt_ok (lis_signatures lis)"
  shows "verify_signatures cr lis vv \<noteq> None"
  using batch_verify_aggregated_eq [OF assms, of "cr_verify cr" "MLedgerInfo (lis_ledger_info lis)"]
  by (simp add: verify_signatures_def)

lemma tc_verify_iff:
  assumes "verifier_ok vv" and "bt_ok (tc_signatures tc)"
  shows "tc_verify cr tc vv = Some (Inr ()) \<longleftrightarrow> signed_by_quorum cr vv (MTimeout (tc_timeout tc)) (tc_signatures tc)"
  using verify_aggregated_iff [OF assms, of "cr_verify cr" "MTimeout (tc_timeout tc)"]
  by (simp add: tc_verify_def result_simps verify_each_ok_iff signed_by_quorum_def)

lemma tc_verify_defined:
  assumes "verifier_ok vv" and "bt_ok (tc_signatures tc)"
  shows "tc_verify cr tc vv \<noteq> None"
  using batch_verify_aggregated_eq(2) [OF assms, of "cr_verify cr" "MTimeout (tc_timeout tc)"]
  by (simp add: tc_verify_def)

text \<open>A quorum certificate verifies if and only if it is a genesis certificate or is signed by a quorum.\<close>

definition qc_valid :: "crypto \<Rightarrow> validator_verifier \<Rightarrow> quorum_cert \<Rightarrow> bool" where
  "qc_valid cr vv qc \<longleftrightarrow>
     li_consensus_data_hash (qc_ledger_info qc) = cr_hash_vote_data cr (qc_vote_data qc) \<and>
     (if bi_round (certified_block qc) = 0
      then parent_block qc = certified_block qc \<and> commit_info qc = certified_block qc \<and>
        lis_signatures (qc_signed_ledger_info qc) = []
      else signed_by_quorum cr vv (MLedgerInfo (qc_ledger_info qc)) (lis_signatures (qc_signed_ledger_info qc)) \<and>
        vote_data_verify (qc_vote_data qc) = Inr ())"

lemma quorum_cert_verify_iff:
  assumes "verifier_ok vv" and "bt_ok (lis_signatures (qc_signed_ledger_info qc))"
  shows "quorum_cert_verify cr qc vv = Some (Inr ()) \<longleftrightarrow> qc_valid cr vv qc"
  using verify_signatures_iff [OF assms]
  by (auto simp: quorum_cert_verify_def qc_valid_def result_simps qc_ledger_info_def)

lemma quorum_cert_verify_defined:
  assumes "verifier_ok vv" and "bt_ok (lis_signatures (qc_signed_ledger_info qc))"
  shows "quorum_cert_verify cr qc vv \<noteq> None"
  using verify_signatures_defined [OF assms, of cr]
  by (auto simp: quorum_cert_verify_def ensure_def try_opt_def split: option.splits sum.splits)

lemma signed_by_quorum_is_quorum:
  assumes "verifier_ok vv" and "validators vv \<noteq> {}" and "signed_by_quorum cr vv m sigs"
  shows "is_quorum vv (fst ` set sigs)"
proof -
  have "fst ` set sigs \<subseteq> validators vv"
    using assms(3) by (auto simp: signed_by_quorum_def get_public_key_known)
  then show ?thesis
    using assms check_voting_power_eq [OF assms(1), of "sorted_list_of_set (fst ` set sigs)"]
    by (simp add: is_quorum_def signed_by_quorum_def sum_list_distinct_conv_sum_set)
qed

end
