(* ===== verification/Consensus_Blocks.thy ===== *)
theory Consensus_Blocks
  imports Consensus_Types
begin

text \<open>
  Blocks, sync infos, proposals and vote messages (\<^verbatim>\<open>block_data.rs\<close>, \<^verbatim>\<open>block.rs\<close>, \<^verbatim>\<open>sync_info.rs\<close>,
  \<^verbatim>\<open>proposal_msg.rs\<close>, \<^verbatim>\<open>vote_msg.rs\<close>, \<^verbatim>\<open>vote_proposal.rs\<close>) with their validation, the network handler of
  a proposal, and what the validation guarantees.
\<close>

section \<open>Block data\<close>

definition bd_author :: "block_data \<Rightarrow> address option" where
  "bd_author self = (case bd_block_type self of Proposal payload author \<Rightarrow> Some author | _ \<Rightarrow> None)"

definition bd_parent_id :: "block_data \<Rightarrow> hash" where
  "bd_parent_id self = bi_id (certified_block (bd_quorum_cert self))"

definition bd_payload :: "block_data \<Rightarrow> payload option" where
  "bd_payload self = (case bd_block_type self of Proposal payload author \<Rightarrow> Some payload | _ \<Rightarrow> None)"

definition bd_is_genesis_block :: "block_data \<Rightarrow> bool" where
  "bd_is_genesis_block self \<longleftrightarrow> bd_block_type self = Genesis"

definition bd_is_nil_block :: "block_data \<Rightarrow> bool" where
  "bd_is_nil_block self \<longleftrightarrow> bd_block_type self = NilBlock"

text \<open>\<^verbatim>\<open>u64::to_be_bytes\<close>.\<close>

definition to_be_bytes :: "nat \<Rightarrow> bytes" where
  "to_be_bytes n = map (\<lambda>i. n div 256 ^ (7 - i) mod 256) [0..<8]"

definition vrf_round_seed :: "block_data \<Rightarrow> bytes \<Rightarrow> bytes option" where
  "vrf_round_seed self seed =
     do { r \<leftarrow> add64 (bd_round self) 1;
          let leader_round = r div 3 in Some (seed @ to_be_bytes leader_round) }"

definition block_data_new_genesis :: "nat \<Rightarrow> quorum_cert \<Rightarrow> block_data option" where
  "block_data_new_genesis timestamp_usecs quorum_cert =
     do { epoch \<leftarrow> add64 (bi_epoch (certified_block quorum_cert)) 1;
          Some \<lparr>bd_epoch = epoch, bd_round = 0, bd_timestamp_usecs = timestamp_usecs,
                bd_quorum_cert = quorum_cert, bd_block_type = Genesis\<rparr> }"

definition new_genesis_from_ledger_info :: "ledger_info \<Rightarrow> block_data option" where
  "new_genesis_from_ledger_info ledger_info =
     do { assert_that (li_ends_epoch ledger_info);
          let ancestor = block_info_new (li_epoch ledger_info) 0 0
                (bi_executed_state_id (li_commit_info ledger_info)) (bi_version (li_commit_info ledger_info))
                (bi_timestamp_usecs (li_commit_info ledger_info)) None (bi_pivot (li_commit_info ledger_info));
              genesis_quorum_cert = \<lparr>qc_vote_data = \<lparr>vd_proposed = ancestor, vd_parent = ancestor\<rparr>,
                qc_signed_ledger_info = \<lparr>lis_ledger_info = \<lparr>li_commit_info = ancestor, li_consensus_data_hash = 0\<rparr>,
                  lis_signatures = []\<rparr>\<rparr>
          in block_data_new_genesis (bi_timestamp_usecs (li_commit_info ledger_info)) genesis_quorum_cert }"

definition block_data_new_nil :: "round \<Rightarrow> quorum_cert \<Rightarrow> block_data" where
  "block_data_new_nil round quorum_cert =
     \<lparr>bd_epoch = bi_epoch (certified_block quorum_cert), bd_round = round,
      bd_timestamp_usecs = bi_timestamp_usecs (certified_block quorum_cert),
      bd_quorum_cert = quorum_cert, bd_block_type = NilBlock\<rparr>"

definition block_data_new_proposal ::
  "payload \<Rightarrow> address \<Rightarrow> round \<Rightarrow> nat \<Rightarrow> quorum_cert \<Rightarrow> block_data" where
  "block_data_new_proposal payload author round timestamp_usecs quorum_cert =
     \<lparr>bd_epoch = bi_epoch (certified_block quorum_cert), bd_round = round,
      bd_timestamp_usecs = timestamp_usecs, bd_quorum_cert = quorum_cert,
      bd_block_type = Proposal payload author\<rparr>"

section \<open>Blocks\<close>

definition b_author :: "block \<Rightarrow> address option" where "b_author self = bd_author (b_block_data self)"
definition b_epoch :: "block \<Rightarrow> nat" where "b_epoch self = bd_epoch (b_block_data self)"
definition b_round :: "block \<Rightarrow> round" where "b_round self = bd_round (b_block_data self)"
definition b_quorum_cert :: "block \<Rightarrow> quorum_cert" where "b_quorum_cert self = bd_quorum_cert (b_block_data self)"
definition b_timestamp_usecs :: "block \<Rightarrow> nat" where "b_timestamp_usecs self = bd_timestamp_usecs (b_block_data self)"

definition b_parent_id :: "block \<Rightarrow> hash" where
  "b_parent_id self = bi_id (certified_block (bd_quorum_cert (b_block_data self)))"

definition vrf_proof :: "block \<Rightarrow> vrf_proof option" where
  "vrf_proof self = map_option snd (b_vrf_nonce_and_proof self)"

definition vrf_nonce :: "block \<Rightarrow> nat option" where
  "vrf_nonce self = map_option fst (b_vrf_nonce_and_proof self)"

definition set_vrf_nonce_and_proof :: "block \<Rightarrow> nat \<times> vrf_proof \<Rightarrow> block option" where
  "set_vrf_nonce_and_proof self p =
     do { assert_that (b_vrf_nonce_and_proof self = None); Some (self\<lparr>b_vrf_nonce_and_proof := Some p\<rparr>) }"

definition gen_block_info ::
  "block \<Rightarrow> hash \<Rightarrow> version \<Rightarrow> epoch_state option \<Rightarrow> pivot_block_decision option \<Rightarrow> block_info" where
  "gen_block_info self executed_state_id version next_epoch_state pivot =
     block_info_new (b_epoch self) (b_round self) (b_id self) executed_state_id version
       (b_timestamp_usecs self) next_epoch_state pivot"

definition make_genesis_block_from_ledger_info :: "crypto \<Rightarrow> ledger_info \<Rightarrow> block option" where
  "make_genesis_block_from_ledger_info cr ledger_info =
     do { block_data \<leftarrow> new_genesis_from_ledger_info ledger_info;
          Some \<lparr>b_id = cr_hash_block_data cr block_data, b_block_data = block_data, b_signature = None,
                b_vrf_nonce_and_proof = None\<rparr> }"

definition block_new_nil :: "crypto \<Rightarrow> round \<Rightarrow> quorum_cert \<Rightarrow> block" where
  "block_new_nil cr round quorum_cert =
     (let block_data = block_data_new_nil round quorum_cert in
      \<lparr>b_id = cr_hash_block_data cr block_data, b_block_data = block_data, b_signature = None,
       b_vrf_nonce_and_proof = None\<rparr>)"

definition new_proposal_from_block_data_and_signature ::
  "crypto \<Rightarrow> block_data \<Rightarrow> signature \<Rightarrow> (nat \<times> vrf_proof) option \<Rightarrow> block" where
  "new_proposal_from_block_data_and_signature cr block_data signature vrf_nonce_and_proof =
     \<lparr>b_id = cr_hash_block_data cr block_data, b_block_data = block_data, b_signature = Some signature,
      b_vrf_nonce_and_proof = vrf_nonce_and_proof\<rparr>"

text \<open>A block received from the network: the identifier is computed, the rest is the sender's.\<close>

definition block_from_unchecked ::
  "crypto \<Rightarrow> block_data \<Rightarrow> signature option \<Rightarrow> (nat \<times> vrf_proof) option \<Rightarrow> block" where
  "block_from_unchecked cr block_data signature vrf_nonce_and_proof =
     \<lparr>b_id = cr_hash_block_data cr block_data, b_block_data = block_data, b_signature = signature,
      b_vrf_nonce_and_proof = vrf_nonce_and_proof\<rparr>"

definition validate_signature :: "crypto \<Rightarrow> block \<Rightarrow> validator_verifier \<Rightarrow> (anyhow + unit) option" where
  "validate_signature cr self validator =
     (case bd_block_type (b_block_data self) of
        Genesis \<Rightarrow> Some (Inl (Msg ''We should not accept genesis from others''))
      | NilBlock \<Rightarrow> quorum_cert_verify cr (b_quorum_cert self) validator
      | Proposal payload author \<Rightarrow>
          try_opt (Some (ok_or (b_signature self) (Msg ''Missing signature in Proposal''))) (\<lambda>signature.
          try_opt (Some (map_err Verify
              (vv_verify (cr_verify cr) validator author (MBlockData (b_block_data self)) signature))) (\<lambda>_.
            quorum_cert_verify cr (b_quorum_cert self) validator)))"

definition TIMEBOUND :: nat where "TIMEBOUND = 300000000"

definition block_verify_well_formed :: "crypto \<Rightarrow> nat \<Rightarrow> block \<Rightarrow> (anyhow + unit) option" where
  "block_verify_well_formed cr current_ts self =
     (let parent = certified_block (b_quorum_cert self) in
      try_opt (Some (ensure (\<not> bd_is_genesis_block (b_block_data self))
        (Msg ''We must not accept genesis from others''))) (\<lambda>_.
      try_opt (Some (ensure (bi_round parent < b_round self)
        (Msg ''Block must have a greater round than parent's block''))) (\<lambda>_.
      try_opt (Some (ensure (bi_epoch parent = b_epoch self)
        (Msg ''block's parent should be in the same epoch''))) (\<lambda>_.
      try_opt (Some (if has_reconfiguration parent
          then ensure (case bd_payload (b_block_data self) of None \<Rightarrow> True | Some p \<Rightarrow> p = [])
            (Msg ''Reconfiguration suffix should not carry payload'')
          else Inr ())) (\<lambda>_.
      try_opt (Some (if bd_is_nil_block (b_block_data self) \<or> has_reconfiguration parent
          then ensure (b_timestamp_usecs self = bi_timestamp_usecs parent)
            (Msg ''Nil/reconfig suffix block must have same timestamp as parent'')
          else try_res (ensure (bi_timestamp_usecs parent < b_timestamp_usecs self)
            (Msg ''Blocks must have strictly increasing timestamps'')) (\<lambda>_.
            ensure (b_timestamp_usecs self \<le> saturating_add64 current_ts TIMEBOUND)
            (Msg ''Blocks must not be too far in the future'')))) (\<lambda>_.
      try_opt (Some (ensure (\<not> qc_ends_epoch (b_quorum_cert self))
        (Msg ''Block cannot be proposed in an epoch that has ended''))) (\<lambda>_.
      do { assert_that (b_id self = cr_hash_block_data cr (b_block_data self)); Some (Inr ()) })))))))"

section \<open>Sync infos\<close>

definition sync_info_new ::
  "quorum_cert \<Rightarrow> quorum_cert \<Rightarrow> timeout_certificate option \<Rightarrow> sync_info" where
  "sync_info_new highest_quorum_cert highest_commit_cert highest_timeout_cert =
     \<lparr>sy_highest_quorum_cert = highest_quorum_cert,
      sy_highest_commit_cert =
        (if highest_quorum_cert = highest_commit_cert then None else Some highest_commit_cert),
      sy_highest_timeout_cert =
        (case highest_timeout_cert of
           None \<Rightarrow> None
         | Some tc \<Rightarrow> if bi_round (certified_block highest_quorum_cert) < tc_round tc then Some tc else None)\<rparr>"

definition highest_commit_cert :: "sync_info \<Rightarrow> quorum_cert" where
  "highest_commit_cert self =
     (case sy_highest_commit_cert self of Some c \<Rightarrow> c | None \<Rightarrow> sy_highest_quorum_cert self)"

definition highest_certified_round :: "sync_info \<Rightarrow> round" where
  "highest_certified_round self = bi_round (certified_block (sy_highest_quorum_cert self))"

definition highest_timeout_round :: "sync_info \<Rightarrow> round" where
  "highest_timeout_round self =
     (case sy_highest_timeout_cert self of None \<Rightarrow> 0 | Some tc \<Rightarrow> tc_round tc)"

definition highest_commit_round :: "sync_info \<Rightarrow> round" where
  "highest_commit_round self = bi_round (commit_info (highest_commit_cert self))"

definition highest_round :: "sync_info \<Rightarrow> round" where
  "highest_round self = max (highest_certified_round self) (highest_timeout_round self)"

definition sync_info_epoch :: "sync_info \<Rightarrow> nat" where
  "sync_info_epoch self = bi_epoch (certified_block (sy_highest_quorum_cert self))"

definition has_newer_certificates :: "sync_info \<Rightarrow> sync_info \<Rightarrow> bool" where
  "has_newer_certificates self other \<longleftrightarrow>
     highest_certified_round other < highest_certified_round self \<or>
     highest_timeout_round other < highest_timeout_round self \<or>
     highest_commit_round other < highest_commit_round self"

definition sync_info_verify :: "crypto \<Rightarrow> sync_info \<Rightarrow> validator_verifier \<Rightarrow> (anyhow + unit) option" where
  "sync_info_verify cr self validator =
     (let epoch = bi_epoch (certified_block (sy_highest_quorum_cert self)) in
      try_opt (Some (ensure (epoch = bi_epoch (certified_block (highest_commit_cert self)))
        (Msg ''Multi epoch in SyncInfo - HCC and HQC''))) (\<lambda>_.
      try_opt (Some (case sy_highest_timeout_cert self of
          None \<Rightarrow> Inr ()
        | Some tc \<Rightarrow> ensure (epoch = tc_epoch tc) (Msg ''Multi epoch in SyncInfo - TC and HQC''))) (\<lambda>_.
      try_opt (Some (ensure (bi_round (certified_block (highest_commit_cert self))
            \<le> bi_round (certified_block (sy_highest_quorum_cert self)))
        (Msg ''HQC has lower round than HCC''))) (\<lambda>_.
      try_opt (Some (ensure (commit_info (highest_commit_cert self) \<noteq> block_info_empty)
        (Msg ''HCC has no committed block''))) (\<lambda>_.
      map_option (map_err (Context ''Fail to verify SyncInfo''))
        (try_opt (quorum_cert_verify cr (sy_highest_quorum_cert self) validator) (\<lambda>_.
         try_opt (case sy_highest_commit_cert self of
             None \<Rightarrow> Some (Inr ())
           | Some cert \<Rightarrow> quorum_cert_verify cr cert validator) (\<lambda>_.
         case sy_highest_timeout_cert self of
           None \<Rightarrow> Some (Inr ())
         | Some tc \<Rightarrow> tc_verify cr tc validator))))))))"

section \<open>Proposals and vote messages\<close>

definition proposal_msg_verify_well_formed :: "crypto \<Rightarrow> nat \<Rightarrow> proposal_msg \<Rightarrow> (anyhow + unit) option" where
  "proposal_msg_verify_well_formed cr current_ts self =
     (let proposal = pm_proposal self; sync_info = pm_sync_info self in
      try_opt (Some (ensure (\<not> bd_is_nil_block (b_block_data proposal)) (Msg ''Proposal for a NIL block''))) (\<lambda>_.
      try_opt (map_option (map_err (Context ''Fail to verify ProposalMsg's block''))
        (block_verify_well_formed cr current_ts proposal)) (\<lambda>_.
      try_opt (Some (ensure (0 < b_round proposal) (Msg ''Proposal has an incorrect round of 0''))) (\<lambda>_.
      try_opt (Some (ensure (b_epoch proposal = sync_info_epoch sync_info)
        (Msg ''ProposalMsg has different epoch number from SyncInfo''))) (\<lambda>_.
      try_opt (Some (ensure (b_parent_id proposal = bi_id (certified_block (sy_highest_quorum_cert sync_info)))
        (Msg ''Proposal HQC in SyncInfo certifies another block than the parent''))) (\<lambda>_.
      try_opt (Some (ok_or (sub64 (b_round proposal) 1) (Msg ''proposal round overflowed!''))) (\<lambda>previous_round.
      let certified_round = max (bi_round (certified_block (b_quorum_cert proposal)))
            (case sy_highest_timeout_cert sync_info of None \<Rightarrow> 0 | Some tc \<Rightarrow> tc_round tc) in
      try_opt (Some (ensure (previous_round = certified_round)
        (Msg ''Proposal does not have a certified round''))) (\<lambda>_.
      Some (ensure (b_author proposal \<noteq> None) (Msg ''Proposal does not define an author''))))))))))"

definition proposal_msg_verify ::
  "crypto \<Rightarrow> nat \<Rightarrow> proposal_msg \<Rightarrow> validator_verifier \<Rightarrow> bytes \<Rightarrow> (anyhow + unit) option" where
  "proposal_msg_verify cr current_ts self validator epoch_vrf_seed =
     try_opt (validate_signature cr (pm_proposal self) validator) (\<lambda>_.
     try_opt (case vrf_proof (pm_proposal self) of
         None \<Rightarrow> Some (Inr ())
       | Some proof' \<Rightarrow>
           do { author \<leftarrow> b_author (pm_proposal self);
                seed \<leftarrow> vrf_round_seed (b_block_data (pm_proposal self)) epoch_vrf_seed;
                Some (map_err Verify (verify_vrf (cr_verify_proof cr) validator author seed proof')) }) (\<lambda>_.
     try_opt (case sy_highest_timeout_cert (pm_sync_info self) of
         None \<Rightarrow> Some (Inr ())
       | Some tc \<Rightarrow> tc_verify cr tc validator) (\<lambda>_.
     proposal_msg_verify_well_formed cr current_ts self)))"

definition proposer :: "proposal_msg \<Rightarrow> address option" where
  "proposer self = b_author (pm_proposal self)"

text \<open>
  The network handler of a proposal (\<^verbatim>\<open>protocol/message/proposal.rs\<close>): it asks for the proposer and
  queues the message for the consensus task, where it will be verified. \<open>queue\<close> is the channel.
\<close>

definition handle_proposal_msg ::
  "address \<Rightarrow> proposal_msg \<Rightarrow> (address \<times> address \<times> proposal_msg) list \<Rightarrow>
     (address \<times> address \<times> proposal_msg) list option" where
  "handle_proposal_msg peer_address self queue =
     do { author \<leftarrow> proposer self; Some (queue @ [(author, peer_address, self)]) }"

definition vote_msg_epoch :: "vote_msg \<Rightarrow> nat" where
  "vote_msg_epoch self = vote_epoch (vm_vote self)"

definition vote_msg_verify :: "crypto \<Rightarrow> vote_msg \<Rightarrow> validator_verifier \<Rightarrow> anyhow + unit" where
  "vote_msg_verify cr self validator =
     try_res (ensure (vote_epoch (vm_vote self) = sync_info_epoch (vm_sync_info self))
       (Msg ''VoteMsg has different epoch'')) (\<lambda>_.
     vote_verify cr (vm_vote self) validator)"

record vote_proposal =
  vp_accumulator_extension_proof :: accumulator_extension_proof
  vp_block :: block
  vp_next_epoch_state :: "epoch_state option"
  vp_pivot_decision :: "pivot_block_decision option"

record maybe_signed_vote_proposal =
  mp_vote_proposal :: vote_proposal
  mp_signature :: "signature option"

section \<open>Properties\<close>

text \<open>Signature maps of a message are ordered maps.\<close>

definition proposal_maps_ok :: "proposal_msg \<Rightarrow> bool" where
  "proposal_maps_ok pm \<longleftrightarrow>
     bt_ok (lis_signatures (qc_signed_ledger_info (b_quorum_cert (pm_proposal pm)))) \<and>
     (case sy_highest_timeout_cert (pm_sync_info pm) of None \<Rightarrow> True | Some tc \<Rightarrow> bt_ok (tc_signatures tc))"

lemma block_verify_well_formed_iff:
  "block_verify_well_formed cr now b = Some (Inr ()) \<longleftrightarrow>
     (let parent = certified_block (b_quorum_cert b) in
      bd_block_type (b_block_data b) \<noteq> Genesis \<and> bi_round parent < b_round b \<and> bi_epoch parent = b_epoch b \<and>
      (has_reconfiguration parent \<longrightarrow> bd_payload (b_block_data b) \<in> {None, Some []}) \<and>
      (if bd_block_type (b_block_data b) = NilBlock \<or> has_reconfiguration parent
       then b_timestamp_usecs b = bi_timestamp_usecs parent
       else bi_timestamp_usecs parent < b_timestamp_usecs b \<and>
         b_timestamp_usecs b \<le> saturating_add64 now TIMEBOUND) \<and>
      \<not> qc_ends_epoch (b_quorum_cert b) \<and> b_id b = cr_hash_block_data cr (b_block_data b))"
  by (auto simp: block_verify_well_formed_def Let_def result_simps option_bind_simps u64_simps
      bd_is_genesis_block_def bd_is_nil_block_def split: if_splits option.splits)

text \<open>
  C38. A message whose block is not a proposal is never accepted by the verification of proposals,
  whatever keys, clock and validator set, but the network handler, which runs before the
  verification, panics on it: it asks the unverified message for its proposer.
\<close>

theorem unverified_proposal_panics:
  assumes "\<forall>payload author. bd_block_type (b_block_data (pm_proposal pm)) \<noteq> Proposal payload author"
  shows "proposal_msg_verify cr now pm vv seed \<noteq> Some (Inr ()) \<and> handle_proposal_msg peer pm queue = None"
proof -
  have a: "b_author (pm_proposal pm) = None"
    using assms by (auto simp: b_author_def bd_author_def split: block_type.splits)
  then have "proposal_msg_verify_well_formed cr now pm \<noteq> Some (Inr ())"
    by (auto simp: proposal_msg_verify_well_formed_def Let_def result_simps)
  then show ?thesis
    using a by (auto simp: proposal_msg_verify_def handle_proposal_msg_def proposer_def result_simps)
qed

text \<open>A well-formed environment for the examples: signatures and hashes that are easy to evaluate.\<close>

definition sample_crypto :: crypto where
  "sample_crypto = \<lparr>cr_verify = (\<lambda>pk m sig. sig = pk), cr_hash_vote_data = (\<lambda>vd. bi_round (vd_proposed vd)),
     cr_hash_block_data = (\<lambda>bd. 1000 + bd_round bd), cr_verify_proof = (\<lambda>pk seed p. True)\<rparr>"

definition sample_qc :: "round \<Rightarrow> quorum_cert" where
  "sample_qc r = \<lparr>qc_vote_data =
      \<lparr>vd_proposed = block_info_empty\<lparr>bi_epoch := 1, bi_round := r, bi_id := 1000 + r, bi_timestamp_usecs := r\<rparr>,
       vd_parent = block_info_empty\<lparr>bi_epoch := 1, bi_round := r - 1, bi_id := 999 + r, bi_timestamp_usecs := r - 1\<rparr>\<rparr>,
     qc_signed_ledger_info = \<lparr>lis_ledger_info = \<lparr>li_commit_info = block_info_empty, li_consensus_data_hash = r\<rparr>,
       lis_signatures = [(2, 20), (3, 30), (4, 40)]\<rparr>\<rparr>"

definition sample_nil_msg :: proposal_msg where
  "sample_nil_msg = \<lparr>pm_proposal = (block_new_nil sample_crypto 6 (sample_qc 5))\<lparr>b_vrf_nonce_and_proof := Some (0, 7)\<rparr>,
     pm_sync_info = \<lparr>sy_highest_quorum_cert = sample_qc 5, sy_highest_commit_cert = None,
       sy_highest_timeout_cert = None\<rparr>\<rparr>"

theorem unverified_proposal_panics_witness:
  "proposal_msg_verify sample_crypto 100 sample_nil_msg sample_verifier [] \<noteq> Some (Inr ()) \<and>
   handle_proposal_msg 2 sample_nil_msg [] = None"
  by (rule unverified_proposal_panics) (simp add: sample_nil_msg_def block_new_nil_def block_data_new_nil_def Let_def)

text \<open>
  C10. What an accepted proposal guarantees: it is a proposal of a validator whose signature on the
  block verifies; its certificate is valid for the validator set, is of the block's epoch and certifies
  its parent; the round is one more than the highest round the message carries a certificate for
  (a quorum certificate or a timeout certificate signed by a quorum); the timestamp grows unless the
  parent ends the epoch; and an attached VRF proof verifies for its author.
\<close>

theorem accepted_proposal_sound:
  assumes "proposal_msg_verify cr now pm vv seed = Some (Inr ())" and "verifier_ok vv" and "proposal_maps_ok pm"
  shows "\<exists>payload author pk sig.
    bd_block_type (b_block_data (pm_proposal pm)) = Proposal payload author \<and>
    get_public_key vv author = Some pk \<and> b_signature (pm_proposal pm) = Some sig \<and>
    cr_verify cr pk (MBlockData (b_block_data (pm_proposal pm))) sig \<and>
    qc_valid cr vv (b_quorum_cert (pm_proposal pm)) \<and>
    bi_epoch (certified_block (b_quorum_cert (pm_proposal pm))) = b_epoch (pm_proposal pm) \<and>
    b_parent_id (pm_proposal pm) = bi_id (certified_block (sy_highest_quorum_cert (pm_sync_info pm))) \<and>
    b_round (pm_proposal pm) = Suc (max (bi_round (certified_block (b_quorum_cert (pm_proposal pm))))
      (highest_timeout_round (pm_sync_info pm))) \<and>
    (\<forall>tc. sy_highest_timeout_cert (pm_sync_info pm) = Some tc \<longrightarrow>
       signed_by_quorum cr vv (MTimeout (tc_timeout tc)) (tc_signatures tc)) \<and>
    (if has_reconfiguration (certified_block (b_quorum_cert (pm_proposal pm)))
     then payload = [] \<and>
       b_timestamp_usecs (pm_proposal pm) = bi_timestamp_usecs (certified_block (b_quorum_cert (pm_proposal pm)))
     else bi_timestamp_usecs (certified_block (b_quorum_cert (pm_proposal pm))) < b_timestamp_usecs (pm_proposal pm)) \<and>
    (\<forall>p. vrf_proof (pm_proposal pm) = Some p \<longrightarrow>
       (\<exists>k round_seed. get_vrf_public_key vv author = Some (Some k) \<and>
          vrf_round_seed (b_block_data (pm_proposal pm)) seed = Some round_seed \<and> cr_verify_proof cr k round_seed p))"
proof -
  let ?b = "pm_proposal pm" and ?tc = "sy_highest_timeout_cert (pm_sync_info pm)"
  have v: "validate_signature cr ?b vv = Some (Inr ())"
    and vrf: "\<And>p. vrf_proof ?b = Some p \<Longrightarrow> \<exists>author round_seed. b_author ?b = Some author \<and>
      vrf_round_seed (b_block_data ?b) seed = Some round_seed \<and>
      verify_vrf (cr_verify_proof cr) vv author round_seed p = Inr ()"
    and tc: "\<And>tc. ?tc = Some tc \<Longrightarrow> tc_verify cr tc vv = Some (Inr ())"
    and wf: "proposal_msg_verify_well_formed cr now pm = Some (Inr ())"
    using assms(1) by (auto simp: proposal_msg_verify_def result_simps option_bind_simps split: option.splits)
  have maps: "bt_ok (lis_signatures (qc_signed_ledger_info (b_quorum_cert ?b)))"
    "\<And>tc. ?tc = Some tc \<Longrightarrow> bt_ok (tc_signatures tc)"
    using assms(3) by (auto simp: proposal_maps_ok_def)
  have w: "block_verify_well_formed cr now ?b = Some (Inr ())" "b_author ?b \<noteq> None"
    "b_parent_id ?b = bi_id (certified_block (sy_highest_quorum_cert (pm_sync_info pm)))"
    "b_round ?b = Suc (max (bi_round (certified_block (b_quorum_cert ?b))) (highest_timeout_round (pm_sync_info pm)))"
    using wf by (auto simp: proposal_msg_verify_well_formed_def Let_def result_simps sub64_Some_iff highest_timeout_round_def)
  obtain payload author where ty: "bd_block_type (b_block_data ?b) = Proposal payload author"
    using w(2) by (auto simp: b_author_def bd_author_def split: block_type.splits)
  then have author: "b_author ?b = Some author" and pay: "bd_payload (b_block_data ?b) = Some payload"
    by (simp_all add: b_author_def bd_author_def bd_payload_def)
  obtain pk sig where "get_public_key vv author = Some pk" "b_signature ?b = Some sig"
    "cr_verify cr pk (MBlockData (b_block_data ?b)) sig" "qc_valid cr vv (b_quorum_cert ?b)"
    using v quorum_cert_verify_iff [OF assms(2) maps(1), of cr]
    by (auto simp: validate_signature_def ty result_simps vv_verify_iff)
  moreover have "\<forall>tc. ?tc = Some tc \<longrightarrow> signed_by_quorum cr vv (MTimeout (tc_timeout tc)) (tc_signatures tc)"
    using tc maps(2) tc_verify_iff [OF assms(2)] by blast
  moreover have "\<forall>p. vrf_proof ?b = Some p \<longrightarrow> (\<exists>k round_seed. get_vrf_public_key vv author = Some (Some k) \<and>
          vrf_round_seed (b_block_data ?b) seed = Some round_seed \<and> cr_verify_proof cr k round_seed p)"
    using vrf author by (fastforce simp: verify_vrf_def split: option.splits if_splits)
  ultimately show ?thesis
    using w ty pay by (auto simp: block_verify_well_formed_iff Let_def)
qed

definition sample_proposal_msg :: proposal_msg where
  "sample_proposal_msg = \<lparr>pm_proposal = new_proposal_from_block_data_and_signature sample_crypto
      (block_data_new_proposal [[1]] 2 6 6 (sample_qc 5)) 20 None,
     pm_sync_info = \<lparr>sy_highest_quorum_cert = sample_qc 5, sy_highest_commit_cert = None,
       sy_highest_timeout_cert = None\<rparr>\<rparr>"

lemmas message_code =
  proposal_msg_verify_def validate_signature_def proposal_msg_verify_well_formed_def block_verify_well_formed_def
  sample_proposal_msg_def sample_qc_def sample_crypto_def new_proposal_from_block_data_and_signature_def
  block_data_new_proposal_def b_quorum_cert_def b_round_def b_epoch_def b_timestamp_usecs_def b_author_def
  bd_author_def bd_payload_def bd_is_genesis_block_def bd_is_nil_block_def b_parent_id_def vrf_proof_def
  certified_block_def parent_block_def commit_info_def qc_ledger_info_def qc_ends_epoch_def li_ends_epoch_def
  block_info_empty_def has_reconfiguration_def sync_info_epoch_def quorum_cert_verify_def verify_signatures_def
  batch_verify_aggregated_signatures_def check_num_of_signatures_def vv_len_def vote_data_verify_def
  vv_verify_def get_public_key_def verifier_code sub64_def saturating_add64_def TIMEBOUND_def List.map_filter_def

lemma sample_proposal_accepted: "proposal_msg_verify sample_crypto 100 sample_proposal_msg sample_verifier [] = Some (Inr ())"
  by (simp add: message_code)

lemma sample_verifier_ok: "verifier_ok sample_verifier"
  by (simp add: verifier_ok_def sample_verifier_def bt_ok_def sample_info_def U64_MAX_def)

theorem accepted_proposal_sound_witness:
  "\<exists>payload author pk sig.
    bd_block_type (b_block_data (pm_proposal sample_proposal_msg)) = Proposal payload author \<and>
    get_public_key sample_verifier author = Some pk \<and> b_signature (pm_proposal sample_proposal_msg) = Some sig \<and>
    cr_verify sample_crypto pk (MBlockData (b_block_data (pm_proposal sample_proposal_msg))) sig \<and>
    qc_valid sample_crypto sample_verifier (b_quorum_cert (pm_proposal sample_proposal_msg))"
proof -
  have "proposal_maps_ok sample_proposal_msg"
    by (simp add: proposal_maps_ok_def message_code bt_ok_def)
  from accepted_proposal_sound [OF sample_proposal_accepted sample_verifier_ok this] show ?thesis
    by blast
qed

text \<open>
  The genesis of an epoch: from a ledger info that ends an epoch, the genesis block and its
  certificate are built without a panic (while the epoch number fits), both carry the next epoch, the
  certificate is valid for every validator set, and a NIL block on top of it is well formed
  whatever the clock says.
\<close>

theorem genesis_certificate_valid:
  assumes "li_ends_epoch li" and "li_epoch li < U64_MAX" and "0 < r"
  shows "\<exists>g qc. make_genesis_block_from_ledger_info cr li = Some g \<and>
    certificate_for_genesis_from_ledger_info cr li (b_id g) = Some qc \<and>
    b_epoch g = Suc (li_epoch li) \<and> bi_epoch (certified_block qc) = Suc (li_epoch li) \<and>
    bi_id (certified_block qc) = b_id g \<and>
    (\<forall>vv. quorum_cert_verify cr qc vv = Some (Inr ())) \<and>
    (\<forall>now. block_verify_well_formed cr now (block_new_nil cr r qc) = Some (Inr ()))"
  using assms
  by (auto simp: make_genesis_block_from_ledger_info_def new_genesis_from_ledger_info_def Let_def
      block_data_new_genesis_def certificate_for_genesis_from_ledger_info_def add64_def certified_block_def
      block_info_new_def b_epoch_def quorum_cert_verify_def qc_ledger_info_def parent_block_def commit_info_def
      block_verify_well_formed_iff block_new_nil_def block_data_new_nil_def b_quorum_cert_def b_round_def
      b_timestamp_usecs_def has_reconfiguration_def qc_ends_epoch_def li_ends_epoch_def bd_payload_def)

theorem genesis_certificate_valid_witness:
  "\<exists>g qc. make_genesis_block_from_ledger_info sample_crypto \<lparr>li_commit_info =
        block_info_empty\<lparr>bi_next_epoch_state := Some \<lparr>es_epoch = 1, es_verifier = sample_verifier, es_vrf_seed = []\<rparr>\<rparr>,
        li_consensus_data_hash = 0\<rparr> = Some g \<and>
     certificate_for_genesis_from_ledger_info sample_crypto \<lparr>li_commit_info =
        block_info_empty\<lparr>bi_next_epoch_state := Some \<lparr>es_epoch = 1, es_verifier = sample_verifier, es_vrf_seed = []\<rparr>\<rparr>,
        li_consensus_data_hash = 0\<rparr> (b_id g) = Some qc \<and> b_epoch g = 1 \<and>
     block_verify_well_formed sample_crypto 0 (block_new_nil sample_crypto 1 qc) = Some (Inr ())"
proof -
  let ?li = "\<lparr>li_commit_info =
        block_info_empty\<lparr>bi_next_epoch_state := Some \<lparr>es_epoch = 1, es_verifier = sample_verifier, es_vrf_seed = []\<rparr>\<rparr>,
        li_consensus_data_hash = 0\<rparr>"
  have "li_ends_epoch ?li" "li_epoch ?li = 0"
    by (simp_all add: li_ends_epoch_def li_epoch_def block_info_empty_def)
  then show ?thesis
    using genesis_certificate_valid [of ?li 1 sample_crypto] by fastforce
qed

end
