(* ===== verification/Secure_Storage.thy ===== *)
theory Secure_Storage
  imports Consensus_Blocks
begin

text \<open>
  The storage of the safety rules: the key-value stores of \<^verbatim>\<open>secure/storage\<close> and
  \<^verbatim>\<open>persistent_safety_storage.rs\<close>. A store is a map from names to values; the on-disk store keeps it
  in one file, and stopping or starting to vote renames that file. The value of a file system write or
  rename that fails is the argument \<open>io\<close> of the operation: \<open>False\<close> means that the operating system
  reports an error and the files stay as they are.
\<close>

type_synonym private_key = nat

datatype stored_value = VSafetyData safety_data | VAccount address | VKey private_key

type_synonym store_file = "string \<rightharpoonup> stored_value"

definition SAFETY_DATA :: string where "SAFETY_DATA = ''safety_data''"
definition OWNER_ACCOUNT :: string where "OWNER_ACCOUNT = ''owner_account''"
definition CONSENSUS_KEY :: string where "CONSENSUS_KEY = ''consensus''"
definition EXECUTION_KEY :: string where "EXECUTION_KEY = ''execution''"

section \<open>Key-value stores\<close>

datatype storage_error =
  StInternalError string
| StKeyNotSet string
| StSerializationError string
| StKeyVersionNotFound string

datatype storage_kind = InMemoryStorage | OnDiskStorage

text \<open>
  \<open>st_main\<close> is the content of the file at \<open>file_path\<close> (of the map, in memory), \<open>st_save\<close> that of the
  file with the suffix \<^verbatim>\<open>json.save\<close>; \<open>None\<close> is a file that does not exist.
\<close>

record storage =
  st_kind :: storage_kind
  st_main :: "store_file option"
  st_save :: "store_file option"

definition file_get :: "store_file option \<Rightarrow> string \<Rightarrow> storage_error + stored_value" where
  "file_get file key =
     (case file of
        None \<Rightarrow> Inl (StInternalError ''No such file or directory'')
      | Some data \<Rightarrow> ok_or (data key) (StKeyNotSet key))"

definition storage_get :: "storage \<Rightarrow> string \<Rightarrow> storage_error + stored_value" where
  "storage_get self key = file_get (st_main self) key"

text \<open>The JSON value of one type does not deserialize as another.\<close>

definition as_safety_data :: "stored_value \<Rightarrow> storage_error + safety_data" where
  "as_safety_data v = (case v of VSafetyData d \<Rightarrow> Inr d | _ \<Rightarrow> Inl (StSerializationError ''invalid type''))"

definition as_account :: "stored_value \<Rightarrow> storage_error + address" where
  "as_account v = (case v of VAccount a \<Rightarrow> Inr a | _ \<Rightarrow> Inl (StSerializationError ''invalid type''))"

definition as_key :: "stored_value \<Rightarrow> storage_error + private_key" where
  "as_key v = (case v of VKey k \<Rightarrow> Inr k | _ \<Rightarrow> Inl (StSerializationError ''invalid type''))"

text \<open>No store holds a value that was serialized from a \<^verbatim>\<open>Result\<close>, so none deserializes as one.\<close>

definition as_result_safety_data :: "stored_value \<Rightarrow> storage_error + ('e + safety_data)" where
  "as_result_safety_data v = Inl (StSerializationError ''unknown variant'')"

definition storage_set :: "bool \<Rightarrow> storage \<Rightarrow> string \<Rightarrow> stored_value \<Rightarrow> storage \<times> (storage_error + unit)" where
  "storage_set io self key value =
     (case st_main self of
        None \<Rightarrow> (self, Inl (StInternalError ''No such file or directory''))
      | Some data \<Rightarrow>
          if st_kind self = OnDiskStorage \<and> \<not> io then (self, Inl (StInternalError ''write failed''))
          else (self\<lparr>st_main := Some (data(key \<mapsto> value))\<rparr>, Inr ()))"

text \<open>\<^verbatim>\<open>OnDiskStorage::new\<close>: creates an empty file if there is none.\<close>

definition on_disk_storage_new :: "store_file option \<Rightarrow> store_file" where
  "on_disk_storage_new file = (case file of None \<Rightarrow> Map.empty | Some f \<Rightarrow> f)"

definition export_private_key_for_version ::
  "(private_key \<Rightarrow> public_key) \<Rightarrow> storage \<Rightarrow> string \<Rightarrow> public_key \<Rightarrow> storage_error + private_key" where
  "export_private_key_for_version public_key self name version =
     try_res (try_res (storage_get self name) as_key) (\<lambda>current_private_key.
     if public_key current_private_key = version then Inr current_private_key
     else case try_res (storage_get self (name @ ''_previous'')) as_key of
            Inr previous_private_key \<Rightarrow>
              if public_key previous_private_key = version then Inr previous_private_key
              else Inl (StKeyVersionNotFound name)
          | Inl (StKeyNotSet _) \<Rightarrow> Inl (StKeyVersionNotFound name)
          | Inl e \<Rightarrow> Inl e)"

section \<open>Errors of the safety rules\<close>

datatype error =
  IncorrectEpoch nat nat
| IncorrectRound nat
| IncorrectLastVotedRound nat nat
| IncorrectPreferredRound nat nat
| InvalidAccumulatorExtension string
| InternalError string
| InvalidProposal string
| InvalidQuorumCertificate anyhow
| NotInitialized string
| SecureStorageMissingDataError string
| SecureStorageUnexpectedError string
| ValidatorKeyNotFound string
| VoteProposalSignatureNotFound

definition from_storage_error :: "storage_error \<Rightarrow> error" where
  "from_storage_error e =
     (case e of
        StKeyVersionNotFound n \<Rightarrow> SecureStorageMissingDataError n
      | StKeyNotSet n \<Rightarrow> SecureStorageMissingDataError n
      | StInternalError m \<Rightarrow> SecureStorageUnexpectedError m
      | StSerializationError m \<Rightarrow> SecureStorageUnexpectedError m)"

section \<open>The persistent safety storage\<close>

record persistent_safety_storage =
  ps_enable_cached_safety_data :: bool
  ps_cached_safety_data :: "safety_data option"
  ps_internal_store :: storage
  ps_private_key :: private_key

definition genesis_safety_data :: safety_data where
  "genesis_safety_data = \<lparr>sd_epoch = 1, sd_last_voted_round = 0, sd_preferred_round = 0, sd_last_vote = None\<rparr>"

definition initialize_store ::
  "bool \<Rightarrow> bool \<Rightarrow> storage \<Rightarrow> safety_data \<Rightarrow> address \<Rightarrow> storage \<times> (error + safety_data)" where
  "initialize_store io1 io2 internal_store safety_data author =
     (case try_res (storage_get internal_store SAFETY_DATA) as_safety_data of
        Inr d \<Rightarrow> (internal_store, Inr d)
      | Inl _ \<Rightarrow>
          (case storage_set io1 internal_store SAFETY_DATA (VSafetyData safety_data) of
             (s1, Inl e) \<Rightarrow> (s1, Inl (from_storage_error e))
           | (s1, Inr _) \<Rightarrow>
               (case storage_set io2 s1 OWNER_ACCOUNT (VAccount author) of
                  (s2, Inl e) \<Rightarrow> (s2, Inl (from_storage_error e))
                | (s2, Inr _) \<Rightarrow> (s2, Inr safety_data))))"

definition storage_initialize ::
  "bool \<Rightarrow> bool \<Rightarrow> storage \<Rightarrow> address \<Rightarrow> private_key \<Rightarrow> bool \<Rightarrow> persistent_safety_storage option" where
  "storage_initialize io1 io2 internal_store author private_key enable_cached_safety_data =
     (case initialize_store io1 io2 internal_store genesis_safety_data author of
        (s, Inl _) \<Rightarrow> None
      | (s, Inr d) \<Rightarrow> Some \<lparr>ps_enable_cached_safety_data = enable_cached_safety_data,
          ps_cached_safety_data = Some d, ps_internal_store = s, ps_private_key = private_key\<rparr>)"

definition storage_author :: "persistent_safety_storage \<Rightarrow> error + address" where
  "storage_author self =
     map_err from_storage_error (try_res (storage_get (ps_internal_store self) OWNER_ACCOUNT) as_account)"

definition replace_with_suffix ::
  "bool \<Rightarrow> persistent_safety_storage \<Rightarrow> persistent_safety_storage \<times> (error + unit)" where
  "replace_with_suffix io self =
     (let st = ps_internal_store self in
      if st_kind st = OnDiskStorage
      then case st_save st of
             None \<Rightarrow> (self, Inl (SecureStorageUnexpectedError ''new secure storage path incorrect''))
           | Some new_file \<Rightarrow>
               (case try_res (file_get (st_main st) OWNER_ACCOUNT) as_account of
                  Inl e \<Rightarrow> (self, Inl (from_storage_error e))
                | Inr old_account \<Rightarrow>
                    (case try_res (file_get (Some new_file) OWNER_ACCOUNT) as_account of
                       Inl e \<Rightarrow> (self, Inl (from_storage_error e))
                     | Inr new_account \<Rightarrow>
                         if old_account \<noteq> new_account
                         then (self, Inl (SecureStorageUnexpectedError ''account mismatch''))
                         else if \<not> io then (self, Inl (InternalError ''rename failed''))
                         else
                           let self' = self\<lparr>ps_internal_store := st\<lparr>st_main := Some new_file, st_save := None\<rparr>\<rparr> in
                           case try_res (file_get (Some new_file) SAFETY_DATA) as_safety_data of
                             Inl e \<Rightarrow> (self', Inl (from_storage_error e))
                           | Inr d \<Rightarrow> (self'\<lparr>ps_cached_safety_data := Some d\<rparr>, Inr ())))
      else (self, Inl (InternalError ''unsupported secure storage type'')))"

definition save_to_suffix ::
  "bool \<Rightarrow> persistent_safety_storage \<Rightarrow> persistent_safety_storage \<times> (error + unit)" where
  "save_to_suffix io self =
     (let st = ps_internal_store self in
      if st_kind st = OnDiskStorage
      then if st_main st = None \<or> \<not> io then (self, Inl (InternalError ''rename failed''))
           else (self\<lparr>ps_internal_store := st\<lparr>st_main := None, st_save := st_main st\<rparr>\<rparr>, Inr ())
      else (self, Inl (InternalError ''unsupported secure storage type'')))"

definition consensus_key_for_version ::
  "(private_key \<Rightarrow> public_key) \<Rightarrow> persistent_safety_storage \<Rightarrow> public_key \<Rightarrow> error + private_key" where
  "consensus_key_for_version public_key self version =
     (if public_key (ps_private_key self) = version then Inr (ps_private_key self)
      else map_err from_storage_error
        (export_private_key_for_version public_key (ps_internal_store self) CONSENSUS_KEY version))"

definition storage_sign ::
  "(private_key \<Rightarrow> public_key) \<Rightarrow> (private_key \<Rightarrow> signed_message \<Rightarrow> signature) \<Rightarrow>
     persistent_safety_storage \<Rightarrow> string \<Rightarrow> public_key \<Rightarrow> signed_message \<Rightarrow> error + signature" where
  "storage_sign public_key sign self key_name key_version message =
     (if key_name = CONSENSUS_KEY \<or> key_name = EXECUTION_KEY
      then Inr (sign (ps_private_key self) message)
      else try_res (map_err from_storage_error
          (export_private_key_for_version public_key (ps_internal_store self) key_name key_version))
        (\<lambda>k. Inr (sign k message)))"

text \<open>
  Without the cache the source returns the stored value at the type \<^verbatim>\<open>Result<SafetyData, Error>\<close> of
  the function: the value has to deserialize as a \<^verbatim>\<open>Result\<close>.
\<close>

definition storage_safety_data ::
  "persistent_safety_storage \<Rightarrow> persistent_safety_storage \<times> (error + safety_data)" where
  "storage_safety_data self =
     (if \<not> ps_enable_cached_safety_data self
      then (self, case try_res (storage_get (ps_internal_store self) SAFETY_DATA) as_result_safety_data of
                    Inl e \<Rightarrow> Inl (from_storage_error e)
                  | Inr r \<Rightarrow> r)
      else case ps_cached_safety_data self of
             Some cached_safety_data \<Rightarrow> (self, Inr cached_safety_data)
           | None \<Rightarrow>
               (case try_res (storage_get (ps_internal_store self) SAFETY_DATA) as_safety_data of
                  Inl e \<Rightarrow> (self, Inl (from_storage_error e))
                | Inr d \<Rightarrow> (self\<lparr>ps_cached_safety_data := Some d\<rparr>, Inr d)))"

definition set_safety_data ::
  "bool \<Rightarrow> persistent_safety_storage \<Rightarrow> safety_data \<Rightarrow> persistent_safety_storage \<times> (error + unit)" where
  "set_safety_data io self data =
     (case storage_set io (ps_internal_store self) SAFETY_DATA (VSafetyData data) of
        (s, Inr _) \<Rightarrow> (self\<lparr>ps_internal_store := s, ps_cached_safety_data := Some data\<rparr>, Inr ())
      | (s, Inl e) \<Rightarrow> (self\<lparr>ps_internal_store := s, ps_cached_safety_data := None\<rparr>,
                       Inl (SecureStorageUnexpectedError ''set failed'')))"

end
