(* ===== verification/Safety_Rules.thy ===== *)
theory Safety_Rules
  imports Secure_Storage
begin

text \<open>
  The voting rules of a validator (\<^verbatim>\<open>safety_rules.rs\<close>, \<^verbatim>\<open>configurable_validator_signer.rs\<close>,
  \<^verbatim>\<open>consensus_state.rs\<close>): every message the validator signs goes through them. The first voting rule is
  that rounds increase, the second that the certified round of the proposal is not below the preferred
  round; a vote commits the grandparent of the proposal when the three rounds are consecutive. The
  record \<open>env\<close> collects the external functions and the hard-coded committees.
\<close>

record env =
  en_crypto :: crypto
  en_hardcoded :: "nat \<rightharpoonup> validator_verifier"
  en_node_hash :: "hash \<Rightarrow> hash \<Rightarrow> hash"
  en_placeholder :: hash
  en_public_key :: "private_key \<Rightarrow> public_key"
  en_sign :: "private_key \<Rightarrow> signed_message \<Rightarrow> signature"
  en_verify_vote_proposal :: "public_key \<Rightarrow> vote_proposal \<Rightarrow> signature \<Rightarrow> bool"

section \<open>State\<close>

datatype validator_signer = Signer address private_key | Handle address public_key

definition signer_author :: "validator_signer \<Rightarrow> address" where
  "signer_author self = (case self of Signer a k \<Rightarrow> a | Handle a v \<Rightarrow> a)"

definition signer_public_key :: "env \<Rightarrow> validator_signer \<Rightarrow> public_key" where
  "signer_public_key en self = (case self of Signer a k \<Rightarrow> en_public_key en k | Handle a v \<Rightarrow> v)"

definition signer_sign ::
  "env \<Rightarrow> validator_signer \<Rightarrow> signed_message \<Rightarrow> persistent_safety_storage \<Rightarrow> error + signature" where
  "signer_sign en self message storage =
     (case self of
        Signer a k \<Rightarrow> Inr (en_sign en k message)
      | Handle a v \<Rightarrow> storage_sign (en_public_key en) (en_sign en) storage CONSENSUS_KEY v message)"

record safety_rules =
  sr_persistent_storage :: persistent_safety_storage
  sr_execution_public_key :: "public_key option"
  sr_export_consensus_key :: bool
  sr_validator_signer :: "validator_signer option"
  sr_epoch_state :: "epoch_state option"

definition safety_rules_new :: "persistent_safety_storage \<Rightarrow> bool \<Rightarrow> safety_rules" where
  "safety_rules_new persistent_storage export_consensus_key =
     \<lparr>sr_persistent_storage = persistent_storage, sr_execution_public_key = None,
      sr_export_consensus_key = export_consensus_key, sr_validator_signer = None, sr_epoch_state = None\<rparr>"

definition signer :: "safety_rules \<Rightarrow> error + validator_signer" where
  "signer self = ok_or (sr_validator_signer self) (NotInitialized ''validator_signer'')"

definition epoch_state_of :: "safety_rules \<Rightarrow> error + epoch_state" where
  "epoch_state_of self = ok_or (sr_epoch_state self) (NotInitialized ''epoch_state'')"

definition sr_sign :: "env \<Rightarrow> safety_rules \<Rightarrow> signed_message \<Rightarrow> error + signature" where
  "sr_sign en self message =
     try_res (signer self) (\<lambda>s. signer_sign en s message (sr_persistent_storage self))"

section \<open>The rules\<close>

definition extension_check :: "env \<Rightarrow> vote_proposal \<Rightarrow> (error + vote_data) option" where
  "extension_check en vote_proposal =
     (let proposed_block = vp_block vote_proposal in
      try_opt (map_option (map_err InvalidAccumulatorExtension)
        (extension_proof_verify (en_node_hash en) (en_placeholder en)
           (vp_accumulator_extension_proof vote_proposal)
           (bi_executed_state_id (certified_block (b_quorum_cert proposed_block))))) (\<lambda>new_tree.
      Some (Inr \<lparr>vd_proposed = gen_block_info proposed_block 0 (acc_version new_tree)
             (vp_next_epoch_state vote_proposal) (vp_pivot_decision vote_proposal),
           vd_parent = certified_block (b_quorum_cert proposed_block)\<rparr>)))"

definition next_round :: "nat \<Rightarrow> error + nat" where
  "next_round round = ok_or (add64 round 1) (IncorrectRound round)"

definition construct_ledger_info :: "block \<Rightarrow> hash \<Rightarrow> error + ledger_info" where
  "construct_ledger_info proposed_block consensus_data_hash =
     (let block2 = b_round proposed_block;
          block1 = bi_round (certified_block (b_quorum_cert proposed_block));
          block0 = bi_round (parent_block (b_quorum_cert proposed_block)) in
      try_res (try_res (next_round block0) (\<lambda>n0.
        if n0 = block1 then try_res (next_round block1) (\<lambda>n1. Inr (n1 = block2)) else Inr False)) (\<lambda>commit.
      Inr \<lparr>li_commit_info =
             (if commit then parent_block (b_quorum_cert proposed_block) else block_info_empty),
           li_consensus_data_hash = consensus_data_hash\<rparr>))"

definition verify_and_update_preferred_round ::
  "quorum_cert \<Rightarrow> safety_data \<Rightarrow> error + (safety_data \<times> bool)" where
  "verify_and_update_preferred_round quorum_cert safety_data =
     (let preferred_round = sd_preferred_round safety_data;
          one_chain_round = bi_round (certified_block quorum_cert);
          two_chain_round = bi_round (parent_block quorum_cert) in
      if one_chain_round < preferred_round
      then Inl (IncorrectPreferredRound one_chain_round preferred_round)
      else if preferred_round < two_chain_round
      then Inr (safety_data\<lparr>sd_preferred_round := two_chain_round\<rparr>, True)
      else Inr (safety_data, False))"

definition verify_author :: "safety_rules \<Rightarrow> address option \<Rightarrow> error + unit" where
  "verify_author self author =
     try_res (signer self) (\<lambda>s.
     try_res (ok_or author (InvalidProposal ''No author found in the proposal'')) (\<lambda>a.
     if signer_author s \<noteq> a then Inl (InvalidProposal ''Proposal author is not validator signer!'') else Inr ()))"

definition verify_epoch :: "nat \<Rightarrow> safety_data \<Rightarrow> error + unit" where
  "verify_epoch epoch safety_data =
     (if epoch \<noteq> sd_epoch safety_data then Inl (IncorrectEpoch epoch (sd_epoch safety_data)) else Inr ())"

definition verify_and_update_last_vote_round :: "round \<Rightarrow> safety_data \<Rightarrow> error + safety_data" where
  "verify_and_update_last_vote_round round safety_data =
     (if round \<le> sd_last_voted_round safety_data
      then Inl (IncorrectLastVotedRound round (sd_last_voted_round safety_data))
      else Inr (safety_data\<lparr>sd_last_voted_round := round\<rparr>))"

definition verify_qc :: "env \<Rightarrow> safety_rules \<Rightarrow> quorum_cert \<Rightarrow> (error + unit) option" where
  "verify_qc en self qc =
     try_opt (Some (epoch_state_of self)) (\<lambda>epoch_state.
     map_option (map_err InvalidQuorumCertificate)
       (quorum_cert_verify (en_crypto en) qc (verifier (en_hardcoded en) epoch_state)))"

section \<open>The operations\<close>

text \<open>The storage operations, as operations on the safety rules.\<close>

definition sr_safety_data :: "safety_rules \<Rightarrow> (safety_rules \<times> (error + safety_data)) option" where
  "sr_safety_data self =
     (let (st, r) = storage_safety_data (sr_persistent_storage self)
      in Some (self\<lparr>sr_persistent_storage := st\<rparr>, r))"

definition sr_set_safety_data :: "bool \<Rightarrow> safety_rules \<Rightarrow> safety_data \<Rightarrow> (safety_rules \<times> (error + unit)) option" where
  "sr_set_safety_data io self data =
     (let (st, r) = set_safety_data io (sr_persistent_storage self) data
      in Some (self\<lparr>sr_persistent_storage := st\<rparr>, r))"

record consensus_state =
  cs_safety_data :: safety_data
  cs_in_validator_set :: bool

definition guarded_consensus_state :: "safety_rules \<Rightarrow> (safety_rules \<times> (error + consensus_state)) option" where
  "guarded_consensus_state self =
     stry (sr_safety_data self) (\<lambda>self _.
     stry (slift self (Some (storage_author (sr_persistent_storage self)))) (\<lambda>self _.
     stry (sr_safety_data self) (\<lambda>self safety_data.
     Some (self, Inr \<lparr>cs_safety_data = safety_data,
       cs_in_validator_set = (sr_validator_signer self \<noteq> None)\<rparr>))))"

text \<open>The choice of the signer, the last part of \<^verbatim>\<open>guarded_initialize\<close>.\<close>

definition initialize_signer ::
  "env \<Rightarrow> safety_rules \<Rightarrow> address \<Rightarrow> public_key \<Rightarrow> safety_rules \<times> (error + unit)" where
  "initialize_signer en self author expected_key =
     (if map_option (signer_public_key en) (sr_validator_signer self) = Some expected_key
      then (self, Inr ())
      else if sr_export_consensus_key self
      then case consensus_key_for_version (en_public_key en) (sr_persistent_storage self) expected_key of
             Inr consensus_key \<Rightarrow>
               if en_public_key en consensus_key \<noteq> expected_key
               then (self, Inl (ValidatorKeyNotFound ''exported key does not match the expected key''))
               else (self\<lparr>sr_validator_signer := Some (Signer author consensus_key)\<rparr>, Inr ())
           | Inl (SecureStorageMissingDataError e) \<Rightarrow> (self, Inl (ValidatorKeyNotFound e))
           | Inl e \<Rightarrow> (self, Inl e)
      else
        let self' = self\<lparr>sr_validator_signer := Some (Handle author expected_key)\<rparr>;
            test = MTimeout \<lparr>to_epoch = 0, to_round = 0\<rparr>
        in (self', try_res (sr_sign en self' test) (\<lambda>signature.
              if cr_verify (en_crypto en) expected_key test signature then Inr ()
              else Inl (ValidatorKeyNotFound ''Invalid BLS signature!''))))"

definition guarded_initialize ::
  "env \<Rightarrow> bool \<Rightarrow> safety_rules \<Rightarrow> epoch_state \<Rightarrow> (safety_rules \<times> (error + unit)) option" where
  "guarded_initialize en io self epoch_state =
     stry (sr_safety_data self) (\<lambda>self d.
     stry (if sd_epoch d < es_epoch epoch_state
           then sr_set_safety_data io self \<lparr>sd_epoch = es_epoch epoch_state, sd_last_voted_round = 0,
                  sd_preferred_round = 0, sd_last_vote = None\<rparr>
           else Some (self, Inr ())) (\<lambda>self _.
     let self = self\<lparr>sr_epoch_state := Some epoch_state\<rparr> in
     stry (slift self (Some (storage_author (sr_persistent_storage self)))) (\<lambda>self author.
     let (self, initialize_result) =
       (case get_public_key (verifier (en_hardcoded en) epoch_state) author of
          None \<Rightarrow> (self\<lparr>sr_validator_signer := None\<rparr>, Inr ())
        | Some expected_key \<Rightarrow> initialize_signer en self author expected_key) in
     case initialize_result of
       Inr _ \<Rightarrow> Some (self, Inr ())
     | Inl error \<Rightarrow> Some (self\<lparr>sr_validator_signer := None\<rparr>, Inl error))))"

text \<open>The second half of \<^verbatim>\<open>guarded_construct_and_sign_vote\<close>: a proposal of a round not voted on yet.\<close>

definition sign_new_vote ::
  "env \<Rightarrow> bool \<Rightarrow> safety_rules \<Rightarrow> safety_data \<Rightarrow> vote_proposal \<Rightarrow> (safety_rules \<times> (error + vote)) option" where
  "sign_new_vote en io self safety_data vote_proposal =
     (let proposed_block = vp_block vote_proposal in
     stry (slift self (verify_qc en self (b_quorum_cert proposed_block))) (\<lambda>self _.
     stry (slift self (Some (epoch_state_of self))) (\<lambda>self epoch_state.
     stry (slift self (map_option (map_err (\<lambda>_. InternalError ''invalid block signature''))
       (validate_signature (en_crypto en) proposed_block (verifier (en_hardcoded en) epoch_state)))) (\<lambda>self _.
     stry (slift self (Some (verify_and_update_preferred_round (b_quorum_cert proposed_block) safety_data)))
       (\<lambda>self (safety_data, _).
     stry (slift self (Some (verify_and_update_last_vote_round (bd_round (b_block_data proposed_block)) safety_data)))
       (\<lambda>self safety_data.
     stry (slift self (extension_check en vote_proposal)) (\<lambda>self vote_data.
     stry (slift self (Some (signer self))) (\<lambda>self s.
     let author = signer_author s in
     stry (slift self (Some (construct_ledger_info proposed_block (cr_hash_vote_data (en_crypto en) vote_data))))
       (\<lambda>self ledger_info.
     stry (slift self (Some (sr_sign en self (MLedgerInfo ledger_info)))) (\<lambda>self signature.
     let vote = vote_new_with_signature vote_data author ledger_info signature in
     stry (sr_set_safety_data io self (safety_data\<lparr>sd_last_vote := Some vote\<rparr>)) (\<lambda>self _.
     Some (self, Inr vote))))))))))))"

definition guarded_construct_and_sign_vote ::
  "env \<Rightarrow> bool \<Rightarrow> safety_rules \<Rightarrow> maybe_signed_vote_proposal \<Rightarrow> (safety_rules \<times> (error + vote)) option" where
  "guarded_construct_and_sign_vote en io self maybe_signed_vote_proposal =
     stry (slift self (Some (signer self))) (\<lambda>self _.
     let vote_proposal = mp_vote_proposal maybe_signed_vote_proposal;
         execution_signature = mp_signature maybe_signed_vote_proposal in
     stry (slift self (Some (case sr_execution_public_key self of
         None \<Rightarrow> Inr ()
       | Some public_key \<Rightarrow>
           try_res (ok_or execution_signature VoteProposalSignatureNotFound) (\<lambda>signature.
           if en_verify_vote_proposal en public_key vote_proposal signature then Inr ()
           else Inl (InternalError ''Invalid BLS signature!''))))) (\<lambda>self _.
     let proposed_block = vp_block vote_proposal in
     stry (sr_safety_data self) (\<lambda>self safety_data.
     stry (slift self (Some (verify_epoch (b_epoch proposed_block) safety_data))) (\<lambda>self _.
     case sd_last_vote safety_data of
       Some vote \<Rightarrow>
         if bi_round (vd_proposed (vote_vote_data vote)) = b_round proposed_block then Some (self, Inr vote)
         else sign_new_vote en io self safety_data vote_proposal
     | None \<Rightarrow> sign_new_vote en io self safety_data vote_proposal))))"

definition guarded_sign_proposal ::
  "env \<Rightarrow> bool \<Rightarrow> safety_rules \<Rightarrow> block_data \<Rightarrow> (safety_rules \<times> (error + block)) option" where
  "guarded_sign_proposal en io self block_data =
     stry (slift self (Some (signer self))) (\<lambda>self _.
     stry (slift self (Some (verify_author self (bd_author block_data)))) (\<lambda>self _.
     stry (sr_safety_data self) (\<lambda>self safety_data.
     stry (slift self (Some (verify_epoch (bd_epoch block_data) safety_data))) (\<lambda>self _.
     if bd_round block_data \<le> sd_last_voted_round safety_data
     then Some (self, Inl (InvalidProposal ''Proposed round is not higher than last voted round''))
     else
       stry (slift self (verify_qc en self (bd_quorum_cert block_data))) (\<lambda>self _.
       stry (slift self (Some (verify_and_update_preferred_round (bd_quorum_cert block_data) safety_data)))
         (\<lambda>self (safety_data, updated).
       stry (if updated then sr_set_safety_data io self safety_data else Some (self, Inr ())) (\<lambda>self _.
       stry (slift self (Some (sr_sign en self (MBlockData block_data)))) (\<lambda>self signature.
       Some (self, Inr (new_proposal_from_block_data_and_signature (en_crypto en) block_data signature None))))))))))"

definition guarded_sign_timeout ::
  "env \<Rightarrow> bool \<Rightarrow> safety_rules \<Rightarrow> timeout \<Rightarrow> (safety_rules \<times> (error + signature)) option" where
  "guarded_sign_timeout en io self timeout' =
     stry (slift self (Some (signer self))) (\<lambda>self _.
     stry (sr_safety_data self) (\<lambda>self safety_data.
     stry (slift self (Some (verify_epoch (to_epoch timeout') safety_data))) (\<lambda>self _.
     if to_round timeout' \<le> sd_preferred_round safety_data
     then Some (self, Inl (IncorrectPreferredRound (to_round timeout') (sd_preferred_round safety_data)))
     else if to_round timeout' < sd_last_voted_round safety_data
     then Some (self, Inl (IncorrectLastVotedRound (to_round timeout') (sd_last_voted_round safety_data)))
     else
       stry (if sd_last_voted_round safety_data < to_round timeout'
             then stry (slift self (Some (verify_and_update_last_vote_round (to_round timeout') safety_data)))
               (\<lambda>self safety_data. sr_set_safety_data io self safety_data)
             else Some (self, Inr ())) (\<lambda>self _.
       stry (slift self (Some (sr_sign en self (MTimeout timeout')))) (\<lambda>self signature.
       Some (self, Inr signature))))))"

definition start_voting :: "bool \<Rightarrow> safety_rules \<Rightarrow> bool \<Rightarrow> (safety_rules \<times> (error + unit)) option" where
  "start_voting io self initialize =
     (if initialize then Some (self, Inr ())
      else let (st, r) = replace_with_suffix io (sr_persistent_storage self)
           in Some (self\<lparr>sr_persistent_storage := st\<rparr>, r))"

definition stop_voting :: "bool \<Rightarrow> safety_rules \<Rightarrow> (safety_rules \<times> (error + unit)) option" where
  "stop_voting io self =
     (let (st, r) = save_to_suffix io (sr_persistent_storage self)
      in Some (self\<lparr>sr_persistent_storage := st\<rparr>, r))"

end
