(* ===== verification/Safety_Example.thy ===== *)
theory Safety_Example
  imports Safety_Rules
begin

text \<open>
  A concrete validator for the witnesses: the only member of its committee, on a fresh on-disk storage,
  voting for the blocks of the rounds 1, 2 and 3, each certified by the vote for it. Keys sign by writing
  their own number, hashes are round numbers.
\<close>

definition ex_crypto :: crypto where
  "ex_crypto = \<lparr>cr_verify = (\<lambda>pk m sig. sig = pk), cr_hash_vote_data = (\<lambda>vd. bi_round (vd_proposed vd)),
     cr_hash_block_data = (\<lambda>bd. 1000 + bd_round bd), cr_verify_proof = (\<lambda>pk seed p. True)\<rparr>"

definition ex_env :: env where
  "ex_env = \<lparr>en_crypto = ex_crypto, en_hardcoded = Map.empty, en_node_hash = (\<lambda>l r. 3 * l + r), en_placeholder = 0,
     en_public_key = (\<lambda>k. k), en_sign = (\<lambda>k m. k), en_verify_vote_proposal = (\<lambda>pk p sig. True)\<rparr>"

definition ex_verifier :: validator_verifier where
  "ex_verifier = \<lparr>vv_address_to_validator_info = [(7, \<lparr>vi_public_key = 7, vi_vrf_public_key = None, vi_voting_power = 1\<rparr>)],
     vv_quorum_voting_power = 1, vv_total_voting_power = 1\<rparr>"

definition ex_epoch :: epoch_state where
  "ex_epoch = \<lparr>es_epoch = 1, es_verifier = ex_verifier, es_vrf_seed = []\<rparr>"

definition ex_info :: "nat \<Rightarrow> block_info" where
  "ex_info r = \<lparr>bi_epoch = 1, bi_round = r, bi_id = 1000 + r, bi_executed_state_id = 0, bi_version = 0,
     bi_timestamp_usecs = r, bi_next_epoch_state = None, bi_pivot = None\<rparr>"

definition ex_vote_data :: "nat \<Rightarrow> vote_data" where
  "ex_vote_data r = \<lparr>vd_proposed = ex_info r, vd_parent = ex_info (r - 1)\<rparr>"

text \<open>The certificate of round 0 is that of the genesis; later rounds commit the grandparent.\<close>

definition ex_ledger_info :: "nat \<Rightarrow> ledger_info" where
  "ex_ledger_info r = \<lparr>li_commit_info = (if r = 0 then ex_info 0 else if r = 1 then block_info_empty else ex_info (r - 2)),
     li_consensus_data_hash = r\<rparr>"

definition ex_qc :: "nat \<Rightarrow> quorum_cert" where
  "ex_qc r = \<lparr>qc_vote_data = ex_vote_data r, qc_signed_ledger_info =
     \<lparr>lis_ledger_info = ex_ledger_info r, lis_signatures = (if r = 0 then [] else [(7, 7)])\<rparr>\<rparr>"

definition ex_block :: "nat \<Rightarrow> block" where
  "ex_block r = new_proposal_from_block_data_and_signature ex_crypto
     (block_data_new_proposal [] 7 r r (ex_qc (r - 1))) 7 None"

definition ex_proposal :: "nat \<Rightarrow> maybe_signed_vote_proposal" where
  "ex_proposal r = \<lparr>mp_vote_proposal =
     \<lparr>vp_accumulator_extension_proof = \<lparr>ep_frozen_subtree_roots = [], ep_num_leaves = 0, ep_leaves = []\<rparr>,
      vp_block = ex_block r, vp_next_epoch_state = None, vp_pivot_decision = None\<rparr>, mp_signature = None\<rparr>"

definition ex_vote :: "nat \<Rightarrow> vote" where
  "ex_vote r = vote_new_with_signature (ex_vote_data r) 7 (ex_ledger_info r) 7"

definition ex_store :: storage where
  "ex_store = \<lparr>st_kind = OnDiskStorage, st_main = Some Map.empty, st_save = None\<rparr>"

definition ex_file :: "safety_data \<Rightarrow> store_file" where
  "ex_file d = Map.empty(SAFETY_DATA \<mapsto> VSafetyData d, OWNER_ACCOUNT \<mapsto> VAccount 7)"

definition ex_storage :: "safety_data \<Rightarrow> persistent_safety_storage" where
  "ex_storage d = \<lparr>ps_enable_cached_safety_data = True, ps_cached_safety_data = Some d,
     ps_internal_store = \<lparr>st_kind = OnDiskStorage, st_main = Some (ex_file d), st_save = None\<rparr>, ps_private_key = 7\<rparr>"

definition ex_rules :: "safety_data \<Rightarrow> safety_rules" where
  "ex_rules d = (safety_rules_new (ex_storage d) True)
     \<lparr>sr_validator_signer := Some (Signer 7 7), sr_epoch_state := Some ex_epoch\<rparr>"

text \<open>The safety data after the votes up to round \<open>r\<close>.\<close>

definition ex_data :: "nat \<Rightarrow> safety_data" where
  "ex_data r = (if r = 0 then genesis_safety_data else
     \<lparr>sd_epoch = 1, sd_last_voted_round = r, sd_preferred_round = r - 2, sd_last_vote = Some (ex_vote r)\<rparr>)"

lemma ex_names: "SAFETY_DATA \<noteq> OWNER_ACCOUNT" "OWNER_ACCOUNT \<noteq> SAFETY_DATA"
  by (simp_all add: SAFETY_DATA_def OWNER_ACCOUNT_def)

lemma ex_file_upd: "(ex_file d)(SAFETY_DATA \<mapsto> VSafetyData d') = ex_file d'"
  by (simp add: ex_file_def fun_upd_twist [OF ex_names(2)])

lemma ex_initialize: "storage_initialize True True ex_store 7 7 True = Some (ex_storage genesis_safety_data)"
  by (simp add: storage_initialize_def initialize_store_def ex_store_def storage_get_def file_get_def
      storage_set_def ex_storage_def ex_file_def)

lemmas ex_simps =
  ex_storage_def ex_rules_def safety_rules_new_def sr_safety_data_def storage_safety_data_def sr_set_safety_data_def
  set_safety_data_def storage_set_def ex_file_upd

lemma ex_guarded_initialize:
  "guarded_initialize ex_env True (safety_rules_new (ex_storage genesis_safety_data) True) ex_epoch
     = Some (ex_rules genesis_safety_data, Inr ())"
  by (simp add: guarded_initialize_def ex_simps genesis_safety_data_def ex_epoch_def storage_author_def storage_get_def
      file_get_def ex_file_def as_account_def verifier_def ex_env_def ex_verifier_def get_public_key_def
      initialize_signer_def consensus_key_for_version_def)

lemma ex_qc_rounds [simp]:
  "certified_block (ex_qc r) = ex_info r" "parent_block (ex_qc r) = ex_info (r - 1)" "bi_round (ex_info r) = r"
  "vd_proposed (ex_vote_data r) = ex_info r" "vd_parent (ex_vote_data r) = ex_info (r - 1)"
  "qc_ledger_info (ex_qc r) = ex_ledger_info r"
  by (simp_all add: ex_qc_def certified_block_def parent_block_def ex_vote_data_def ex_info_def qc_ledger_info_def)

lemma ex_block_fields [simp]:
  "b_quorum_cert (ex_block r) = ex_qc (r - 1)" "b_round (ex_block r) = r" "b_epoch (ex_block r) = 1"
  "b_id (ex_block r) = 1000 + r" "b_timestamp_usecs (ex_block r) = r" "bd_round (b_block_data (ex_block r)) = r"
  by (simp_all add: ex_block_def new_proposal_from_block_data_and_signature_def block_data_new_proposal_def
      b_quorum_cert_def b_round_def b_epoch_def b_timestamp_usecs_def ex_crypto_def certified_block_def ex_qc_def
      ex_vote_data_def ex_info_def)

lemma ex_qc_verify: "quorum_cert_verify ex_crypto (ex_qc r) ex_verifier = Some (Inr ())"
  by (auto simp: quorum_cert_verify_def ex_ledger_info_def ex_qc_def qc_ledger_info_def commit_info_def ex_crypto_def
      verify_signatures_def batch_verify_aggregated_signatures_def check_num_of_signatures_def vv_len_def ex_verifier_def
      check_voting_power_def get_voting_power_def add64_def U64_MAX_def Let_def List.map_filter_def get_public_key_def
      vote_data_verify_def ex_vote_data_def ex_info_def certified_block_def parent_block_def)

lemma ex_validate: "validate_signature ex_crypto (ex_block r) ex_verifier = Some (Inr ())"
  using ex_qc_verify [of "r - 1"]
  by (simp add: validate_signature_def)
    (simp add: ex_block_def new_proposal_from_block_data_and_signature_def block_data_new_proposal_def vv_verify_def
      get_public_key_def ex_verifier_def ex_crypto_def b_quorum_cert_def)

lemma ex_extension: "extension_check ex_env (mp_vote_proposal (ex_proposal r)) = Some (Inr (ex_vote_data r))"
  by (simp add: extension_check_def ex_proposal_def extension_proof_verify_def accumulator_new_def count_ones.simps
      compute_root_hash_def acc_append_def acc_version_def gen_block_info_def block_info_new_def ex_vote_data_def Let_def)
    (simp add: ex_info_def)

lemma ex_construct:
  "0 < r \<Longrightarrow> r < 10 \<Longrightarrow> construct_ledger_info (ex_block r) r = Inr (ex_ledger_info r)"
  by (auto simp: construct_ledger_info_def next_round_def add64_def U64_MAX_def ex_ledger_info_def Let_def numeral_2_eq_2)

lemma ex_rules_simps [simp]:
  "sr_validator_signer (ex_rules d) = Some (Signer 7 7)" "sr_epoch_state (ex_rules d) = Some ex_epoch"
  "sr_execution_public_key (ex_rules d) = None"
  "sr_safety_data (ex_rules d) = Some (ex_rules d, Inr d)"
  "sr_set_safety_data True (ex_rules d) d' = Some (ex_rules d', Inr ())"
  by (simp_all add: ex_simps)

lemma ex_env_simps [simp]:
  "verifier (en_hardcoded ex_env) ex_epoch = ex_verifier" "en_crypto ex_env = ex_crypto" "en_sign ex_env k m = k"
  "cr_hash_vote_data ex_crypto (ex_vote_data n) = n"
  by (simp_all add: ex_env_def verifier_def ex_epoch_def) (simp add: ex_crypto_def)

lemma ex_proposal_simps [simp]:
  "vp_block (mp_vote_proposal (ex_proposal n)) = ex_block n" "mp_signature (ex_proposal n) = None"
  by (simp_all add: ex_proposal_def)

lemma ex_sign_new_vote:
  assumes "r < 9"
  shows "sign_new_vote ex_env True (ex_rules (ex_data r)) (ex_data r) (mp_vote_proposal (ex_proposal (Suc r)))
    = Some (ex_rules (ex_data (Suc r)), Inr (ex_vote (Suc r)))"
proof -
  have "construct_ledger_info (ex_block (Suc r)) (Suc r) = Inr (ex_ledger_info (Suc r))"
    using assms ex_construct [of "Suc r"] by auto
  moreover have "verify_and_update_preferred_round (ex_qc r) (ex_data r)
      = Inr ((ex_data r)\<lparr>sd_preferred_round := Suc r - 2\<rparr>, 2 \<le> r)"
    using assms by (auto simp: verify_and_update_preferred_round_def ex_data_def genesis_safety_data_def Let_def)
  moreover have "verify_and_update_last_vote_round (Suc r) ((ex_data r)\<lparr>sd_preferred_round := p\<rparr>)
      = Inr ((ex_data r)\<lparr>sd_preferred_round := p, sd_last_voted_round := Suc r\<rparr>)" for p
    by (simp add: verify_and_update_last_vote_round_def ex_data_def genesis_safety_data_def)
  moreover have "(ex_data r)\<lparr>sd_preferred_round := Suc r - 2, sd_last_voted_round := Suc r,
      sd_last_vote := Some (ex_vote (Suc r))\<rparr> = ex_data (Suc r)"
    by (simp add: ex_data_def genesis_safety_data_def)
  ultimately show ?thesis
    using ex_qc_verify ex_validate [of "Suc r"] ex_extension [of "Suc r"]
    by (simp add: sign_new_vote_def verify_qc_def epoch_state_of_def Let_def signer_def sr_sign_def signer_sign_def
        signer_author_def flip: ex_vote_def)
qed

lemma ex_votes:
  assumes "r < 9"
  shows "guarded_construct_and_sign_vote ex_env True (ex_rules (ex_data r)) (ex_proposal (Suc r))
    = Some (ex_rules (ex_data (Suc r)), Inr (ex_vote (Suc r)))"
proof -
  have "sd_epoch (ex_data r) = 1"
    "sd_last_vote (ex_data r) = None \<or> sd_last_vote (ex_data r) = Some (ex_vote r)"
    by (simp_all add: ex_data_def genesis_safety_data_def)
  moreover have "bi_round (vd_proposed (vote_vote_data (ex_vote r))) = r"
    by (simp add: ex_vote_def vote_new_with_signature_def)
  ultimately show ?thesis
    using ex_sign_new_vote [OF assms]
    by (auto simp: guarded_construct_and_sign_vote_def signer_def Let_def verify_epoch_def)
qed

end
