(* ===== verification/Safety_Props.thy ===== *)
theory Safety_Props
  imports Safety_Example
begin

text \<open>
  The correctness of the safety rules. The content of the storage is abstracted to the safety data it
  persists; every operation is shown to refine a transition on that data, whatever writes fail.
  The life of a validator is a step relation that interleaves all operations, crashes and restarts of
  the process and the hand-over of the voting right; its log holds the votes that left the validator.
  By rule induction the log never contains two votes for one round and obeys the locking rule.
\<close>

section \<open>The persisted safety data\<close>

definition file_safety_data :: "store_file option \<Rightarrow> safety_data option" where
  "file_safety_data f =
     (case f of None \<Rightarrow> None | Some m \<Rightarrow> (case m SAFETY_DATA of Some (VSafetyData d) \<Rightarrow> Some d | _ \<Rightarrow> None))"

text \<open>The file that counts: the main file, or the saved one after voting was stopped.\<close>

definition persisted :: "storage \<Rightarrow> safety_data option" where
  "persisted st = file_safety_data (if st_main st = None then st_save st else st_main st)"

definition store_ok :: "persistent_safety_storage \<Rightarrow> safety_data \<Rightarrow> bool" where
  "store_ok ps d \<longleftrightarrow> persisted (ps_internal_store ps) = Some d \<and>
     ps_cached_safety_data ps \<in> {None, Some d} \<and>
     (st_main (ps_internal_store ps) = None \<or> st_save (ps_internal_store ps) = None)"

text \<open>The safety rules hold the data \<open>d\<close>, and their epoch state is that of its epoch.\<close>

definition sr_ok :: "env \<Rightarrow> (nat \<Rightarrow> validator_verifier) \<Rightarrow> safety_rules \<Rightarrow> safety_data \<Rightarrow> bool" where
  "sr_ok en com s d \<longleftrightarrow> store_ok (sr_persistent_storage s) d \<and>
     (\<forall>es. sr_epoch_state s = Some es \<longrightarrow>
        es_epoch es = sd_epoch d \<and> verifier (en_hardcoded en) es = com (sd_epoch d))"

lemma storage_safety_data_ok:
  assumes "store_ok ps d" and "storage_safety_data ps = (ps', r)"
  shows "store_ok ps' d" and "r = Inr d' \<Longrightarrow> d' = d"
proof -
  have "ps_cached_safety_data ps = None \<or> ps_cached_safety_data ps = Some d"
    using assms(1) by (auto simp: store_ok_def)
  then have "store_ok ps' d \<and> (r = Inr d' \<longrightarrow> d' = d)"
    using assms
    by (auto simp: storage_safety_data_def store_ok_def persisted_def file_safety_data_def storage_get_def
        file_get_def ok_or_def as_safety_data_def as_result_safety_data_def try_res_def from_storage_error_def
        split: if_splits option.splits sum.splits stored_value.splits)
  then show "store_ok ps' d" and "r = Inr d' \<Longrightarrow> d' = d" by auto
qed

lemma set_safety_data_ok:
  assumes "store_ok ps d" and "set_safety_data io ps d' = (ps', r)"
  shows "store_ok ps' (case r of Inl _ \<Rightarrow> d | Inr _ \<Rightarrow> d')"
  using assms
  by (auto simp: set_safety_data_def storage_set_def store_ok_def persisted_def file_safety_data_def
      split: if_splits option.splits sum.splits)

lemma sr_safety_data_ok:
  assumes "sr_ok en com s d" and "sr_safety_data s = Some (s', r)"
  shows "sr_ok en com s' d" and "r = Inr d' \<Longrightarrow> d' = d"
    and "sr_validator_signer s' = sr_validator_signer s" and "sr_epoch_state s' = sr_epoch_state s"
proof -
  obtain ps where ps: "storage_safety_data (sr_persistent_storage s) = (ps, r)"
    and s': "s' = s\<lparr>sr_persistent_storage := ps\<rparr>"
    using assms(2) by (auto simp: sr_safety_data_def split: prod.splits)
  have ok: "store_ok (sr_persistent_storage s) d" using assms(1) by (simp add: sr_ok_def)
  show "sr_ok en com s' d"
    using storage_safety_data_ok(1) [OF ok ps] assms(1) s' by (simp add: sr_ok_def)
  show "r = Inr d' \<Longrightarrow> d' = d"
    using storage_safety_data_ok(2) [OF ok ps] by blast
  show "sr_validator_signer s' = sr_validator_signer s" and "sr_epoch_state s' = sr_epoch_state s"
    by (simp_all add: s')
qed

lemma sr_set_safety_data_ok:
  assumes "sr_ok en com s d" and "sr_set_safety_data io s d' = Some (s', r)"
    and "sd_epoch d' = sd_epoch d \<or> sr_epoch_state s = None"
  shows "sr_ok en com s' (case r of Inl _ \<Rightarrow> d | Inr _ \<Rightarrow> d')"
    and "sr_validator_signer s' = sr_validator_signer s" and "sr_epoch_state s' = sr_epoch_state s"
proof -
  obtain ps where ps: "set_safety_data io (sr_persistent_storage s) d' = (ps, r)"
    and s': "s' = s\<lparr>sr_persistent_storage := ps\<rparr>"
    using assms(2) by (auto simp: sr_set_safety_data_def split: prod.splits)
  have ok: "store_ok (sr_persistent_storage s) d" using assms(1) by (simp add: sr_ok_def)
  show "sr_ok en com s' (case r of Inl _ \<Rightarrow> d | Inr _ \<Rightarrow> d')"
    using set_safety_data_ok [OF ok ps] assms(1,3) s' by (auto simp: sr_ok_def split: sum.splits)
  show "sr_validator_signer s' = sr_validator_signer s" and "sr_epoch_state s' = sr_epoch_state s"
    by (simp_all add: s')
qed

section \<open>The transitions the operations refine\<close>

text \<open>A new vote \<open>v\<close> for the block of \<open>p\<close>, cast with the data \<open>d\<close> and leaving \<open>d'\<close>.\<close>

definition casts ::
  "env \<Rightarrow> validator_verifier \<Rightarrow> safety_data \<Rightarrow> vote_proposal \<Rightarrow> vote \<Rightarrow> safety_data \<Rightarrow> bool" where
  "casts en vv d p v d' \<longleftrightarrow>
     (let b = vp_block p; qc = b_quorum_cert b in
      b_epoch b = sd_epoch d \<and>
      quorum_cert_verify (en_crypto en) qc vv = Some (Inr ()) \<and>
      validate_signature (en_crypto en) b vv = Some (Inr ()) \<and>
      sd_preferred_round d \<le> bi_round (certified_block qc) \<and> sd_last_voted_round d < b_round b \<and>
      extension_check en p = Some (Inr (vote_vote_data v)) \<and>
      construct_ledger_info b (cr_hash_vote_data (en_crypto en) (vote_vote_data v)) = Inr (vote_ledger_info v) \<and>
      d' = \<lparr>sd_epoch = sd_epoch d, sd_last_voted_round = b_round b,
            sd_preferred_round = max (sd_preferred_round d) (bi_round (parent_block qc)), sd_last_vote = Some v\<rparr>)"

lemma preferred_round_update:
  "verify_and_update_preferred_round qc d = Inr (d', u) \<Longrightarrow>
     sd_preferred_round d \<le> bi_round (certified_block qc) \<and>
     d' = d\<lparr>sd_preferred_round := max (sd_preferred_round d) (bi_round (parent_block qc))\<rparr> \<and>
     (u \<longleftrightarrow> sd_preferred_round d < bi_round (parent_block qc))"
  by (auto simp: verify_and_update_preferred_round_def Let_def max_def split: if_splits)

lemma verify_qc_ok:
  "verify_qc en s qc = Some (Inr ()) \<Longrightarrow> \<exists>es. sr_epoch_state s = Some es \<and>
     quorum_cert_verify (en_crypto en) qc (verifier (en_hardcoded en) es) = Some (Inr ())"
  by (auto simp: verify_qc_def result_simps epoch_state_of_def)

lemma last_vote_round_update:
  "verify_and_update_last_vote_round r d = Inr d' \<Longrightarrow>
     sd_last_voted_round d < r \<and> d' = d\<lparr>sd_last_voted_round := r\<rparr>"
  by (auto simp: verify_and_update_last_vote_round_def split: if_splits)

lemma sign_new_vote_ok:
  assumes "sign_new_vote en io s d p = Some (s', Inr v)" and "sr_ok en com s d"
    and "b_epoch (vp_block p) = sd_epoch d"
  shows "\<exists>d'. casts en (com (sd_epoch d)) d p v d' \<and> sr_ok en com s' d'"
proof -
  let ?b = "vp_block p" and ?cr = "en_crypto en"
  obtain es d1 u d2 vd sg li sig where
    qc: "verify_qc en s (b_quorum_cert ?b) = Some (Inr ())" and es: "sr_epoch_state s = Some es"
    and sigv: "validate_signature ?cr ?b (verifier (en_hardcoded en) es) = Some (Inr ())"
    and pr: "verify_and_update_preferred_round (b_quorum_cert ?b) d = Inr (d1, u)"
    and lv: "verify_and_update_last_vote_round (bd_round (b_block_data ?b)) d1 = Inr d2"
    and ext: "extension_check en p = Some (Inr vd)"
    and li: "construct_ledger_info ?b (cr_hash_vote_data ?cr vd) = Inr li"
    and v: "v = vote_new_with_signature vd (signer_author sg) li sig"
    and st: "sr_set_safety_data io s (d2\<lparr>sd_last_vote := Some v\<rparr>) = Some (s', Inr ())"
    using assms(1)
    by (auto simp: sign_new_vote_def Let_def result_simps epoch_state_of_def split: prod.splits)
  have d2: "d2 = d\<lparr>sd_preferred_round := max (sd_preferred_round d) (bi_round (parent_block (b_quorum_cert ?b))),
      sd_last_voted_round := b_round ?b\<rparr>" "sd_last_voted_round d < b_round ?b"
      "sd_preferred_round d \<le> bi_round (certified_block (b_quorum_cert ?b))"
    using preferred_round_update [OF pr] last_vote_round_update [OF lv] by (auto simp: b_round_def)
  have "verifier (en_hardcoded en) es = com (sd_epoch d)"
    using assms(2) es by (simp add: sr_ok_def)
  then have "casts en (com (sd_epoch d)) d p v (d2\<lparr>sd_last_vote := Some v\<rparr>)"
    using verify_qc_ok [OF qc] es sigv ext li v d2 assms(3)
    by (simp add: casts_def Let_def vote_new_with_signature_def)
  moreover have "sr_ok en com s' (d2\<lparr>sd_last_vote := Some v\<rparr>)"
    using sr_set_safety_data_ok(1) [OF assms(2) st] d2(1) by simp
  ultimately show ?thesis by blast
qed

lemma sign_new_vote_err:
  assumes "sign_new_vote en io s d p = Some (s', Inl e)" and "sr_ok en com s d"
  shows "sr_ok en com s' d"
proof (cases "s' = s")
  case True
  then show ?thesis using assms(2) by simp
next
  case False
  then obtain d1 u d2 v where
    pr: "verify_and_update_preferred_round (b_quorum_cert (vp_block p)) d = Inr (d1, u)"
    and lv: "verify_and_update_last_vote_round (bd_round (b_block_data (vp_block p))) d1 = Inr d2"
    and st: "sr_set_safety_data io s (d2\<lparr>sd_last_vote := Some v\<rparr>) = Some (s', Inl e)"
    using assms(1) by (auto simp: sign_new_vote_def Let_def result_simps split: prod.splits)
  have "sd_epoch d2 = sd_epoch d"
    using preferred_round_update [OF pr] last_vote_round_update [OF lv] by auto
  then show ?thesis
    using sr_set_safety_data_ok(1) [OF assms(2) st] by simp
qed

text \<open>\<^verbatim>\<open>construct_and_sign_vote\<close> returns the vote already cast for the round, casts a new one, or fails.\<close>

lemma vote_ok:
  assumes "guarded_construct_and_sign_vote en io s mp = Some (s', Inr v)" and "sr_ok en com s d"
  shows "(sd_last_vote d = Some v \<and> bi_round (vd_proposed (vote_vote_data v)) = b_round (vp_block (mp_vote_proposal mp)) \<and>
      sr_ok en com s' d) \<or>
    (\<exists>d'. casts en (com (sd_epoch d)) d (mp_vote_proposal mp) v d' \<and> sr_ok en com s' d')"
proof -
  let ?p = "mp_vote_proposal mp"
  obtain s1 d1 where sd: "sr_safety_data s = Some (s1, Inr d1)"
    and ep: "verify_epoch (b_epoch (vp_block ?p)) d1 = Inr ()"
    and rest: "(case sd_last_vote d1 of
       Some vote \<Rightarrow>
         if bi_round (vd_proposed (vote_vote_data vote)) = b_round (vp_block ?p) then Some (s1, Inr vote)
         else sign_new_vote en io s1 d1 ?p
     | None \<Rightarrow> sign_new_vote en io s1 d1 ?p) = Some (s', Inr v)"
    using assms(1) by (auto simp: guarded_construct_and_sign_vote_def Let_def result_simps)
  have d1: "d1 = d" and ok: "sr_ok en com s1 d"
    using sr_safety_data_ok [OF assms(2) sd] by auto
  have e: "b_epoch (vp_block ?p) = sd_epoch d"
    using ep by (auto simp: verify_epoch_def d1 split: if_splits)
  show ?thesis
    using rest ok sign_new_vote_ok [OF _ ok e] by (auto simp: d1 split: option.splits if_splits)
qed

lemma vote_err:
  assumes "guarded_construct_and_sign_vote en io s mp = Some (s', Inl e)" and "sr_ok en com s d"
  shows "sr_ok en com s' d"
proof -
  let ?p = "mp_vote_proposal mp"
  consider "s' = s" | s1 r where "sr_safety_data s = Some (s1, r)" "s' = s1"
    | s1 d1 where "sr_safety_data s = Some (s1, Inr d1)" "sign_new_vote en io s1 d1 ?p = Some (s', Inl e)"
    using assms(1) by (auto simp: guarded_construct_and_sign_vote_def Let_def result_simps
        split: option.splits if_splits)
  then show ?thesis
  proof cases
    case 3
    then show ?thesis
      using sr_safety_data_ok(1,2) [OF assms(2) 3(1)] sign_new_vote_err by blast
  qed (use assms(2) sr_safety_data_ok(1) in auto)
qed

text \<open>Signing a proposal can only raise the preferred round, signing a timeout only the last voted one.\<close>

definition raises :: "safety_data \<Rightarrow> safety_data \<Rightarrow> bool" where
  "raises d d' \<longleftrightarrow> sd_epoch d' = sd_epoch d \<and> sd_last_vote d' = sd_last_vote d \<and>
     sd_last_voted_round d \<le> sd_last_voted_round d' \<and> sd_preferred_round d \<le> sd_preferred_round d'"

lemma raises_refl: "raises d d"
  by (simp add: raises_def)

lemma sign_proposal_ok:
  assumes "guarded_sign_proposal en io s bd = Some (s', r)" and "sr_ok en com s d"
  shows "\<exists>d'. raises d d' \<and> sr_ok en com s' d'"
proof -
  consider "s' = s" | s1 r1 where "sr_safety_data s = Some (s1, r1)" "s' = s1"
    | s1 d1 d2 r2 where "sr_safety_data s = Some (s1, Inr d1)"
      "verify_and_update_preferred_round (bd_quorum_cert bd) d1 = Inr (d2, True)"
      "sr_set_safety_data io s1 d2 = Some (s', r2)"
    using assms(1)
    by (cases r) (auto simp: guarded_sign_proposal_def Let_def result_simps split: option.splits if_splits prod.splits)
  then show ?thesis
  proof cases
    case 3
    note sd = sr_safety_data_ok [OF assms(2) 3(1)]
    have d1: "d1 = d" using sd(2) by blast
    have u: "raises d d2"
      using preferred_round_update [OF 3(2)] by (auto simp: d1 raises_def)
    then have "sr_ok en com s' (case r2 of Inl _ \<Rightarrow> d | Inr _ \<Rightarrow> d2)"
      using sr_set_safety_data_ok(1) [OF sd(1) 3(3)] by (auto simp: raises_def)
    then show ?thesis
      using u raises_refl [of d] by (cases r2) auto
  qed (use assms(2) sr_safety_data_ok(1) raises_refl in blast)+
qed

lemma sign_timeout_ok:
  assumes "guarded_sign_timeout en io s t = Some (s', r)" and "sr_ok en com s d"
  shows "\<exists>d'. raises d d' \<and> sr_ok en com s' d' \<and>
    (\<forall>sig. r = Inr sig \<longrightarrow> to_epoch t = sd_epoch d' \<and> to_round t = sd_last_voted_round d' \<and>
       sd_preferred_round d' < to_round t)"
proof -
  consider "s' = s" "\<exists>e. r = Inl e" | s1 r1 where "sr_safety_data s = Some (s1, r1)" "s' = s1" "\<exists>e. r = Inl e"
    | s1 d1 where "sr_safety_data s = Some (s1, Inr d1)" "s' = s1" "to_epoch t = sd_epoch d1"
      "to_round t = sd_last_voted_round d1" "sd_preferred_round d1 < to_round t"
    | s1 d1 d2 r2 where "sr_safety_data s = Some (s1, Inr d1)"
      "verify_and_update_last_vote_round (to_round t) d1 = Inr d2" "sr_set_safety_data io s1 d2 = Some (s', r2)"
      "to_epoch t = sd_epoch d1" "sd_preferred_round d1 < to_round t" "\<forall>sig. r = Inr sig \<longrightarrow> r2 = Inr ()"
    using assms(1)
    by (cases r) (auto simp: guarded_sign_timeout_def Let_def result_simps verify_epoch_def
        split: option.splits if_splits prod.splits)
  then show ?thesis
  proof cases
    case 3
    note sd = sr_safety_data_ok [OF assms(2) 3(1)]
    have d1: "d1 = d" using sd(2) by blast
    show ?thesis
      using sd(1) 3 raises_refl [of d] d1 by blast
  next
    case 4
    note sd = sr_safety_data_ok [OF assms(2) 4(1)]
    have d1: "d1 = d" using sd(2) by blast
    have u: "raises d d2" "sd_epoch d2 = sd_epoch d" "sd_last_voted_round d2 = to_round t"
        "sd_preferred_round d2 = sd_preferred_round d"
      using last_vote_round_update [OF 4(2)] by (auto simp: d1 raises_def)
    have ok: "sr_ok en com s' (case r2 of Inl _ \<Rightarrow> d | Inr _ \<Rightarrow> d2)"
      using sr_set_safety_data_ok(1) [OF sd(1) 4(3)] u by simp
    show ?thesis
    proof (cases r2)
      case (Inl e)
      then show ?thesis using ok 4(6) raises_refl [of d] by auto
    next
      case (Inr x)
      then show ?thesis using ok u 4(4,5) d1 by auto
    qed
  qed (use assms(2) sr_safety_data_ok(1) raises_refl in blast)+
qed

lemma initialize_signer_state:
  "initialize_signer en s a k = (s', r) \<Longrightarrow>
     sr_persistent_storage s' = sr_persistent_storage s \<and> sr_epoch_state s' = sr_epoch_state s"
  by (auto simp: initialize_signer_def Let_def split: if_splits sum.splits error.splits)

lemma initialize_ok:
  assumes "guarded_initialize en io s es = Some (s', r)" and "sr_ok en com s d"
    and "sd_epoch d \<le> es_epoch es" and "verifier (en_hardcoded en) es = com (es_epoch es)"
  shows "\<exists>d'. (d' = d \<or> d' = \<lparr>sd_epoch = es_epoch es, sd_last_voted_round = 0, sd_preferred_round = 0,
      sd_last_vote = None\<rparr> \<and> sd_epoch d < es_epoch es) \<and> sr_ok en com s' d'"
proof -
  obtain s1 r1 where sd: "sr_safety_data s = Some (s1, r1)"
    by (cases "storage_safety_data (sr_persistent_storage s)") (auto simp: sr_safety_data_def)
  note ok1 = sr_safety_data_ok [OF assms(2) sd]
  let ?d = "\<lparr>sd_epoch = es_epoch es, sd_last_voted_round = 0, sd_preferred_round = 0, sd_last_vote = None\<rparr>"
  show ?thesis
  proof (cases r1)
    case (Inl e)
    then have "s' = s1" using assms(1) sd by (simp add: guarded_initialize_def)
    then show ?thesis using ok1(1) by blast
  next
    case (Inr d1)
    have d1: "d1 = d" using ok1(2) [OF Inr] .
    obtain s2 r2 where st: "(if sd_epoch d < es_epoch es then sr_set_safety_data io s1 ?d else Some (s1, Inr ())) = Some (s2, r2)"
    proof -
      have "(if sd_epoch d < es_epoch es then sr_set_safety_data io s1 ?d else Some (s1, Inr ())) \<noteq> None"
        by (simp add: sr_set_safety_data_def split: prod.split)
      then show ?thesis using that by fastforce
    qed
    let ?x = "if sd_epoch d < es_epoch es then ?d else d"
    have ok2: "store_ok (sr_persistent_storage s2) (case r2 of Inl _ \<Rightarrow> d | Inr _ \<Rightarrow> ?x)"
        "sr_epoch_state s2 = sr_epoch_state s1"
      using st ok1(1) set_safety_data_ok [of "sr_persistent_storage s1" d io ?d]
      by (auto simp: sr_set_safety_data_def sr_ok_def split: if_splits prod.splits sum.splits)
    show ?thesis
    proof (cases r2)
      case (Inl e)
      then have "s' = s2" using assms(1) sd Inr d1 st by (simp add: guarded_initialize_def)
      then show ?thesis using ok1(1) ok2 Inl by (auto simp: sr_ok_def)
    next
      case r2: (Inr u)
      have "sr_persistent_storage s' = sr_persistent_storage s2 \<and> sr_epoch_state s' = Some es"
        using assms(1) sd Inr d1 st r2
        by (auto simp: guarded_initialize_def Let_def stry_def slift_def dest!: initialize_signer_state
            split: option.splits sum.splits prod.splits)
      then have "sr_ok en com s' ?x"
        using ok2(1) r2 assms(3,4) by (auto simp: sr_ok_def)
      then show ?thesis by (auto split: if_splits)
    qed
  qed
qed

section \<open>The life of a validator\<close>

text \<open>A new process on the files of the old one: an on-disk file that is missing is created empty.\<close>

definition reopen :: "storage \<Rightarrow> storage" where
  "reopen st = st\<lparr>st_main := Some (on_disk_storage_new (st_main st))\<rparr>"

definition restart :: "bool \<Rightarrow> bool \<Rightarrow> safety_rules \<Rightarrow> address \<Rightarrow> bool \<Rightarrow> bool \<Rightarrow> safety_rules option" where
  "restart io1 io2 s author cached export =
     do { ps \<leftarrow> storage_initialize io1 io2 (reopen (ps_internal_store (sr_persistent_storage s))) author
            (ps_private_key (sr_persistent_storage s)) cached;
          Some (safety_rules_new ps export) }"

text \<open>The identifier of a block is the hash of its data, as every constructor of a block sets it.\<close>

definition block_ok :: "crypto \<Rightarrow> block \<Rightarrow> bool" where
  "block_ok cr b \<longleftrightarrow> b_id b = cr_hash_block_data cr (b_block_data b)"

text \<open>
  The states a validator can reach from a fresh storage, with the log of the votes it has released,
  newest first. Writes and renames may fail at any time. The epochs it is initialised with do not
  decrease and their validators are the committee \<open>com\<close> of the epoch. The process may crash and restart
  at any time while it is voting; after it stopped voting it votes again only in a process that takes
  the saved file over.
\<close>

inductive validator_run ::
  "env \<Rightarrow> (nat \<Rightarrow> validator_verifier) \<Rightarrow> safety_rules \<Rightarrow> (block \<times> vote) list \<Rightarrow> bool" for en com where
  fresh: "storage_initialize io1 io2 st author pk cached = Some ps \<Longrightarrow> file_safety_data (st_main st) = None \<Longrightarrow>
    st_main st \<noteq> None \<Longrightarrow> st_save st = None \<Longrightarrow> validator_run en com (safety_rules_new ps export) []"
| init: "validator_run en com s log \<Longrightarrow> persisted (ps_internal_store (sr_persistent_storage s)) = Some d \<Longrightarrow>
    sd_epoch d \<le> es_epoch es \<Longrightarrow> verifier (en_hardcoded en) es = com (es_epoch es) \<Longrightarrow>
    guarded_initialize en io s es = Some (s', r) \<Longrightarrow> validator_run en com s' log"
| vote: "validator_run en com s log \<Longrightarrow> block_ok (en_crypto en) (vp_block (mp_vote_proposal mp)) \<Longrightarrow>
    guarded_construct_and_sign_vote en io s mp = Some (s', Inr v) \<Longrightarrow>
    validator_run en com s' (if v \<in> snd ` set log then log else (vp_block (mp_vote_proposal mp), v) # log)"
| vote_rejected: "validator_run en com s log \<Longrightarrow>
    guarded_construct_and_sign_vote en io s mp = Some (s', Inl e) \<Longrightarrow> validator_run en com s' log"
| proposal: "validator_run en com s log \<Longrightarrow> guarded_sign_proposal en io s bd = Some (s', r) \<Longrightarrow>
    validator_run en com s' log"
| timeout: "validator_run en com s log \<Longrightarrow> guarded_sign_timeout en io s t = Some (s', r) \<Longrightarrow>
    validator_run en com s' log"
| start: "validator_run en com s log \<Longrightarrow> start_voting io s i = Some (s', r) \<Longrightarrow> validator_run en com s' log"
| stop: "validator_run en com s log \<Longrightarrow> stop_voting io s = Some (s', r) \<Longrightarrow> validator_run en com s' log"
| crash: "validator_run en com s log \<Longrightarrow> st_main (ps_internal_store (sr_persistent_storage s)) \<noteq> None \<Longrightarrow>
    restart io1 io2 s author cached export = Some s' \<Longrightarrow> validator_run en com s' log"
| handover: "validator_run en com s log \<Longrightarrow> st_main (ps_internal_store (sr_persistent_storage s)) = None \<Longrightarrow>
    restart io1 io2 s author cached export = Some s1 \<Longrightarrow> start_voting io s1 False = Some (s', Inr ()) \<Longrightarrow>
    validator_run en com s' log"

lemma start_voting_ok:
  assumes "start_voting io s i = Some (s', r)" and "sr_ok en com s d"
  shows "s' = s"
proof -
  let ?st = "ps_internal_store (sr_persistent_storage s)"
  have "st_main ?st = None \<or> st_save ?st = None"
    using assms(2) by (simp add: sr_ok_def store_ok_def)
  then have "fst (replace_with_suffix io (sr_persistent_storage s)) = sr_persistent_storage s"
    by (auto simp: replace_with_suffix_def Let_def file_get_def split: option.splits)
  then show ?thesis
    using assms(1) by (auto simp: start_voting_def Let_def split: if_splits prod.splits)
qed

lemma stop_voting_ok:
  assumes "stop_voting io s = Some (s', r)" and "sr_ok en com s d"
  shows "sr_ok en com s' d"
  using assms
  by (auto simp: stop_voting_def Let_def save_to_suffix_def sr_ok_def store_ok_def persisted_def split: if_splits)

lemma safety_rules_new_ok: "store_ok ps d \<Longrightarrow> sr_ok en com (safety_rules_new ps export) d"
  by (simp add: sr_ok_def safety_rules_new_def)

lemma file_safety_data_get:
  "file_safety_data f = Some d \<longleftrightarrow> try_res (file_get f SAFETY_DATA) as_safety_data = Inr d"
  by (auto simp: file_safety_data_def file_get_def as_safety_data_def try_res_def ok_or_def
      split: option.splits sum.splits stored_value.splits)

lemma restart_running_ok:
  assumes "restart io1 io2 s author cached export = Some s'" and "sr_ok en com s d"
    and "st_main (ps_internal_store (sr_persistent_storage s)) \<noteq> None"
  shows "sr_ok en com s' d"
proof -
  let ?st = "ps_internal_store (sr_persistent_storage s)"
  have re: "reopen ?st = ?st"
    using assms(3) by (auto simp: reopen_def on_disk_storage_new_def split: option.splits)
  have "file_safety_data (st_main ?st) = Some d"
    using assms(2,3) by (simp add: sr_ok_def store_ok_def persisted_def)
  then have "try_res (storage_get ?st SAFETY_DATA) as_safety_data = Inr d"
    by (simp add: storage_get_def file_safety_data_get)
  then obtain ps where "s' = safety_rules_new ps export" "ps_internal_store ps = ?st" "ps_cached_safety_data ps = Some d"
    using assms(1) re by (auto simp: restart_def option_bind_simps storage_initialize_def initialize_store_def)
  moreover from this have "store_ok ps d"
    using assms(2) by (simp add: sr_ok_def store_ok_def)
  ultimately show ?thesis
    by (simp add: safety_rules_new_ok)
qed

lemma handover_ok:
  assumes "restart io1 io2 s author cached export = Some s1" and "start_voting io s1 False = Some (s', Inr ())"
    and "sr_ok en com s d" and "st_main (ps_internal_store (sr_persistent_storage s)) = None"
  shows "sr_ok en com s' d"
proof -
  let ?st = "ps_internal_store (sr_persistent_storage s)"
  obtain f where f: "st_save ?st = Some f" "file_safety_data (Some f) = Some d"
    using assms(3,4) by (cases "st_save ?st") (auto simp: sr_ok_def store_ok_def persisted_def file_safety_data_def)
  obtain ps where ps: "s1 = safety_rules_new ps export"
    "storage_initialize io1 io2 (reopen ?st) author (ps_private_key (sr_persistent_storage s)) cached = Some ps"
    using assms(1) by (auto simp: restart_def option_bind_simps)
  have sv: "st_save (ps_internal_store ps) = Some f"
    using ps(2) f(1)
    by (auto simp: storage_initialize_def initialize_store_def storage_set_def reopen_def
        split: prod.splits sum.splits if_splits option.splits)
  have "sr_persistent_storage s1 = ps" "sr_epoch_state s1 = None"
    using ps(1) by (simp_all add: safety_rules_new_def)
  then have "sr_persistent_storage s' = ps\<lparr>ps_internal_store := (ps_internal_store ps)\<lparr>st_main := Some f, st_save := None\<rparr>,
      ps_cached_safety_data := Some d\<rparr> \<and> sr_epoch_state s' = None"
    using assms(2) sv f(2)
    by (auto simp: start_voting_def replace_with_suffix_def Let_def file_safety_data_get
        split: if_splits sum.splits prod.splits)
  then show ?thesis
    using f(2) by (simp add: sr_ok_def store_ok_def persisted_def)
qed

section \<open>The log of a validator\<close>

definition cast_entry :: "env \<Rightarrow> validator_verifier \<Rightarrow> block \<Rightarrow> vote \<Rightarrow> bool" where
  "cast_entry en vv b v \<longleftrightarrow> block_ok (en_crypto en) b \<and> (\<exists>p d d'. vp_block p = b \<and> casts en vv d p v d')"

text \<open>What a cast vote says: its data describe the block, its ledger info follows the three-chain rule.\<close>

lemma extension_check_data:
  "extension_check en p = Some (Inr vd) \<Longrightarrow>
     bi_id (vd_proposed vd) = b_id (vp_block p) \<and> bi_epoch (vd_proposed vd) = b_epoch (vp_block p) \<and>
     bi_round (vd_proposed vd) = b_round (vp_block p) \<and>
     vd_parent vd = certified_block (b_quorum_cert (vp_block p))"
  by (auto simp: extension_check_def Let_def result_simps gen_block_info_def block_info_new_def)

lemma construct_ledger_info_data:
  "construct_ledger_info b h = Inr li \<Longrightarrow> li_consensus_data_hash li = h \<and>
     (li_commit_info li = block_info_empty \<or>
      li_commit_info li = parent_block (b_quorum_cert b) \<and>
      bi_round (certified_block (b_quorum_cert b)) = Suc (bi_round (parent_block (b_quorum_cert b))) \<and>
      b_round b = Suc (Suc (bi_round (parent_block (b_quorum_cert b)))))"
  by (auto simp: construct_ledger_info_def Let_def result_simps next_round_def add64_Some_iff split: if_splits)

lemma cast_entry_data:
  assumes "cast_entry en vv b v"
  shows "b_id b = cr_hash_block_data (en_crypto en) (b_block_data b)"
    and "bi_id (vd_proposed (vote_vote_data v)) = b_id b"
    and "bi_epoch (vd_proposed (vote_vote_data v)) = b_epoch b"
    and "bi_round (vd_proposed (vote_vote_data v)) = b_round b"
    and "vd_parent (vote_vote_data v) = certified_block (b_quorum_cert b)"
    and "quorum_cert_verify (en_crypto en) (b_quorum_cert b) vv = Some (Inr ())"
    and "li_consensus_data_hash (vote_ledger_info v) = cr_hash_vote_data (en_crypto en) (vote_vote_data v)"
    and "0 < b_round b"
  using assms extension_check_data construct_ledger_info_data
  by (auto simp: cast_entry_def block_ok_def casts_def Let_def)

lemma cast_entry_commit:
  assumes "cast_entry en vv b v" and "li_commit_info (vote_ledger_info v) \<noteq> block_info_empty"
  shows "li_commit_info (vote_ledger_info v) = parent_block (b_quorum_cert b)"
    and "bi_round (certified_block (b_quorum_cert b)) = Suc (bi_round (parent_block (b_quorum_cert b)))"
    and "b_round b = Suc (Suc (bi_round (parent_block (b_quorum_cert b))))"
proof -
  obtain h where "construct_ledger_info b h = Inr (vote_ledger_info v)"
    using assms(1) by (auto simp: cast_entry_def casts_def Let_def)
  from construct_ledger_info_data [OF this] assms(2)
  show "li_commit_info (vote_ledger_info v) = parent_block (b_quorum_cert b)"
    and "bi_round (certified_block (b_quorum_cert b)) = Suc (bi_round (parent_block (b_quorum_cert b)))"
    and "b_round b = Suc (Suc (bi_round (parent_block (b_quorum_cert b))))" by auto
qed

text \<open>A later entry is of a later epoch, or of a later round whose certificate respects the lock of the earlier one.\<close>

definition entry_after :: "block \<times> vote \<Rightarrow> block \<times> vote \<Rightarrow> bool" where
  "entry_after later earlier \<longleftrightarrow>
     b_epoch (fst earlier) < b_epoch (fst later) \<or>
     b_epoch (fst earlier) = b_epoch (fst later) \<and> b_round (fst earlier) < b_round (fst later) \<and>
     bi_round (parent_block (b_quorum_cert (fst earlier))) \<le> bi_round (certified_block (b_quorum_cert (fst later)))"

definition within :: "safety_data \<Rightarrow> block \<Rightarrow> bool" where
  "within d b \<longleftrightarrow> b_epoch b < sd_epoch d \<or>
     b_epoch b = sd_epoch d \<and> b_round b \<le> sd_last_voted_round d \<and>
     bi_round (parent_block (b_quorum_cert b)) \<le> sd_preferred_round d"

definition log_ok ::
  "env \<Rightarrow> (nat \<Rightarrow> validator_verifier) \<Rightarrow> safety_data \<Rightarrow> (block \<times> vote) list \<Rightarrow> bool" where
  "log_ok en com d log \<longleftrightarrow>
     (\<forall>(b, v)\<in>set log. cast_entry en (com (b_epoch b)) b v \<and> within d b) \<and>
     sorted_wrt entry_after log \<and>
     (\<forall>v. sd_last_vote d = Some v \<longrightarrow> v \<in> snd ` set log)"

lemma log_ok_raises: "log_ok en com d log \<Longrightarrow> raises d d' \<Longrightarrow> log_ok en com d' log"
  unfolding log_ok_def raises_def within_def by fastforce

lemma log_ok_new_epoch:
  "log_ok en com d log \<Longrightarrow> sd_epoch d < e \<Longrightarrow>
     log_ok en com \<lparr>sd_epoch = e, sd_last_voted_round = 0, sd_preferred_round = 0, sd_last_vote = None\<rparr> log"
  unfolding log_ok_def within_def by fastforce

lemma log_ok_casts:
  assumes "log_ok en com d log" and "casts en (com (sd_epoch d)) d p v d'" and "block_ok (en_crypto en) (vp_block p)"
  shows "log_ok en com d' ((vp_block p, v) # log)"
proof -
  let ?b = "vp_block p"
  have c: "b_epoch ?b = sd_epoch d" "sd_last_voted_round d < b_round ?b"
    "sd_preferred_round d \<le> bi_round (certified_block (b_quorum_cert ?b))"
    "d' = \<lparr>sd_epoch = sd_epoch d, sd_last_voted_round = b_round ?b, sd_preferred_round =
       max (sd_preferred_round d) (bi_round (parent_block (b_quorum_cert ?b))), sd_last_vote = Some v\<rparr>"
    using assms(2) by (auto simp: casts_def Let_def)
  have w: "\<forall>(b, u)\<in>set log. within d b" and en: "cast_entry en (com (b_epoch ?b)) ?b v"
    using assms c(1) by (auto simp: log_ok_def cast_entry_def)
  have "\<forall>e\<in>set log. entry_after (?b, v) e"
    using w c by (fastforce simp: within_def entry_after_def)
  moreover have "within d' ?b" "\<forall>(b, u)\<in>set log. within d' b"
    using w c by (fastforce simp: within_def)+
  ultimately show ?thesis
    using assms(1) en c(4) by (auto simp: log_ok_def)
qed

text \<open>The invariant of every reachable state.\<close>

lemma validator_run_ok:
  "validator_run en com s log \<Longrightarrow> \<exists>d. sr_ok en com s d \<and> log_ok en com d log"
proof (induction rule: validator_run.induct)
  case (fresh io1 io2 st author pk cached ps export)
  have "try_res (storage_get st SAFETY_DATA) as_safety_data \<noteq> Inr d" for d
    using fresh(2) by (auto simp: storage_get_def simp flip: file_safety_data_get)
  then obtain e where "try_res (storage_get st SAFETY_DATA) as_safety_data = Inl e"
    by (cases "try_res (storage_get st SAFETY_DATA) as_safety_data") auto
  then have "store_ok ps genesis_safety_data"
    using fresh(1,3,4)
    by (auto simp: storage_initialize_def initialize_store_def storage_set_def store_ok_def persisted_def
        file_safety_data_def SAFETY_DATA_def OWNER_ACCOUNT_def split: prod.splits sum.splits if_splits option.splits)
  then show ?case
    using safety_rules_new_ok by (fastforce simp: log_ok_def genesis_safety_data_def)
next
  case (init s log d es io s' r)
  then obtain d' where d': "sr_ok en com s d'" "log_ok en com d' log" by blast
  then have "d' = d" using init(2) by (simp add: sr_ok_def store_ok_def)
  then show ?case
    using initialize_ok [OF init(5) d'(1)] init(3,4) d'(2) log_ok_new_epoch by blast
next
  case (vote s log mp io s' v)
  then obtain d where d: "sr_ok en com s d" "log_ok en com d log" by blast
  show ?case
    using vote_ok [OF vote(3) d(1)]
  proof
    assume a: "sd_last_vote d = Some v \<and> bi_round (vd_proposed (vote_vote_data v)) = b_round (vp_block (mp_vote_proposal mp)) \<and>
      sr_ok en com s' d"
    then have "v \<in> snd ` set log" using d(2) by (simp add: log_ok_def)
    then show ?thesis using a d(2) by auto
  next
    assume "\<exists>d'. casts en (com (sd_epoch d)) d (mp_vote_proposal mp) v d' \<and> sr_ok en com s' d'"
    then obtain d' where d': "casts en (com (sd_epoch d)) d (mp_vote_proposal mp) v d'" "sr_ok en com s' d'" by blast
    have "v \<notin> snd ` set log"
    proof
      assume "v \<in> snd ` set log"
      then obtain b where b: "(b, v) \<in> set log" by auto
      then have "cast_entry en (com (b_epoch b)) b v" "within d b"
        using d(2) by (auto simp: log_ok_def)
      moreover have "cast_entry en (com (sd_epoch d)) (vp_block (mp_vote_proposal mp)) v"
        using d'(1) vote(2) by (auto simp: cast_entry_def)
      ultimately have "b_epoch b = b_epoch (vp_block (mp_vote_proposal mp))"
        "b_round b = b_round (vp_block (mp_vote_proposal mp))"
        using cast_entry_data(3,4) by metis+
      then show False
        using d'(1) \<open>within d b\<close> by (auto simp: casts_def Let_def within_def)
    qed
    then show ?thesis
      using log_ok_casts [OF d(2) d'(1) vote(2)] d'(2) by auto
  qed
next
  case (vote_rejected s log io mp s' e)
  then show ?case using vote_err by blast
next
  case (proposal s log io bd s' r)
  then show ?case using sign_proposal_ok log_ok_raises by blast
next
  case (timeout s log io t s' r)
  then show ?case using sign_timeout_ok log_ok_raises by blast
next
  case (start s log io i s' r)
  then show ?case using start_voting_ok by blast
next
  case (stop s log io s' r)
  then show ?case using stop_voting_ok by blast
next
  case (crash s log io1 io2 author cached export s')
  then show ?case using restart_running_ok by blast
next
  case (handover s log io1 io2 author cached export s1 io s')
  then show ?case using handover_ok by blast
qed

lemma log_ok_pair:
  assumes "log_ok en com d log" and "e1 \<in> set log" and "e2 \<in> set log"
  shows "e1 = e2 \<or> entry_after e1 e2 \<or> entry_after e2 e1"
proof -
  obtain i j where "i < length log" "e1 = log ! i" "j < length log" "e2 = log ! j"
    using assms(2,3) by (metis in_set_conv_nth)
  then show ?thesis
    using assms(1) sorted_wrt_nth_less [of entry_after log]
    by (cases i j rule: linorder_cases) (auto simp: log_ok_def)
qed

section \<open>An example run\<close>

definition ex_log :: "nat \<Rightarrow> (block \<times> vote) list" where
  "ex_log n = rev (map (\<lambda>r. (ex_block (Suc r), ex_vote (Suc r))) [0..<n])"

lemma ex_vote_round [simp]: "bi_round (vd_proposed (vote_vote_data (ex_vote r))) = r" "vote_epoch (ex_vote r) = 1"
  by (simp_all add: ex_vote_def vote_new_with_signature_def vote_epoch_def ex_vote_data_def ex_info_def)

lemma ex_block_ok: "block_ok (en_crypto ex_env) (ex_block r)"
  by (simp add: block_ok_def) (simp add: ex_block_def new_proposal_from_block_data_and_signature_def
      block_data_new_proposal_def ex_crypto_def)

lemma ex_run_vote:
  assumes "validator_run ex_env (\<lambda>_. ex_verifier) (ex_rules (ex_data r)) (ex_log r)" and "r < 9"
  shows "validator_run ex_env (\<lambda>_. ex_verifier) (ex_rules (ex_data (Suc r))) (ex_log (Suc r))"
proof -
  have "ex_vote (Suc r) \<noteq> ex_vote (Suc i)" if "i < r" for i
    using ex_vote_round(1) [of "Suc r"] ex_vote_round(1) [of "Suc i"] that by (metis nat.inject nat_neq_iff)
  then have "ex_vote (Suc r) \<notin> (\<lambda>i. ex_vote (Suc i)) ` {0..<r}"
    by fastforce
  then have "ex_vote (Suc r) \<notin> snd ` set (ex_log r)"
    by (simp add: ex_log_def image_image)
  then show ?thesis
    using validator_run.vote [OF assms(1) _ ex_votes [OF assms(2)]] ex_block_ok [of "Suc r"]
    by (simp add: ex_log_def)
qed

lemma ex_run:
  assumes "n < 10"
  shows "validator_run ex_env (\<lambda>_. ex_verifier) (ex_rules (ex_data n)) (ex_log n)"
  using assms
proof (induction n)
  case 0
  have "validator_run ex_env (\<lambda>_. ex_verifier) (safety_rules_new (ex_storage genesis_safety_data) True) []"
    by (rule validator_run.fresh [OF ex_initialize]) (simp_all add: ex_store_def file_safety_data_def)
  then have "validator_run ex_env (\<lambda>_. ex_verifier) (ex_rules genesis_safety_data) []"
    by (rule validator_run.init [OF _ _ _ _ ex_guarded_initialize, where d = genesis_safety_data])
      (simp_all add: safety_rules_new_def ex_storage_def persisted_def file_safety_data_def ex_file_def
        SAFETY_DATA_def OWNER_ACCOUNT_def genesis_safety_data_def ex_epoch_def verifier_def ex_env_def)
  then show ?case
    by (simp add: ex_data_def ex_log_def)
next
  case (Suc n)
  then show ?case
    using ex_run_vote [of n] by simp
qed

lemma ex_log_members: "1 \<le> r \<Longrightarrow> r \<le> n \<Longrightarrow> (ex_block r, ex_vote r) \<in> set (ex_log n)"
  by (auto simp: ex_log_def image_iff intro!: bexI [of _ "r - 1"])

section \<open>Properties\<close>



text \<open>
  C3. The locking rule: when a validator has voted for two blocks of an epoch, the block of the higher
  round carries a certificate for a round no lower than that of the grandparent of the other block;
  a released vote that commits a block commits the grandparent of its block, and the three rounds
  are consecutive.
\<close>

theorem votes_respect_lock:
  assumes "validator_run en com s log" and "(b1, v1) \<in> set log" and "(b2, v2) \<in> set log"
    and "b_epoch b1 = b_epoch b2" and "b_round b1 < b_round b2"
  shows "bi_round (parent_block (b_quorum_cert b1)) \<le> bi_round (certified_block (b_quorum_cert b2)) \<and>
    (li_commit_info (vote_ledger_info v1) \<noteq> block_info_empty \<longrightarrow>
       li_commit_info (vote_ledger_info v1) = parent_block (b_quorum_cert b1) \<and>
       b_round b1 = Suc (bi_round (certified_block (b_quorum_cert b1))) \<and>
       b_round b1 = Suc (Suc (bi_round (parent_block (b_quorum_cert b1)))))"
proof -
  obtain d where l: "log_ok en com d log"
    using validator_run_ok [OF assms(1)] by blast
  then have c: "cast_entry en (com (b_epoch b1)) b1 v1"
    using assms(2) by (auto simp: log_ok_def)
  have "bi_round (parent_block (b_quorum_cert b1)) \<le> bi_round (certified_block (b_quorum_cert b2))"
    using log_ok_pair [OF l assms(2,3)] assms(4,5) by (auto simp: entry_after_def)
  then show ?thesis
    using cast_entry_commit [OF c] by auto
qed

theorem votes_respect_lock_witness:
  "validator_run ex_env (\<lambda>_. ex_verifier) (ex_rules (ex_data 3)) (ex_log 3) \<and>
     b_round (ex_block 2) < b_round (ex_block 3) \<and>
     bi_round (parent_block (b_quorum_cert (ex_block 2))) \<le> bi_round (certified_block (b_quorum_cert (ex_block 3)))"
  using ex_run [of 3] votes_respect_lock [OF ex_run [of 3] ex_log_members [of 2] ex_log_members [of 3]] by simp

text \<open>
  Without the cache of the safety data the storage is unusable: every access to the safety data
  fails, so the safety rules can neither be initialised nor sign anything.
\<close>

theorem uncached_storage_unusable:
  assumes "\<not> ps_enable_cached_safety_data (sr_persistent_storage s)"
  shows "(\<exists>e. guarded_initialize en io s es = Some (s, Inl e)) \<and>
    (\<exists>e. guarded_construct_and_sign_vote en io s mp = Some (s, Inl e)) \<and>
    (\<exists>e. guarded_sign_timeout en io s t = Some (s, Inl e)) \<and>
    (\<exists>e. guarded_sign_proposal en io s bd = Some (s, Inl e))"
proof -
  obtain e where e: "sr_safety_data s = Some (s, Inl e)"
    using assms
    by (cases "storage_get (ps_internal_store (sr_persistent_storage s)) SAFETY_DATA")
      (auto simp: sr_safety_data_def storage_safety_data_def as_result_safety_data_def)
  show ?thesis
    by (auto simp: guarded_initialize_def guarded_construct_and_sign_vote_def guarded_sign_timeout_def
        guarded_sign_proposal_def e stry_def slift_def Let_def split: sum.splits)
qed

theorem uncached_storage_unusable_witness:
  "\<exists>e. guarded_initialize ex_env True
     (safety_rules_new ((ex_storage genesis_safety_data)\<lparr>ps_enable_cached_safety_data := False\<rparr>) True) ex_epoch
     = Some (safety_rules_new ((ex_storage genesis_safety_data)\<lparr>ps_enable_cached_safety_data := False\<rparr>) True, Inl e)"
  using uncached_storage_unusable
    [of "safety_rules_new ((ex_storage genesis_safety_data)\<lparr>ps_enable_cached_safety_data := False\<rparr>) True"]
  by (simp add: safety_rules_new_def)

end
