(* ===== verification/Bft_Safety.thy ===== *)
theory Bft_Safety
  imports Safety_Props
begin

text \<open>
  Agreement of the finality layer. The locale \<open>three_chain\<close> is the argument of chained BFT protocols
  on abstract votes: nobody correct votes twice in a round, votes respect the lock and are only given
  to children of certified nodes; then whatever is certified after a three-chain extends its first
  node. It is interpreted on the logs of honest validators, whose laws are those of the safety rules,
  and yields that two quorum certificates of an epoch never commit conflicting blocks.
\<close>

section \<open>Chained voting\<close>

locale three_chain = quorum_system members weight quorum
  for members :: "'n set" and weight :: "'n \<Rightarrow> nat" and quorum :: "'n set \<Rightarrow> bool" +
  fixes faulty :: "'n set"
    and votes :: "'n \<Rightarrow> 'v set"
    and parent :: "'v \<Rightarrow> 'v \<Rightarrow> bool"
    and number :: "'v \<Rightarrow> nat"
    and certified :: "'v \<Rightarrow> bool"
  assumes few_faulty: "3 * sum weight (members \<inter> faulty) \<le> sum weight members"
    and certified_quorum: "certified x \<Longrightarrow> \<exists>Q. quorum Q \<and> (\<forall>n\<in>Q - faulty. x \<in> votes n)"
    and vote_once: "n \<notin> faulty \<Longrightarrow> x \<in> votes n \<Longrightarrow> y \<in> votes n \<Longrightarrow> number x = number y \<Longrightarrow> x = y"
    and parent_certified: "parent x y \<Longrightarrow> certified y \<and> number y < number x"
    and vote_locked: "n \<notin> faulty \<Longrightarrow> x \<in> votes n \<Longrightarrow> y \<in> votes n \<Longrightarrow> number x < number y \<Longrightarrow>
      parent x x1 \<Longrightarrow> parent x1 x0 \<Longrightarrow> \<exists>z. parent y z \<and> number x0 \<le> number z"
begin

lemma common_voter:
  assumes "certified x" and "certified y"
  shows "\<exists>n. n \<notin> faulty \<and> x \<in> votes n \<and> y \<in> votes n"
proof -
  obtain Q R where "quorum Q" "\<forall>n\<in>Q - faulty. x \<in> votes n" "quorum R" "\<forall>n\<in>R - faulty. y \<in> votes n"
    using certified_quorum assms by meson
  then show ?thesis
    using correct_intersection [OF _ _ few_faulty, of Q R] by blast
qed

lemma certified_unique: "certified x \<Longrightarrow> certified y \<Longrightarrow> number x = number y \<Longrightarrow> x = y"
  using common_voter vote_once by meson

text \<open>What is certified at or above the first node of a three-chain descends from it.\<close>

lemma certified_extends:
  assumes "certified x2" and "parent x2 x1" and "parent x1 x0"
    and "number x1 = Suc (number x0)" and "number x2 = Suc (number x1)"
    and "certified y" and "number x0 \<le> number y"
  shows "parent\<^sup>*\<^sup>* y x0"
  using assms(6,7)
proof (induction "number y" arbitrary: y rule: less_induct)
  case less
  consider "number y = number x0" | "number y = number x1" | "number y = number x2" | "number x2 < number y"
    using less.prems(2) assms(4,5) by linarith
  then show ?case
  proof cases
    case 1
    then show ?thesis
      using certified_unique [of y x0] parent_certified [OF assms(3)] less.prems(1) by simp
  next
    case 2
    then have "y = x1"
      using certified_unique [of y x1] parent_certified [OF assms(2)] less.prems(1) by simp
    then show ?thesis using assms(3) by simp
  next
    case 3
    then have "y = x2" using certified_unique assms(1) less.prems(1) by blast
    then show ?thesis using assms(2,3) by (simp add: converse_rtranclp_into_rtranclp)
  next
    case 4
    obtain n where "n \<notin> faulty" "x2 \<in> votes n" "y \<in> votes n"
      using common_voter assms(1) less.prems(1) by blast
    then obtain z where z: "parent y z" "number x0 \<le> number z"
      using vote_locked 4 assms(2,3) by meson
    then have "parent\<^sup>*\<^sup>* z x0"
      using less.hyps parent_certified [OF z(1)] by blast
    then show ?thesis
      using z(1) by (meson converse_rtranclp_into_rtranclp)
  qed
qed

end

section \<open>The validators of an epoch\<close>

text \<open>
  An epoch seen from outside: the environment, the committees, the epoch, the validators that follow the
  code, the logs of their votes, and the quorum certificates that circulate besides those in the blocks
  of the logs. The other members of the committee are arbitrary.
\<close>

record network =
  nw_env :: env
  nw_committee :: "nat \<Rightarrow> validator_verifier"
  nw_epoch :: nat
  nw_honest :: "address set"
  nw_log :: "address \<Rightarrow> (block \<times> vote) list"
  nw_certs :: "quorum_cert set"

abbreviation nw_vv :: "network \<Rightarrow> validator_verifier" where
  "nw_vv S \<equiv> nw_committee S (nw_epoch S)"

definition entries :: "network \<Rightarrow> (block \<times> vote) set" where
  "entries S = (\<Union>a\<in>nw_honest S. set (nw_log S a))"

definition known_certs :: "network \<Rightarrow> quorum_cert set" where
  "known_certs S = nw_certs S \<union> (b_quorum_cert \<circ> fst) ` entries S"

text \<open>The committee was built by \<^const>\<open>validator_verifier_new\<close>, and less than a third of its power is faulty.\<close>

definition committee_ok :: "network \<Rightarrow> bool" where
  "committee_ok S \<longleftrightarrow> verifier_ok (nw_vv S) \<and> validators (nw_vv S) \<noteq> {} \<and>
     3 * sum (power_of (nw_vv S)) (validators (nw_vv S) - nw_honest S) \<le> sum (power_of (nw_vv S)) (validators (nw_vv S))"

text \<open>
  Honest validators run the safety rules, and vote only for blocks that passed \<^const>\<open>block_verify_well_formed\<close>,
  as the verification of every proposal demands.
\<close>

definition honest_runs :: "network \<Rightarrow> bool" where
  "honest_runs S \<longleftrightarrow>
     (\<forall>a\<in>nw_honest S. \<exists>s. validator_run (nw_env S) (nw_committee S) s (nw_log S a)) \<and>
     (\<forall>(b, v)\<in>entries S. \<exists>now. block_verify_well_formed (en_crypto (nw_env S)) now b = Some (Inr ()))"

text \<open>
  Signatures: when a known certificate carries a valid signature of an honest validator on its ledger info,
  that validator voted for it. The signatures of a certificate are an ordered map.
\<close>

definition unforgeable :: "network \<Rightarrow> bool" where
  "unforgeable S \<longleftrightarrow> (\<forall>qc\<in>known_certs S. bt_ok (lis_signatures (qc_signed_ledger_info qc)) \<and>
     (\<forall>(a, sig)\<in>set (lis_signatures (qc_signed_ledger_info qc)). \<forall>pk.
        a \<in> nw_honest S \<and> get_public_key (nw_vv S) a = Some pk \<and>
        cr_verify (en_crypto (nw_env S)) pk (MLedgerInfo (qc_ledger_info qc)) sig \<longrightarrow>
        (\<exists>(b, v)\<in>set (nw_log S a). vote_ledger_info v = qc_ledger_info qc)))"

text \<open>Hashes: no two of the vote data and no two of the blocks that occur collide.\<close>

definition collision_free :: "network \<Rightarrow> bool" where
  "collision_free S \<longleftrightarrow>
     inj_on (cr_hash_vote_data (en_crypto (nw_env S)))
       (qc_vote_data ` known_certs S \<union> (vote_vote_data \<circ> snd) ` entries S) \<and>
     inj_on (cr_hash_block_data (en_crypto (nw_env S))) ((b_block_data \<circ> fst) ` entries S)"

definition network_ok :: "network \<Rightarrow> bool" where
  "network_ok S \<longleftrightarrow> committee_ok S \<and> honest_runs S \<and> unforgeable S \<and> collision_free S"

section \<open>The votes of an epoch as chained voting\<close>

definition nw_entries :: "network \<Rightarrow> address \<Rightarrow> (block \<times> vote) set" where
  "nw_entries S a = {(b, v). network_ok S \<and> (b, v) \<in> set (nw_log S a) \<and> b_epoch b = nw_epoch S}"

definition nw_faulty :: "network \<Rightarrow> address set" where
  "nw_faulty S = (if network_ok S then - nw_honest S else {})"

definition nw_votes :: "network \<Rightarrow> address \<Rightarrow> vote_data set" where
  "nw_votes S a = (vote_vote_data \<circ> snd) ` nw_entries S a"

definition vd_round :: "vote_data \<Rightarrow> nat" where
  "vd_round vd = bi_round (vd_proposed vd)"

text \<open>The parent of what is voted for is what the certificate of the block certifies, unless it is a genesis.\<close>

definition nw_parent :: "network \<Rightarrow> vote_data \<Rightarrow> vote_data \<Rightarrow> bool" where
  "nw_parent S x y \<longleftrightarrow> (\<exists>a\<in>nw_honest S. \<exists>(b, v)\<in>nw_entries S a.
     vote_vote_data v = x \<and> qc_vote_data (b_quorum_cert b) = y \<and> 0 < vd_round y)"

definition nw_certified :: "network \<Rightarrow> vote_data \<Rightarrow> bool" where
  "nw_certified S x \<longleftrightarrow> network_ok S \<and> (\<exists>qc\<in>known_certs S. qc_vote_data qc = x \<and> 0 < vd_round x \<and>
     bi_epoch (vd_proposed x) = nw_epoch S \<and> quorum_cert_verify (en_crypto (nw_env S)) qc (nw_vv S) = Some (Inr ()))"

lemma nw_entriesD:
  assumes "(b, v) \<in> nw_entries S a" and "a \<in> nw_honest S"
  shows "network_ok S" and "b_epoch b = nw_epoch S" and "(b, v) \<in> entries S"
    and "cast_entry (nw_env S) (nw_vv S) b v"
    and "\<exists>now. block_verify_well_formed (en_crypto (nw_env S)) now b = Some (Inr ())"
    and "b_quorum_cert b \<in> known_certs S"
proof -
  show ok: "network_ok S" and e: "b_epoch b = nw_epoch S" and en: "(b, v) \<in> entries S"
    using assms by (auto simp: nw_entries_def entries_def)
  obtain s where "validator_run (nw_env S) (nw_committee S) s (nw_log S a)"
    using ok assms(2) by (auto simp: network_ok_def honest_runs_def)
  then obtain d where "log_ok (nw_env S) (nw_committee S) d (nw_log S a)"
    using validator_run_ok by blast
  then show "cast_entry (nw_env S) (nw_vv S) b v"
    using assms(1) e by (auto simp: log_ok_def nw_entries_def)
  show "\<exists>now. block_verify_well_formed (en_crypto (nw_env S)) now b = Some (Inr ())"
    using ok en by (auto simp: network_ok_def honest_runs_def)
  show "b_quorum_cert b \<in> known_certs S"
    using en by (force simp: known_certs_def)
qed

text \<open>The block of a vote is determined by what is voted for.\<close>

lemma same_block_data:
  assumes "(b, v) \<in> nw_entries S a" and "a \<in> nw_honest S" and "(c, w) \<in> nw_entries S a'" and "a' \<in> nw_honest S"
    and "vote_vote_data v = vote_vote_data w"
  shows "b_block_data b = b_block_data c"
proof -
  note b = nw_entriesD [OF assms(1,2)] and c = nw_entriesD [OF assms(3,4)]
  have "cr_hash_block_data (en_crypto (nw_env S)) (b_block_data b) = cr_hash_block_data (en_crypto (nw_env S)) (b_block_data c)"
    using cast_entry_data(1,2) [OF b(4)] cast_entry_data(1,2) [OF c(4)] assms(5) by simp
  moreover have "inj_on (cr_hash_block_data (en_crypto (nw_env S))) ((b_block_data \<circ> fst) ` entries S)"
    using b(1) by (simp add: network_ok_def collision_free_def)
  moreover have "b_block_data b \<in> (b_block_data \<circ> fst) ` entries S" "b_block_data c \<in> (b_block_data \<circ> fst) ` entries S"
    using b(3) c(3) by force+
  ultimately show ?thesis by (meson inj_onD)
qed

lemma nw_parentD:
  assumes "nw_parent S x y" and "(b, v) \<in> nw_entries S a" and "a \<in> nw_honest S" and "vote_vote_data v = x"
  shows "qc_vote_data (b_quorum_cert b) = y" and "0 < vd_round y"
proof -
  obtain a' c w where c: "a' \<in> nw_honest S" "(c, w) \<in> nw_entries S a'" "vote_vote_data w = x"
    "qc_vote_data (b_quorum_cert c) = y" "0 < vd_round y"
    using assms(1) by (auto simp: nw_parent_def)
  have "b_block_data b = b_block_data c"
    using same_block_data [OF assms(2,3) c(2,1)] assms(4) c(3) by simp
  then show "qc_vote_data (b_quorum_cert b) = y" and "0 < vd_round y"
    using c(4,5) by (simp_all add: b_quorum_cert_def)
qed

text \<open>The honest signers of a certificate have voted for what it certifies.\<close>

lemma certificate_voters:
  assumes "network_ok S" and "qc \<in> known_certs S" and "0 < bi_round (certified_block qc)"
    and "bi_epoch (certified_block qc) = nw_epoch S"
    and "quorum_cert_verify (en_crypto (nw_env S)) qc (nw_vv S) = Some (Inr ())"
  shows "\<exists>Q. is_quorum (nw_vv S) Q \<and> (\<forall>a\<in>Q \<inter> nw_honest S. \<exists>(b, v)\<in>nw_entries S a.
    vote_vote_data v = qc_vote_data qc \<and> vote_ledger_info v = qc_ledger_info qc)"
proof -
  let ?cr = "en_crypto (nw_env S)" and ?sigs = "lis_signatures (qc_signed_ledger_info qc)"
  have com: "verifier_ok (nw_vv S)" "validators (nw_vv S) \<noteq> {}" and uf: "unforgeable S" and cf: "collision_free S"
    using assms(1) by (auto simp: network_ok_def committee_ok_def)
  have "qc_valid ?cr (nw_vv S) qc"
    using quorum_cert_verify_iff [OF com(1)] uf assms(2,5) by (simp add: unforgeable_def)
  then have h: "li_consensus_data_hash (qc_ledger_info qc) = cr_hash_vote_data ?cr (qc_vote_data qc)"
    and q: "signed_by_quorum ?cr (nw_vv S) (MLedgerInfo (qc_ledger_info qc)) ?sigs"
    using assms(3) by (auto simp: qc_valid_def)
  have "\<exists>(b, v)\<in>nw_entries S a. vote_vote_data v = qc_vote_data qc \<and> vote_ledger_info v = qc_ledger_info qc"
    if a: "a \<in> fst ` set ?sigs \<inter> nw_honest S" for a
  proof -
    obtain sig pk where "(a, sig) \<in> set ?sigs" "get_public_key (nw_vv S) a = Some pk"
      "cr_verify ?cr pk (MLedgerInfo (qc_ledger_info qc)) sig"
      using a q by (fastforce simp: signed_by_quorum_def)
    then obtain b v where bv: "(b, v) \<in> set (nw_log S a)" "vote_ledger_info v = qc_ledger_info qc"
      using uf assms(2) a unfolding unforgeable_def by fastforce
    obtain s where "validator_run (nw_env S) (nw_committee S) s (nw_log S a)"
      using assms(1) a by (auto simp: network_ok_def honest_runs_def)
    then obtain d where "log_ok (nw_env S) (nw_committee S) d (nw_log S a)"
      using validator_run_ok by blast
    then have c: "cast_entry (nw_env S) (nw_committee S (b_epoch b)) b v"
      using bv(1) by (auto simp: log_ok_def)
    have "(b, v) \<in> entries S"
      using bv(1) a by (auto simp: entries_def)
    then have "vote_vote_data v \<in> (vote_vote_data \<circ> snd) ` entries S" by force
    moreover have "cr_hash_vote_data ?cr (vote_vote_data v) = cr_hash_vote_data ?cr (qc_vote_data qc)"
      using cast_entry_data(7) [OF c] bv(2) h by simp
    moreover have "inj_on (cr_hash_vote_data ?cr) (qc_vote_data ` known_certs S \<union> (vote_vote_data \<circ> snd) ` entries S)"
      using cf by (simp add: collision_free_def)
    ultimately have vd: "vote_vote_data v = qc_vote_data qc"
      using assms(2) by (meson UnI1 UnI2 imageI inj_onD)
    then have "b_epoch b = nw_epoch S"
      using cast_entry_data(3) [OF c] assms(4) by (simp add: certified_block_def)
    then show ?thesis
      using bv vd assms(1) by (auto simp: nw_entries_def)
  qed
  then show ?thesis
    using signed_by_quorum_is_quorum [OF com q] by blast
qed

lemma nw_certified_quorum:
  assumes "nw_certified S x"
  shows "\<exists>Q. is_quorum (nw_vv S) Q \<and> (\<forall>a\<in>Q - nw_faulty S. x \<in> nw_votes S a)"
proof -
  obtain qc where qc: "network_ok S" "qc \<in> known_certs S" "qc_vote_data qc = x" "0 < vd_round x"
     "bi_epoch (vd_proposed x) = nw_epoch S" "quorum_cert_verify (en_crypto (nw_env S)) qc (nw_vv S) = Some (Inr ())"
    using assms by (auto simp: nw_certified_def)
  then obtain Q where Q: "is_quorum (nw_vv S) Q" "\<forall>a\<in>Q \<inter> nw_honest S. \<exists>(b, v)\<in>nw_entries S a. vote_vote_data v = x"
    using certificate_voters [OF qc(1,2)] by (fastforce simp: certified_block_def vd_round_def)
  have "x \<in> nw_votes S a" if "a \<in> Q - nw_faulty S" for a
  proof -
    have "a \<in> Q \<inter> nw_honest S"
      using that qc(1) by (simp add: nw_faulty_def)
    then obtain b v where "(b, v) \<in> nw_entries S a" "vote_vote_data v = x"
      using Q(2) by blast
    then show ?thesis by (force simp: nw_votes_def)
  qed
  then show ?thesis using Q(1) by blast
qed

lemma nw_parent_certified:
  assumes "nw_parent S x y"
  shows "nw_certified S y \<and> vd_round y < vd_round x"
proof -
  obtain a b v where b: "a \<in> nw_honest S" "(b, v) \<in> nw_entries S a" "vote_vote_data v = x"
    "qc_vote_data (b_quorum_cert b) = y" "0 < vd_round y"
    using assms by (auto simp: nw_parent_def)
  note e = nw_entriesD [OF b(2,1)]
  note c = cast_entry_data [OF e(4)]
  have y: "certified_block (b_quorum_cert b) = vd_proposed y"
    using b(4) by (simp add: certified_block_def)
  obtain now where "block_verify_well_formed (en_crypto (nw_env S)) now b = Some (Inr ())"
    using e(5) by blast
  then have "bi_epoch (vd_proposed y) = nw_epoch S" "vd_round y < vd_round x"
    using e(2) c(4) b(3) y by (simp_all add: block_verify_well_formed_iff vd_round_def Let_def)
  then show ?thesis
    using e(1,6) c(6) b(4,5) by (auto simp: nw_certified_def)
qed

lemma nw_entry_pair:
  assumes "a \<in> nw_honest S" and "(b, v) \<in> nw_entries S a" and "(c, w) \<in> nw_entries S a"
  shows "b_round b = b_round c \<longrightarrow> b = c \<and> v = w"
    and "b_round b < b_round c \<longrightarrow>
      bi_round (parent_block (b_quorum_cert b)) \<le> bi_round (certified_block (b_quorum_cert c))"
proof -
  obtain s where "validator_run (nw_env S) (nw_committee S) s (nw_log S a)"
    using nw_entriesD(1) [OF assms(2,1)] assms(1) by (auto simp: network_ok_def honest_runs_def)
  then obtain d where l: "log_ok (nw_env S) (nw_committee S) d (nw_log S a)"
    using validator_run_ok by blast
  have "(b, v) = (c, w) \<or> entry_after (b, v) (c, w) \<or> entry_after (c, w) (b, v)" "b_epoch b = b_epoch c"
    using log_ok_pair [OF l] assms(2,3) by (auto simp: nw_entries_def)
  then show "b_round b = b_round c \<longrightarrow> b = c \<and> v = w"
    and "b_round b < b_round c \<longrightarrow>
      bi_round (parent_block (b_quorum_cert b)) \<le> bi_round (certified_block (b_quorum_cert c))"
    by (auto simp: entry_after_def)
qed

lemma nw_votesE:
  assumes "x \<in> nw_votes S a" and "a \<notin> nw_faulty S"
  obtains b v where "a \<in> nw_honest S" and "(b, v) \<in> nw_entries S a" and "vote_vote_data v = x"
    and "b_round b = vd_round x"
proof -
  obtain b v where b: "(b, v) \<in> nw_entries S a" "vote_vote_data v = x"
    using assms(1) by (auto simp: nw_votes_def)
  then have a: "a \<in> nw_honest S"
    using assms(2) by (auto simp: nw_entries_def nw_faulty_def)
  show ?thesis
    using that [OF a b] cast_entry_data(4) [OF nw_entriesD(4) [OF b(1) a]] b(2) by (simp add: vd_round_def)
qed

lemma nw_vote_locked:
  assumes "a \<notin> nw_faulty S" and "x \<in> nw_votes S a" and "y \<in> nw_votes S a" and "vd_round x < vd_round y"
    and "nw_parent S x x1" and "nw_parent S x1 x0"
  shows "\<exists>z. nw_parent S y z \<and> vd_round x0 \<le> vd_round z"
proof -
  obtain b v where b: "a \<in> nw_honest S" "(b, v) \<in> nw_entries S a" "vote_vote_data v = x" "b_round b = vd_round x"
    using nw_votesE [OF assms(2,1)] .
  obtain c w where c: "a \<in> nw_honest S" "(c, w) \<in> nw_entries S a" "vote_vote_data w = y" "b_round c = vd_round y"
    using nw_votesE [OF assms(3,1)] .
  obtain a1 b1 v1 where b1: "a1 \<in> nw_honest S" "(b1, v1) \<in> nw_entries S a1" "vote_vote_data v1 = x1"
    "qc_vote_data (b_quorum_cert b1) = x0" "0 < vd_round x0"
    using assms(6) by (auto simp: nw_parent_def)
  have "qc_vote_data (b_quorum_cert b) = x1"
    using nw_parentD(1) [OF assms(5) b(2,1,3)] .
  then have "bi_round (parent_block (b_quorum_cert b)) = vd_round x0"
    using cast_entry_data(5) [OF nw_entriesD(4) [OF b1(2,1)]] b1(3,4)
    by (simp add: parent_block_def certified_block_def vd_round_def)
  then have "vd_round x0 \<le> vd_round (qc_vote_data (b_quorum_cert c))"
    using nw_entry_pair(2) [OF b(1,2) c(2)] assms(4) b(4) c(4) by (simp add: certified_block_def vd_round_def)
  then show ?thesis
    using b1(5) c(1,2,3) by (force simp: nw_parent_def)
qed

interpretation chain: three_chain "validators (nw_vv S)" "power_of (nw_vv S)" "is_quorum (nw_vv S)"
  "nw_faulty S" "nw_votes S" "nw_parent S" vd_round "nw_certified S" for S
proof unfold_locales
  show "3 * sum (power_of (nw_vv S)) (validators (nw_vv S) \<inter> nw_faulty S) \<le> sum (power_of (nw_vv S)) (validators (nw_vv S))"
  proof (cases "network_ok S")
    case True
    then show ?thesis
      by (simp add: nw_faulty_def network_ok_def committee_ok_def Diff_eq)
  next
    case False
    then show ?thesis by (simp add: nw_faulty_def)
  qed
next
  fix x assume "nw_certified S x"
  then show "\<exists>Q. is_quorum (nw_vv S) Q \<and> (\<forall>n\<in>Q - nw_faulty S. x \<in> nw_votes S n)"
    by (rule nw_certified_quorum)
next
  fix a x y assume a: "a \<notin> nw_faulty S" and x: "x \<in> nw_votes S a" and y: "y \<in> nw_votes S a"
    and "vd_round x = vd_round y"
  obtain b v where b: "a \<in> nw_honest S" "(b, v) \<in> nw_entries S a" "vote_vote_data v = x" "b_round b = vd_round x"
    using nw_votesE [OF x a] .
  obtain c w where c: "a \<in> nw_honest S" "(c, w) \<in> nw_entries S a" "vote_vote_data w = y" "b_round c = vd_round y"
    using nw_votesE [OF y a] .
  have "b_round b = b_round c"
    using b(4) c(4) \<open>vd_round x = vd_round y\<close> by metis
  then have "v = w"
    using nw_entry_pair(1) [OF b(1,2) c(2)] by blast
  then show "x = y"
    using b(3) c(3) by blast
next
  fix x y assume "nw_parent S x y"
  then show "nw_certified S y \<and> vd_round y < vd_round x" by (rule nw_parent_certified)
next
  fix a x y x1 x0
  assume "a \<notin> nw_faulty S" "x \<in> nw_votes S a" "y \<in> nw_votes S a" "vd_round x < vd_round y"
    "nw_parent S x x1" "nw_parent S x1 x0"
  then show "\<exists>z. nw_parent S y z \<and> vd_round x0 \<le> vd_round z" by (rule nw_vote_locked)
qed

section \<open>Commits\<close>

text \<open>A certificate that commits a block is the head of a three-chain on that block.\<close>

lemma commit_three_chain:
  assumes "network_ok S" and "qc \<in> known_certs S" and "bi_epoch (certified_block qc) = nw_epoch S"
    and "quorum_cert_verify (en_crypto (nw_env S)) qc (nw_vv S) = Some (Inr ())"
    and "0 < bi_round (commit_info qc)"
  obtains x2 x1 x0 where "nw_certified S x2" and "nw_parent S x2 x1" and "nw_parent S x1 x0"
    and "vd_round x1 = Suc (vd_round x0)" and "vd_round x2 = Suc (vd_round x1)" and "vd_proposed x0 = commit_info qc"
proof -
  let ?cr = "en_crypto (nw_env S)"
  have r: "0 < bi_round (certified_block qc)"
    using assms(4,5) by (auto simp: quorum_cert_verify_def result_simps split: if_splits)
  then have x2: "nw_certified S (qc_vote_data qc)"
    using assms(1-4) by (auto simp: nw_certified_def certified_block_def vd_round_def)
  obtain Q where Q: "is_quorum (nw_vv S) Q" "\<forall>a\<in>Q \<inter> nw_honest S. \<exists>(b, v)\<in>nw_entries S a.
      vote_vote_data v = qc_vote_data qc \<and> vote_ledger_info v = qc_ledger_info qc"
    using certificate_voters [OF assms(1,2) r assms(3,4)] by blast
  obtain a where "a \<in> Q" "a \<in> nw_honest S"
    using vq.correct_intersection [OF Q(1) Q(1) chain.few_faulty] assms(1) by (auto simp: nw_faulty_def)
  then obtain b v where b: "a \<in> nw_honest S" "(b, v) \<in> nw_entries S a" "vote_vote_data v = qc_vote_data qc"
    "vote_ledger_info v = qc_ledger_info qc"
    using Q(2) by blast
  let ?x1 = "qc_vote_data (b_quorum_cert b)"
  have c: "cast_entry (nw_env S) (nw_vv S) b v"
    using nw_entriesD(4) [OF b(2,1)] .
  have ci: "li_commit_info (vote_ledger_info v) = commit_info qc"
    using b(4) by (simp add: commit_info_def qc_ledger_info_def)
  then have ne: "li_commit_info (vote_ledger_info v) \<noteq> block_info_empty"
    using assms(5) by (auto simp: block_info_empty_def)
  note cm = cast_entry_commit [OF c ne]
  have x1: "nw_parent S (qc_vote_data qc) ?x1"
    using b cm(2) by (force simp: nw_parent_def certified_block_def vd_round_def)
  obtain a1 b1 v1 where b1: "a1 \<in> nw_honest S" "(b1, v1) \<in> nw_entries S a1" "vote_vote_data v1 = ?x1"
    using chain.common_voter [of S ?x1 ?x1] chain.parent_certified [OF x1] by (metis nw_votesE)
  let ?x0 = "qc_vote_data (b_quorum_cert b1)"
  have p: "vd_proposed ?x0 = commit_info qc"
    using cast_entry_data(5) [OF nw_entriesD(4) [OF b1(2,1)]] b1(3) cm(1) ci
    by (simp add: certified_block_def parent_block_def)
  have "nw_parent S ?x1 ?x0"
    using b1 p assms(5) by (force simp: nw_parent_def vd_round_def)
  moreover have "vd_round ?x1 = Suc (vd_round ?x0)" "vd_round (qc_vote_data qc) = Suc (vd_round ?x1)"
    using cm p ci cast_entry_data(4) [OF c] b(3) by (simp_all add: vd_round_def certified_block_def)
  ultimately show ?thesis
    using that x2 x1 p by blast
qed

text \<open>Block \<open>i\<close> names block \<open>j\<close> as its parent, in a block an honest validator voted for.\<close>

definition block_link :: "network \<Rightarrow> hash \<Rightarrow> hash \<Rightarrow> bool" where
  "block_link S i j \<longleftrightarrow> (\<exists>(b, v)\<in>entries S. b_id b = i \<and> b_parent_id b = j)"

lemma nw_parent_link:
  assumes "nw_parent S x y"
  shows "block_link S (bi_id (vd_proposed x)) (bi_id (vd_proposed y))"
proof -
  obtain a b v where b: "a \<in> nw_honest S" "(b, v) \<in> nw_entries S a" "vote_vote_data v = x"
    "qc_vote_data (b_quorum_cert b) = y"
    using assms by (auto simp: nw_parent_def)
  note e = nw_entriesD [OF b(2,1)]
  have "b_id b = bi_id (vd_proposed x)" "b_parent_id b = bi_id (vd_proposed y)"
    using cast_entry_data(2) [OF e(4)] b(3,4) by (auto simp: b_parent_id_def bd_parent_id_def b_quorum_cert_def certified_block_def)
  then show ?thesis
    using e(3) by (auto simp: block_link_def)
qed

lemma nw_ancestor_link:
  "(nw_parent S)\<^sup>*\<^sup>* x y \<Longrightarrow> (block_link S)\<^sup>*\<^sup>* (bi_id (vd_proposed x)) (bi_id (vd_proposed y))"
  by (induction rule: rtranclp_induct) (auto dest: nw_parent_link intro: rtranclp.rtrancl_into_rtrancl)

lemma commit_below:
  assumes "network_ok S" and "{qc, qc'} \<subseteq> known_certs S"
    and "\<forall>q\<in>{qc, qc'}. bi_epoch (certified_block q) = nw_epoch S \<and> 0 < bi_round (commit_info q) \<and>
      quorum_cert_verify (en_crypto (nw_env S)) q (nw_vv S) = Some (Inr ())"
    and "bi_round (commit_info qc) \<le> bi_round (commit_info qc')"
  shows "(block_link S)\<^sup>*\<^sup>* (bi_id (commit_info qc')) (bi_id (commit_info qc)) \<and>
    (bi_round (commit_info qc) = bi_round (commit_info qc') \<longrightarrow> commit_info qc = commit_info qc')"
proof -
  obtain x2 x1 x0 where x: "nw_certified S x2" "nw_parent S x2 x1" "nw_parent S x1 x0" "vd_round x1 = Suc (vd_round x0)"
    "vd_round x2 = Suc (vd_round x1)" "vd_proposed x0 = commit_info qc"
    using commit_three_chain [OF assms(1), of qc] assms(2,3) by auto
  obtain y1 y0 where y: "nw_parent S y1 y0" "vd_proposed y0 = commit_info qc'"
    using assms(2,3) by (blast intro: commit_three_chain [OF assms(1), of qc'])
  have c: "nw_certified S x0" "nw_certified S y0"
    using nw_parent_certified x(3) y(1) by blast+
  have "vd_round x0 \<le> vd_round y0"
    using assms(4) x(6) y(2) by (simp add: vd_round_def)
  then have "(nw_parent S)\<^sup>*\<^sup>* y0 x0"
    using chain.certified_extends [OF x(1-5) c(2)] by blast
  then have "(block_link S)\<^sup>*\<^sup>* (bi_id (commit_info qc')) (bi_id (commit_info qc))"
    using nw_ancestor_link x(6) y(2) by metis
  moreover have "commit_info qc = commit_info qc'" if "bi_round (commit_info qc) = bi_round (commit_info qc')"
    using chain.certified_unique [OF c] that x(6) y(2) by (simp add: vd_round_def)
  ultimately show ?thesis by blast
qed

section \<open>Agreement\<close>

text \<open>
  C1. Agreement: in an epoch where faulty members hold at most a third of the voting power, any two
  quorum certificates that verify and commit a block after the genesis agree. The committed block of the
  lower round is an ancestor of the other one through the parent identifiers of blocks, and two commits of
  the same round are the same commit. Honest members run the safety rules with crashes and failing writes at any
  point; the hypotheses on cryptography are that certificates carry no forged signature of an honest member
  and that the hashes that occur do not collide.
\<close>

theorem commits_agree:
  assumes "committee_ok S" and "honest_runs S" and "unforgeable S" and "collision_free S"
    and "qc1 \<in> nw_certs S" and "qc2 \<in> nw_certs S"
    and "\<forall>qc\<in>{qc1, qc2}. quorum_cert_verify (en_crypto (nw_env S)) qc (nw_vv S) = Some (Inr ()) \<and>
      bi_epoch (certified_block qc) = nw_epoch S \<and> 0 < bi_round (commit_info qc)"
  shows "(if bi_round (commit_info qc1) = bi_round (commit_info qc2) then commit_info qc1 = commit_info qc2
    else if bi_round (commit_info qc1) < bi_round (commit_info qc2)
    then (block_link S)\<^sup>*\<^sup>* (bi_id (commit_info qc2)) (bi_id (commit_info qc1))
    else (block_link S)\<^sup>*\<^sup>* (bi_id (commit_info qc1)) (bi_id (commit_info qc2)))"
proof -
  have ok: "network_ok S" and k: "{qc1, qc2} \<subseteq> known_certs S"
    using assms(1-6) by (auto simp: network_ok_def known_certs_def)
  show ?thesis
    using commit_below [OF ok, of qc1 qc2] commit_below [OF ok, of qc2 qc1] k assms(7)
    by (auto simp: insert_commute)
qed

text \<open>The example validator, with its votes up to round 4 and the certificates of the rounds 3 and 4.\<close>

definition ex_network :: network where
  "ex_network = \<lparr>nw_env = ex_env, nw_committee = (\<lambda>_. ex_verifier), nw_epoch = 1, nw_honest = {7},
     nw_log = (\<lambda>_. ex_log 4), nw_certs = {ex_qc 3, ex_qc 4}\<rparr>"

lemma ex_network_sets:
  "entries ex_network = (\<lambda>r. (ex_block (Suc r), ex_vote (Suc r))) ` {0..<4}"
  "known_certs ex_network = ex_qc ` {0..<5}"
proof -
  show e: "entries ex_network = (\<lambda>r. (ex_block (Suc r), ex_vote (Suc r))) ` {0..<4}"
    by (simp add: entries_def ex_network_def ex_log_def)
  have "known_certs ex_network = {ex_qc 3, ex_qc 4} \<union> ex_qc ` {0..<4}"
    unfolding known_certs_def e by (simp add: ex_network_def image_image)
  then show "known_certs ex_network = ex_qc ` {0..<5}"
    by (simp add: numeral_nat atLeast0_lessThan_Suc insert_commute)
qed

lemma ex_network_committee: "committee_ok ex_network"
  by (simp add: committee_ok_def ex_network_def ex_verifier_def verifier_ok_def validators_def bt_ok_def U64_MAX_def)

lemma ex_network_runs: "honest_runs ex_network"
proof -
  have "block_verify_well_formed ex_crypto 0 (ex_block (Suc r)) = Some (Inr ())" if "r < 4" for r
    using that ex_block_ok [of "Suc r"]
    by (simp add: block_verify_well_formed_iff Let_def block_ok_def has_reconfiguration_def qc_ends_epoch_def
        ex_info_def saturating_add64_def TIMEBOUND_def U64_MAX_def)
      (simp add: ex_block_def new_proposal_from_block_data_and_signature_def block_data_new_proposal_def
        li_ends_epoch_def has_reconfiguration_def ex_ledger_info_def ex_info_def block_info_empty_def)
  then have "\<forall>(b, v)\<in>entries ex_network. \<exists>now. block_verify_well_formed (en_crypto (nw_env ex_network)) now b = Some (Inr ())"
    unfolding ex_network_sets by (fastforce simp: ex_network_def)
  then show ?thesis
    using ex_run [of 4] by (auto simp: honest_runs_def ex_network_def)
qed

lemma ex_network_unforgeable: "unforgeable ex_network"
proof -
  have "vote_ledger_info (ex_vote r) = qc_ledger_info (ex_qc r)" for r
    by (simp add: ex_vote_def vote_new_with_signature_def)
  then have "\<exists>(b, v)\<in>set (ex_log 4). vote_ledger_info v = qc_ledger_info (ex_qc r)" if "0 < r" "r < 5" for r
    using ex_log_members [of r 4] that by fastforce
  then show ?thesis
    unfolding unforgeable_def ex_network_sets by (auto simp: ex_qc_def bt_ok_def ex_network_def split: if_splits)
qed

lemma ex_network_collisions: "collision_free ex_network"
proof -
  have "qc_vote_data ` known_certs ex_network \<union> (vote_vote_data \<circ> snd) ` entries ex_network \<subseteq> range ex_vote_data"
    unfolding ex_network_sets by (auto simp: ex_qc_def ex_vote_def vote_new_with_signature_def)
  moreover have "inj_on (cr_hash_vote_data ex_crypto) (range ex_vote_data)"
    by (auto simp: inj_on_def)
  moreover have "inj_on (cr_hash_block_data ex_crypto) ((b_block_data \<circ> fst) ` entries ex_network)"
    unfolding ex_network_sets by (auto simp: inj_on_def) (simp_all add: ex_crypto_def)
  moreover have "en_crypto (nw_env ex_network) = ex_crypto"
    by (simp add: ex_network_def)
  ultimately show ?thesis
    unfolding collision_free_def by (metis inj_on_subset)
qed

theorem commits_agree_witness:
  "committee_ok ex_network \<and> honest_runs ex_network \<and> unforgeable ex_network \<and> collision_free ex_network \<and>
     bi_round (commit_info (ex_qc 3)) = 1 \<and> bi_round (commit_info (ex_qc 4)) = 2 \<and>
     (block_link ex_network)\<^sup>*\<^sup>* (bi_id (commit_info (ex_qc 4))) (bi_id (commit_info (ex_qc 3)))"
proof -
  have c: "commit_info (ex_qc 3) = ex_info 1" "commit_info (ex_qc 4) = ex_info 2"
    by (simp_all add: commit_info_def ex_ledger_info_def)
  have "\<forall>qc\<in>{ex_qc 3, ex_qc 4}. quorum_cert_verify (en_crypto (nw_env ex_network)) qc (nw_vv ex_network) = Some (Inr ()) \<and>
      bi_epoch (certified_block qc) = nw_epoch ex_network \<and> 0 < bi_round (commit_info qc)"
    using ex_qc_verify c by (simp add: ex_network_def) (simp add: ex_info_def)
  then show ?thesis
    using commits_agree [OF ex_network_committee ex_network_runs ex_network_unforgeable ex_network_collisions, of "ex_qc 3" "ex_qc 4"]
      ex_network_committee ex_network_runs ex_network_unforgeable ex_network_collisions c
    by (simp add: ex_network_def)
qed

end
