(* ===== verification/Term_List.thy ===== *)
theory Term_List
  imports Lock_Props Consensus_Types
begin

text \<open>
  The terms of the committee election (the first half of \<^verbatim>\<open>term_state.rs\<close>): the heap of the candidates of a
  term, the elected votes of a term, and the list of the terms around the current one. The binary heap of
  the standard library is the list of its entries in descending order of \<open>(hash, address, nonce)\<close>: \<^verbatim>\<open>pop\<close>
  removes the greatest entry and \<^verbatim>\<open>peek\<close> reads it. A hash set is the list of its members without repetition.
\<close>

section \<open>Nodes\<close>

record node_id =
  ni_public_key :: public_key
  ni_vrf_public_key :: vrf_public_key
  ni_addr :: address

text \<open>The address of a node is a hash of its keys, the argument \<open>addr_of\<close>.\<close>

definition node_id_new :: "(public_key \<Rightarrow> vrf_public_key \<Rightarrow> address) \<Rightarrow> public_key \<Rightarrow> vrf_public_key \<Rightarrow> node_id" where
  "node_id_new addr_of public_key vrf_public_key =
     \<lparr>ni_public_key = public_key, ni_vrf_public_key = vrf_public_key, ni_addr = addr_of public_key vrf_public_key\<rparr>"

record node_data =
  nd_public_key :: public_key
  nd_vrf_public_key :: "vrf_public_key option"
  nd_lock_status :: node_lock_status

record election_node_id =
  ei_node_id :: node_id
  ei_nonce :: nat

record election_event =
  ee_node_id :: node_id
  ee_vrf_output :: hash
  ee_start_term :: nat

definition election_event_new ::
  "(public_key \<Rightarrow> vrf_public_key \<Rightarrow> address) \<Rightarrow> public_key \<Rightarrow> vrf_public_key \<Rightarrow> hash \<Rightarrow> nat \<Rightarrow> election_event" where
  "election_event_new addr_of public_key vrf_public_key vrf_output start_term =
     \<lparr>ee_node_id = node_id_new addr_of public_key vrf_public_key, ee_vrf_output = vrf_output, ee_start_term = start_term\<rparr>"

section \<open>Hash sets\<close>

definition hs_insert :: "'a \<Rightarrow> 'a list \<Rightarrow> 'a list" where
  "hs_insert x xs = (if x \<in> set xs then xs else xs @ [x])"

lemma set_hs_insert [simp]: "set (hs_insert x xs) = insert x (set xs)"
  by (auto simp: hs_insert_def)

lemma distinct_hs_insert [simp]: "distinct (hs_insert x xs) \<longleftrightarrow> distinct xs"
  by (auto simp: hs_insert_def)

section \<open>The candidates of a term\<close>

type_synonym candidate = "hash \<times> election_node_id"

text \<open>The derived order of the pairs: identifiers compare by address first, then by nonce.\<close>

definition cand_before :: "candidate \<Rightarrow> candidate \<Rightarrow> bool" where
  "cand_before a b \<longleftrightarrow>
     fst a < fst b \<or> fst a = fst b \<and>
       (ni_addr (ei_node_id (snd a)) < ni_addr (ei_node_id (snd b)) \<or>
        ni_addr (ei_node_id (snd a)) = ni_addr (ei_node_id (snd b)) \<and> ei_nonce (snd a) < ei_nonce (snd b))"

fun heap_push :: "candidate \<Rightarrow> candidate list \<Rightarrow> candidate list" where
  "heap_push c [] = [c]"
| "heap_push c (d # h) = (if cand_before c d then d # heap_push c h else c # d # h)"

record electing_heap =
  eh_heap :: "candidate list"
  eh_addresses :: "address list"

type_synonym elected_map = "(address, nat) btree"

definition electing_heap_default :: electing_heap where
  "electing_heap_default = \<lparr>eh_heap = [], eh_addresses = []\<rparr>"

definition heap_add_node :: "pos_state_config \<Rightarrow> hash \<Rightarrow> election_node_id \<Rightarrow> electing_heap \<Rightarrow> electing_heap" where
  "heap_add_node conf h node_id self =
     (let is_not_full_set = length (eh_heap self) < term_max_size conf;
          self = self\<lparr>eh_addresses := hs_insert (ni_addr (ei_node_id node_id)) (eh_addresses self)\<rparr> in
      if (case eh_heap self of [] \<Rightarrow> True | (max_value, _) # _ \<Rightarrow> is_not_full_set \<or> h < max_value)
      then let heap = heap_push (h, node_id) (eh_heap self) in
        self\<lparr>eh_heap := (if term_max_size conf < length heap then tl heap else heap)\<rparr>
      else self)"

text \<open>The loop that counts the votes of the greatest entries: it stops once \<open>elected_size\<close> entries are taken.\<close>

fun pop_top :: "nat \<Rightarrow> nat \<Rightarrow> candidate list \<Rightarrow> elected_map \<Rightarrow> (candidate list \<times> elected_map) option" where
  "pop_top elected_size n [] m = Some ([], m)"
| "pop_top elected_size n ((_, node_id) # h) m =
     do { m' \<leftarrow> bt_entry_add (ni_addr (ei_node_id node_id)) 1 m;
          if elected_size \<le> Suc n then Some (h, m') else pop_top elected_size (Suc n) h m' }"

fun count_rest :: "candidate list \<Rightarrow> elected_map \<Rightarrow> elected_map option" where
  "count_rest [] m = Some m"
| "count_rest ((_, node_id) # h) m = do { m' \<leftarrow> bt_entry_add (ni_addr (ei_node_id node_id)) 1 m; count_rest h m' }"

definition read_top_electing :: "pos_state_config \<Rightarrow> electing_heap \<Rightarrow> elected_map option" where
  "read_top_electing conf self = map_option snd (pop_top (term_elected_size conf) 0 (eh_heap self) [])"

definition heap_finalize :: "pos_state_config \<Rightarrow> electing_heap \<Rightarrow> (elected_map \<times> elected_map) option" where
  "heap_finalize conf self =
     do { (rest, elected_map) \<leftarrow> pop_top (term_elected_size conf) 0 (eh_heap self) [];
          candy_map \<leftarrow> count_rest rest elected_map;
          Some (elected_map, candy_map) }"

section \<open>Node lists\<close>

datatype node_list = Electing electing_heap | Elected elected_map

definition node_list_default :: node_list where
  "node_list_default = Electing electing_heap_default"

definition nl_len :: "node_list \<Rightarrow> nat" where
  "nl_len self = (case self of Electing heap \<Rightarrow> length (eh_heap heap) | Elected m \<Rightarrow> length m)"

definition nl_add_node :: "pos_state_config \<Rightarrow> hash \<Rightarrow> election_node_id \<Rightarrow> node_list \<Rightarrow> node_list option" where
  "nl_add_node conf vrf_output node_id self =
     (case self of Electing heap \<Rightarrow> Some (Electing (heap_add_node conf vrf_output node_id heap)) | Elected _ \<Rightarrow> None)"

definition finalize_elect :: "pos_state_config \<Rightarrow> node_list \<Rightarrow> (node_list \<times> elected_map) option" where
  "finalize_elect conf self =
     (case self of
        Electing heap \<Rightarrow>
          do { (elected, candy_map) \<leftarrow> heap_finalize conf heap; Some (Elected elected, candy_map) }
      | Elected _ \<Rightarrow> None)"

definition has_elected :: "address \<Rightarrow> node_list \<Rightarrow> bool option" where
  "has_elected addr self =
     (case self of Electing heap \<Rightarrow> Some (addr \<in> set (eh_addresses heap)) | Elected _ \<Rightarrow> None)"

definition nl_serving_votes :: "address \<Rightarrow> node_list \<Rightarrow> nat option" where
  "nl_serving_votes addr self =
     (case self of
        Elected m \<Rightarrow> Some (case map_of m addr of None \<Rightarrow> 0 | Some v \<Rightarrow> v)
      | Electing _ \<Rightarrow> None)"

definition nl_committee :: "node_list \<Rightarrow> elected_map option" where
  "nl_committee self = (case self of Elected m \<Rightarrow> Some m | Electing _ \<Rightarrow> None)"

section \<open>Terms\<close>

record term_data =
  td_start_view :: round
  td_seed :: bytes
  td_node_list :: node_list

definition get_term :: "pos_state_config \<Rightarrow> term_data \<Rightarrow> nat option" where
  "get_term conf self = map_option fst (get_term_view conf (td_start_view self))"

definition next_term :: "pos_state_config \<Rightarrow> node_list \<Rightarrow> bytes \<Rightarrow> term_data \<Rightarrow> term_data option" where
  "next_term conf node_list seed self =
     do { v \<leftarrow> add64 (td_start_view self) (round_per_term conf (td_start_view self));
          Some \<lparr>td_start_view = v, td_seed = seed, td_node_list = node_list\<rparr> }"

record term_list =
  tl_current_term :: nat
  tl_term_list :: "term_data list"
  tl_candy_rewards :: elected_map
  tl_electing_index :: nat

definition start_term :: "term_list \<Rightarrow> nat" where
  "start_term self = tl_current_term self - (TERM_LIST_LEN - 1)"

definition electing_term_number :: "term_list \<Rightarrow> nat option" where
  "electing_term_number self = add64 (start_term self) (tl_electing_index self)"

definition electing_term :: "term_list \<Rightarrow> term_data option" where
  "electing_term self = index_at (tl_term_list self) (tl_electing_index self)"

definition committee_for_term :: "nat \<Rightarrow> term_list \<Rightarrow> term_data list option" where
  "committee_for_term term self =
     do { let first_term = term - (TERM_LIST_LEN - 1);
          s \<leftarrow> add64 first_term TERM_LIST_LEN;
          let last_term = s - 1;
          electing \<leftarrow> electing_term_number self;
          assert_that (\<not> (first_term < start_term self \<or> electing \<le> last_term));
          let start_offset = first_term - start_term self;
          let end_offset = last_term - start_term self;
          assert_that (end_offset < length (tl_term_list self));
          Some (take (Suc end_offset - start_offset) (drop start_offset (tl_term_list self))) }"

definition get_term_by_number :: "nat \<Rightarrow> term_list \<Rightarrow> term_data option" where
  "get_term_by_number term_number self =
     (if term_number < start_term self then None
      else index_at (tl_term_list self) (term_number - start_term self))"

text \<open>The loop of \<^verbatim>\<open>new_node_elected\<close>: one identifier per nonce below the voting power.\<close>

definition add_nonces ::
  "(hash \<Rightarrow> nat \<Rightarrow> hash) \<Rightarrow> pos_state_config \<Rightarrow> election_event \<Rightarrow> nat \<Rightarrow> node_list \<Rightarrow> node_list option" where
  "add_nonces vrf_number conf event voting_power node_list =
     fold (\<lambda>nonce nl. do { l \<leftarrow> nl;
         nl_add_node conf (vrf_number (ee_vrf_output event) nonce)
           \<lparr>ei_node_id = ee_node_id event, ei_nonce = nonce\<rparr> l })
       [0..<voting_power] (Some node_list)"

definition tl_new_node_elected ::
  "(hash \<Rightarrow> nat \<Rightarrow> hash) \<Rightarrow> pos_state_config \<Rightarrow> election_event \<Rightarrow> nat \<Rightarrow> term_list \<Rightarrow>
     (term_list \<times> (string + unit)) option" where
  "tl_new_node_elected vrf_number conf event voting_power self =
     do { electing \<leftarrow> electing_term_number self;
          if ee_start_term event \<noteq> electing then Some (self, Inl ''term is not open for election'')
          else do {
            term \<leftarrow> electing_term self;
            participated \<leftarrow> has_elected (ni_addr (ee_node_id event)) (td_node_list term);
            if participated then Some (self, Inr ())
            else do {
              nl \<leftarrow> add_nonces vrf_number conf event voting_power (td_node_list term);
              Some (self\<lparr>tl_term_list := (tl_term_list self)[tl_electing_index self := term\<lparr>td_node_list := nl\<rparr>]\<rparr>,
                    Inr ()) } } }"

definition tl_new_term :: "pos_state_config \<Rightarrow> nat \<Rightarrow> bytes \<Rightarrow> term_list \<Rightarrow> term_list option" where
  "tl_new_term conf new_term new_seed self =
     (let self = self\<lparr>tl_current_term := new_term\<rparr> in
      if new_term < TERM_LIST_LEN then Some self
      else do {
        t \<leftarrow> index_at (tl_term_list self) TERM_LIST_LEN;
        v \<leftarrow> get_starting_view_for_term conf new_term;
        assert_that (Some (td_start_view t) = v);
        let rest = tl (tl_term_list self);
        assert_that (rest \<noteq> []);
        next \<leftarrow> next_term conf node_list_default new_seed (last rest);
        i \<leftarrow> sub64 (tl_electing_index self) 1;
        assert_that (i = 6);
        Some (self\<lparr>tl_term_list := rest @ [next], tl_electing_index := i\<rparr>) })"

definition finalize_election :: "pos_state_config \<Rightarrow> term_list \<Rightarrow> term_list option" where
  "finalize_election conf self =
     do { term \<leftarrow> electing_term self;
          (nl, candy_map) \<leftarrow> finalize_elect conf (td_node_list term);
          let i = tl_electing_index self + 1;
          assert_that (i = 7);
          Some (self\<lparr>tl_term_list := (tl_term_list self)[tl_electing_index self := term\<lparr>td_node_list := nl\<rparr>],
                     tl_candy_rewards := candy_map, tl_electing_index := i\<rparr>) }"

text \<open>The sum over the terms from \<open>i\<close> on, \<open>n\<close> of them.\<close>

fun sum_serving :: "address \<Rightarrow> term_data list \<Rightarrow> nat option" where
  "sum_serving author [] = Some 0"
| "sum_serving author (t # ts) =
     do { v \<leftarrow> nl_serving_votes author (td_node_list t); s \<leftarrow> sum_serving author ts; add64 v s }"

definition tl_serving_votes :: "nat \<Rightarrow> address \<Rightarrow> term_list \<Rightarrow> nat option" where
  "tl_serving_votes target_term_offset author self =
     do { assert_that (target_term_offset < TERM_LIST_LEN + 2);
          start_term_offset \<leftarrow> sub64 target_term_offset (TERM_LIST_LEN - 1);
          assert_that (target_term_offset \<le> length (tl_term_list self));
          sum_serving author (take (TERM_LIST_LEN - 1) (drop start_term_offset (tl_term_list self))) }"

end
