(* ===== verification/Pos_State.thy ===== *)
theory Pos_State
  imports Term_List
begin

text \<open>
  The state machine of the proof-of-stake chain (\<^verbatim>\<open>PosState\<close> of \<^verbatim>\<open>term_state.rs\<close>): the registered nodes with
  their stake, the current view and epoch, and the term list. The configuration is the argument \<open>conf\<close>, the
  hash that spreads a VRF output over nonces the argument \<open>vrf_number\<close>, the verification of VRF proofs and of
  aggregated signatures are arguments of the validation functions.
\<close>

record pos_state =
  pst_node_map :: "address \<rightharpoonup> node_data"
  pst_current_view :: round
  pst_epoch_state :: epoch_state
  pst_term_list :: term_list
  pst_retiring_nodes :: "address list"
  pst_pivot_decision :: pivot_block_decision
  pst_node_map_hint :: "view \<rightharpoonup> address list"
  pst_unlock_event_hint :: "address list"
  pst_skipped :: bool

section \<open>Committees\<close>

text \<open>The loop over the terms of the committee and their members.\<close>

fun add_votes :: "elected_map \<Rightarrow> elected_map \<Rightarrow> elected_map option" where
  "add_votes [] power_map = Some power_map"
| "add_votes ((addr, votes) # m) power_map = do { p \<leftarrow> bt_entry_add addr votes power_map; add_votes m p }"

fun add_terms :: "term_data list \<Rightarrow> elected_map \<Rightarrow> elected_map option" where
  "add_terms [] power_map = Some power_map"
| "add_terms (t # ts) power_map =
     do { m \<leftarrow> nl_committee (td_node_list t); p \<leftarrow> add_votes m power_map; add_terms ts p }"

text \<open>The members keep at most the votes they have available; retired ones drop out.\<close>

fun validator_infos ::
  "(address \<rightharpoonup> node_data) \<Rightarrow> elected_map \<Rightarrow> (address, validator_consensus_info) btree \<Rightarrow>
     (address, validator_consensus_info) btree option" where
  "validator_infos node_map [] infos = Some infos"
| "validator_infos node_map ((addr, voting_power) # m) infos =
     do { node \<leftarrow> node_map addr;
          let voting_power = min voting_power (available_votes (nd_lock_status node));
          validator_infos node_map m
            (if 0 < voting_power
             then bt_insert addr \<lparr>vi_public_key = nd_public_key node, vi_vrf_public_key = nd_vrf_public_key node,
                    vi_voting_power = voting_power\<rparr> infos
             else infos) }"

definition get_committee_at :: "nat \<Rightarrow> pos_state \<Rightarrow> (validator_verifier \<times> bytes) option" where
  "get_committee_at term self =
     do { terms \<leftarrow> committee_for_term term (pst_term_list self);
          power_map \<leftarrow> add_terms terms [];
          infos \<leftarrow> validator_infos (pst_node_map self) power_map [];
          verifier \<leftarrow> validator_verifier_new infos;
          t \<leftarrow> index_at (tl_term_list (pst_term_list self)) 0;
          Some (verifier, td_seed t) }"

section \<open>Construction\<close>

fun initial_node_map ::
  "pos_state_config \<Rightarrow> (node_id \<times> nat) list \<Rightarrow> (address \<rightharpoonup> node_data) \<Rightarrow> (address \<rightharpoonup> node_data) option" where
  "initial_node_map conf [] node_map = Some node_map"
| "initial_node_map conf ((node_id, total_voting_power) # nodes) node_map =
     do { (lock_status, _) \<leftarrow> new_lock conf 0 total_voting_power True node_lock_status_default [];
          initial_node_map conf nodes (node_map(ni_addr node_id \<mapsto>
            \<lparr>nd_public_key = ni_public_key node_id, nd_vrf_public_key = Some (ni_vrf_public_key node_id),
             nd_lock_status = lock_status\<rparr>)) }"

text \<open>The loop that appends the terms after the first: those before \<open>TERM_LIST_LEN - 1\<close> are finalized empty.\<close>

fun initial_terms :: "pos_state_config \<Rightarrow> bytes \<Rightarrow> nat list \<Rightarrow> term_data list \<Rightarrow> term_data list option" where
  "initial_terms conf seed [] terms = Some terms"
| "initial_terms conf seed (i # is) terms =
     do { next \<leftarrow> next_term conf node_list_default seed (last terms);
          nl \<leftarrow> (if i < TERM_LIST_LEN - 1 then map_option fst (finalize_elect conf (td_node_list next))
                 else Some (td_node_list next));
          initial_terms conf seed is (terms @ [next\<lparr>td_node_list := nl\<rparr>]) }"

definition pos_state_new ::
  "pos_state_config \<Rightarrow> bytes \<Rightarrow> (node_id \<times> nat) list \<Rightarrow> (address \<times> nat) list \<Rightarrow> pivot_block_decision \<Rightarrow>
     pos_state option" where
  "pos_state_new conf initial_seed initial_nodes initial_committee genesis_pivot_decision =
     do { node_map \<leftarrow> initial_node_map conf initial_nodes Map.empty;
          let node_list = fold (\<lambda>(addr, voting_power). bt_insert addr voting_power) initial_committee [];
          term_list \<leftarrow> initial_terms conf initial_seed [0..<TERM_LIST_LEN + 1]
            [\<lparr>td_start_view = 0, td_seed = initial_seed, td_node_list = Elected node_list\<rparr>];
          empty \<leftarrow> epoch_state_empty;
          let self = \<lparr>pst_node_map = node_map, pst_current_view = 0, pst_epoch_state = empty,
            pst_term_list = \<lparr>tl_current_term = 0, tl_term_list = term_list, tl_candy_rewards = node_list,
              tl_electing_index = TERM_LIST_LEN\<rparr>,
            pst_retiring_nodes = [], pst_pivot_decision = genesis_pivot_decision, pst_node_map_hint = Map.empty,
            pst_unlock_event_hint = [], pst_skipped = False\<rparr>;
          (verifier, vrf_seed) \<leftarrow> get_committee_at 0 self;
          Some (self\<lparr>pst_epoch_state := \<lparr>es_epoch = 0, es_verifier = verifier, es_vrf_seed = vrf_seed\<rparr>\<rparr>) }"

definition pos_state_new_empty :: "pos_state option" where
  "pos_state_new_empty =
     do { empty \<leftarrow> epoch_state_empty;
          Some \<lparr>pst_node_map = Map.empty, pst_current_view = 0, pst_epoch_state = empty,
            pst_term_list = \<lparr>tl_current_term = 0, tl_term_list = [], tl_candy_rewards = [], tl_electing_index = 0\<rparr>,
            pst_retiring_nodes = [], pst_pivot_decision = \<lparr>pd_height = 0, pd_block_hash = replicate 32 0\<rparr>,
            pst_node_map_hint = Map.empty, pst_unlock_event_hint = [], pst_skipped = False\<rparr> }"

definition set_skipped :: "bool \<Rightarrow> pos_state \<Rightarrow> pos_state" where
  "set_skipped skipped self = self\<lparr>pst_skipped := skipped\<rparr>"

definition set_pivot_decision :: "pivot_block_decision \<Rightarrow> pos_state \<Rightarrow> pos_state" where
  "set_pivot_decision pivot_decision self = self\<lparr>pst_pivot_decision := pivot_decision\<rparr>"

definition target_term_seed :: "nat \<Rightarrow> pos_state \<Rightarrow> bytes option" where
  "target_term_seed target_term self = map_option td_seed (get_term_by_number target_term (pst_term_list self))"

section \<open>Validation\<close>

datatype discarded_vm_status =
    ELECTION_NON_EXISITENT_NODE | ELECTION_TERGET_TERM_NOT_OPEN | ELECTION_WITHOUT_VOTES | PIVOT_DECISION_HEIGHT_TOO_OLD

record election_payload =
  el_public_key :: public_key
  el_vrf_public_key :: vrf_public_key
  el_target_term :: nat
  el_vrf_proof :: vrf_proof

definition validate_election_simple ::
  "(public_key \<Rightarrow> vrf_public_key \<Rightarrow> address) \<Rightarrow> pos_state_config \<Rightarrow> election_payload \<Rightarrow> pos_state \<Rightarrow>
     discarded_vm_status option option" where
  "validate_election_simple addr_of conf election_tx self =
     (let node_id = node_id_new addr_of (el_public_key election_tx) (el_vrf_public_key election_tx) in
      case pst_node_map self (ni_addr node_id) of
        None \<Rightarrow> Some (Some ELECTION_NON_EXISITENT_NODE)
      | Some node \<Rightarrow>
          do { target \<leftarrow> get_starting_view_for_term conf (el_target_term election_tx);
               case target of
                 None \<Rightarrow> Some (Some ELECTION_TERGET_TERM_NOT_OPEN)
               | Some target_view \<Rightarrow>
                   if available_votes (nd_lock_status node) = 0 then Some (Some ELECTION_WITHOUT_VOTES)
                   else do {
                     open_view \<leftarrow> add64 (pst_current_view self) (election_term_end_round conf (pst_current_view self));
                     Some (if target_view \<le> open_view then Some ELECTION_TERGET_TERM_NOT_OPEN else None) } })"

definition validate_pivot_decision_simple :: "pivot_block_decision \<Rightarrow> pos_state \<Rightarrow> discarded_vm_status option" where
  "validate_pivot_decision_simple pivot_decision_tx self =
     (if pd_height pivot_decision_tx \<le> pd_height (pst_pivot_decision self) then Some PIVOT_DECISION_HEIGHT_TOO_OLD
      else None)"

definition validate_election ::
  "(public_key \<Rightarrow> vrf_public_key \<Rightarrow> address) \<Rightarrow> (vrf_public_key \<Rightarrow> bytes \<Rightarrow> vrf_proof \<Rightarrow> bool) \<Rightarrow>
     pos_state_config \<Rightarrow> election_payload \<Rightarrow> pos_state \<Rightarrow> (string + unit) option" where
  "validate_election addr_of vrf_verify conf election_tx self =
     (let node_id = node_id_new addr_of (el_public_key election_tx) (el_vrf_public_key election_tx) in
      case pst_node_map self (ni_addr node_id) of
        None \<Rightarrow> Some (Inl ''Election for non-existent node.'')
      | Some node \<Rightarrow>
          if available_votes (nd_lock_status node) = 0 then Some (Inl ''Election without any votes'')
          else do {
            target \<leftarrow> get_starting_view_for_term conf (el_target_term election_tx);
            case target of
              None \<Rightarrow> Some (Inl ''target view overflows'')
            | Some target_view \<Rightarrow> do {
                start_round \<leftarrow> election_term_start_round conf (pst_current_view self);
                first_view \<leftarrow> add64 (pst_current_view self) start_round;
                last_view \<leftarrow> (if first_view < target_view then Some 0
                  else add64 (pst_current_view self) (election_term_end_round conf (pst_current_view self)));
                if first_view < target_view \<or> target_view \<le> last_view
                then Some (Inl ''Target term is not open for election'')
                else do {
                  target_term_offset \<leftarrow> sub64 (el_target_term election_tx) (start_term (pst_term_list self));
                  assert_that (target_term_offset = tl_electing_index (pst_term_list self));
                  target_term \<leftarrow> electing_term (pst_term_list self);
                  vrf_public_key \<leftarrow> nd_vrf_public_key node;
                  if \<not> vrf_verify vrf_public_key (td_seed target_term) (el_vrf_proof election_tx)
                  then Some (Inl ''Invalid VRF proof for election'')
                  else do {
                    elected \<leftarrow> has_elected (ni_addr node_id) (td_node_list target_term);
                    if elected then Some (Inl ''The sender has elected for this term'')
                    else do {
                      serving \<leftarrow> tl_serving_votes target_term_offset (ni_addr node_id) (pst_term_list self);
                      Some (if available_votes (nd_lock_status node) \<le> serving
                            then Inl ''Election without enough votes'' else Inr ()) } } } } })"

definition validate_pivot_decision ::
  "(nat \<rightharpoonup> validator_verifier) \<Rightarrow> ('sig \<Rightarrow> pivot_block_decision \<Rightarrow> public_key list \<Rightarrow> (string + unit) option) \<Rightarrow>
     pivot_block_decision \<Rightarrow> 'sig \<Rightarrow> pos_state \<Rightarrow> (string + unit) option" where
  "validate_pivot_decision hardcoded multi_verify pivot_decision_tx sig self =
     (if pd_height pivot_decision_tx \<le> pd_height (pst_pivot_decision self)
      then Some (Inl ''Pivot Decision height too small'')
      else let vv = verifier hardcoded (pst_epoch_state self) in
        do { public_keys \<leftarrow> those (map (\<lambda>e. get_public_key vv (fst e)) (vv_address_to_validator_info vv));
             r \<leftarrow> multi_verify sig pivot_decision_tx public_keys;
             Some (map_err (\<lambda>_. ''Pivot Decision verification failed'') r) })"

definition validate_dispute :: "address \<Rightarrow> pos_state \<Rightarrow> string + unit" where
  "validate_dispute address self =
     (case pst_node_map self address of
        Some node \<Rightarrow>
          if ls_exempt_from_forfeit (nd_lock_status node) = None then Inr () else Inl ''Dispute a forfeited node''
      | None \<Rightarrow> Inl ''Unknown dispute node'')"

section \<open>Queries\<close>

definition next_elect_term :: "pos_state_config \<Rightarrow> address \<Rightarrow> pos_state \<Rightarrow> nat option option" where
  "next_elect_term conf author self =
     do { first \<leftarrow> first_start_election_view conf;
          if pst_current_view self < first then Some None
          else do {
            term \<leftarrow> electing_term (pst_term_list self);
            elected \<leftarrow> has_elected author (td_node_list term);
            if elected then Some None
            else case pst_node_map self author of
              None \<Rightarrow> Some None
            | Some node \<Rightarrow>
                do { serving \<leftarrow> tl_serving_votes (tl_electing_index (pst_term_list self)) author (pst_term_list self);
                     if serving < available_votes (nd_lock_status node)
                     then map_option Some (electing_term_number (pst_term_list self))
                     else Some None } } }"

text \<open>The loop over the terms in reverse order.\<close>

definition in_node_list :: "address \<Rightarrow> node_list \<Rightarrow> bool" where
  "in_node_list author nl =
     (case nl of Electing heap \<Rightarrow> author \<in> set (eh_addresses heap) | Elected m \<Rightarrow> map_of m author \<noteq> None)"

definition final_serving_view :: "pos_state_config \<Rightarrow> address \<Rightarrow> pos_state \<Rightarrow> round option option" where
  "final_serving_view conf author self =
     (case find (\<lambda>t. in_node_list author (td_node_list t)) (rev (tl_term_list (pst_term_list self))) of
        None \<Rightarrow> Some None
      | Some t \<Rightarrow>
          do { n \<leftarrow> get_term conf t;
               n' \<leftarrow> add64 n TERM_LIST_LEN;
               v \<leftarrow> get_starting_view_for_term conf n';
               v' \<leftarrow> v;
               map_option Some (add64 v' 1) })"

text \<open>An unlock event carries the address of the node and all votes it has unlocked.\<close>

fun get_unlock_events_loop :: "(address \<rightharpoonup> node_data) \<Rightarrow> address list \<Rightarrow> (address \<times> nat) list option" where
  "get_unlock_events_loop node_map [] = Some []"
| "get_unlock_events_loop node_map (addr # hint) =
     do { node \<leftarrow> node_map addr;
          events \<leftarrow> get_unlock_events_loop node_map hint;
          Some ((addr, unlocked_votes (nd_lock_status node)) # events) }"

definition get_unlock_events :: "pos_state \<Rightarrow> (address \<times> nat) list option" where
  "get_unlock_events self = get_unlock_events_loop (pst_node_map self) (pst_unlock_event_hint self)"

definition next_evicted_term :: "pos_state \<Rightarrow> pos_state \<times> elected_map" where
  "next_evicted_term self =
     (self\<lparr>pst_term_list := (pst_term_list self)\<lparr>tl_candy_rewards := []\<rparr>\<rparr>, tl_candy_rewards (pst_term_list self))"

section \<open>Events\<close>

definition add_hint :: "address \<Rightarrow> view \<Rightarrow> pos_state \<Rightarrow> pos_state" where
  "add_hint address view self =
     self\<lparr>pst_node_map_hint := (pst_node_map_hint self)(view \<mapsto>
       hs_insert address (case pst_node_map_hint self view of None \<Rightarrow> [] | Some xs \<Rightarrow> xs))\<rparr>"

definition record_update_views :: "address \<Rightarrow> view list \<Rightarrow> pos_state \<Rightarrow> pos_state" where
  "record_update_views address views self = fold (add_hint address) views self"

definition register_node :: "node_id \<Rightarrow> pos_state \<Rightarrow> pos_state \<times> (string + unit)" where
  "register_node node_id self =
     (if pst_node_map self (ni_addr node_id) \<noteq> None then (self, Inl ''register an already registered address'')
      else (self\<lparr>pst_node_map := (pst_node_map self)(ni_addr node_id \<mapsto>
          \<lparr>nd_public_key = ni_public_key node_id, nd_vrf_public_key = Some (ni_vrf_public_key node_id),
           nd_lock_status = node_lock_status_default\<rparr>)\<rparr>, Inr ()))"

text \<open>
  The operations on the stake of a node: they apply an operation of its lock status, which also reports the
  views at which the status changes by itself, and record these views.
\<close>

definition on_lock_status ::
  "(node_lock_status \<Rightarrow> view list \<Rightarrow> (node_lock_status \<times> view list) option) \<Rightarrow> string \<Rightarrow> address \<Rightarrow> pos_state \<Rightarrow>
     (pos_state \<times> (string + unit)) option" where
  "on_lock_status f msg addr self =
     (case pst_node_map self addr of
        None \<Rightarrow> Some (self, Inl msg)
      | Some node \<Rightarrow>
          do { (lock_status, update_views) \<leftarrow> f (nd_lock_status node) [];
               Some (record_update_views addr update_views
                 (self\<lparr>pst_node_map := (pst_node_map self)(addr \<mapsto> node\<lparr>nd_lock_status := lock_status\<rparr>)\<rparr>), Inr ()) })"

definition update_voting_power ::
  "pos_state_config \<Rightarrow> address \<Rightarrow> nat \<Rightarrow> pos_state \<Rightarrow> (pos_state \<times> (string + unit)) option" where
  "update_voting_power conf addr increased_voting_power self =
     on_lock_status (new_lock conf (pst_current_view self) increased_voting_power False)
       ''increase voting power of a non-existent node!'' addr self"

definition retire_node ::
  "pos_state_config \<Rightarrow> address \<Rightarrow> nat \<Rightarrow> pos_state \<Rightarrow> (pos_state \<times> (string + unit)) option" where
  "retire_node conf addr votes self =
     on_lock_status (new_unlock conf (pst_current_view self) votes) ''Retiring node does not exist'' addr self"

definition force_retire_node ::
  "pos_state_config \<Rightarrow> address \<Rightarrow> pos_state \<Rightarrow> (pos_state \<times> (string + unit)) option" where
  "force_retire_node conf addr self =
     on_lock_status (force_retire conf (pst_current_view self)) ''Force retiring node does not exist'' addr self"

definition forfeit_node ::
  "pos_state_config \<Rightarrow> address \<Rightarrow> pos_state \<Rightarrow> (pos_state \<times> (string + unit)) option" where
  "forfeit_node conf addr self =
     on_lock_status (forfeit conf (pst_current_view self)) ''Forfeiting node does not exist'' addr self"

definition pst_new_node_elected ::
  "(hash \<Rightarrow> nat \<Rightarrow> hash) \<Rightarrow> pos_state_config \<Rightarrow> election_event \<Rightarrow> pos_state \<Rightarrow> (pos_state \<times> (string + unit)) option" where
  "pst_new_node_elected vrf_number conf event self =
     (let author = ni_addr (ee_node_id event) in
      do { node \<leftarrow> pst_node_map self author;
           target_term_offset \<leftarrow> sub64 (ee_start_term event) (start_term (pst_term_list self));
           serving \<leftarrow> tl_serving_votes target_term_offset author (pst_term_list self);
           let voting_power = available_votes (nd_lock_status node) - serving;
           if 0 < voting_power
           then do {
             (tl', r) \<leftarrow> tl_new_node_elected vrf_number conf event
               (min voting_power (max_nonce_per_account conf (pst_current_view self))) (pst_term_list self);
             Some (self\<lparr>pst_term_list := tl'\<rparr>, r) }
           else Some (self, Inr ()) })"

section \<open>The next view\<close>

fun update_hinted ::
  "pos_state_config \<Rightarrow> view \<Rightarrow> address list \<Rightarrow> (address \<rightharpoonup> node_data) \<Rightarrow> address list \<Rightarrow>
     ((address \<rightharpoonup> node_data) \<times> address list) option" where
  "update_hinted conf view [] node_map unlock_hint = Some (node_map, unlock_hint)"
| "update_hinted conf view (addr # addresses) node_map unlock_hint =
     do { node \<leftarrow> node_map addr;
          (lock_status, new_votes_unlocked) \<leftarrow> update conf view (nd_lock_status node);
          update_hinted conf view addresses (node_map(addr \<mapsto> node\<lparr>nd_lock_status := lock_status\<rparr>))
            (if new_votes_unlocked then hs_insert addr unlock_hint else unlock_hint) }"

definition next_view_epoch :: "pos_state_config \<Rightarrow> pos_state \<Rightarrow> (pos_state \<times> epoch_state option) option" where
  "next_view_epoch conf self =
     (if pst_current_view self = 1
      then do { (verifier, term_seed) \<leftarrow> get_committee_at 0 self;
                Some (self, Some \<lparr>es_epoch = 1, es_verifier = verifier, es_vrf_seed = term_seed\<rparr>) }
      else do {
        (new_term, view_in_term) \<leftarrow> get_term_view conf (pst_current_view self);
        if view_in_term = 0
        then do {
          (verifier, term_seed) \<leftarrow> get_committee_at new_term self;
          tl' \<leftarrow> tl_new_term conf new_term (pd_block_hash (pst_pivot_decision self)) (pst_term_list self);
          epoch \<leftarrow> add64 new_term 1;
          Some (self\<lparr>pst_term_list := tl'\<rparr>,
                Some \<lparr>es_epoch = epoch, es_verifier = verifier, es_vrf_seed = term_seed\<rparr>) }
        else do {
          first \<leftarrow> first_end_election_view conf;
          if first \<le> pst_current_view self \<and> view_in_term = round_per_term conf (pst_current_view self) div 2
          then do { tl' \<leftarrow> finalize_election conf (pst_term_list self); Some (self\<lparr>pst_term_list := tl'\<rparr>, None) }
          else Some (self, None) } })"

definition next_view :: "pos_state_config \<Rightarrow> pos_state \<Rightarrow> (pos_state \<times> epoch_state option) option" where
  "next_view conf self =
     do { view \<leftarrow> add64 (pst_current_view self) 1;
          (node_map, unlock_hint) \<leftarrow>
            (case pst_node_map_hint self view of
               None \<Rightarrow> Some (pst_node_map self, [])
             | Some addresses \<Rightarrow> update_hinted conf view addresses (pst_node_map self) []);
          (self', epoch_state) \<leftarrow> next_view_epoch conf (self\<lparr>pst_current_view := view, pst_node_map := node_map,
             pst_node_map_hint := (pst_node_map_hint self)(view := None), pst_unlock_event_hint := unlock_hint\<rparr>);
          Some (case epoch_state of None \<Rightarrow> self' | Some e \<Rightarrow> self'\<lparr>pst_epoch_state := e\<rparr>, epoch_state) }"

end
