(* ===== verification/Term_Props.thy ===== *)
theory Term_Props
  imports Pos_State
begin

text \<open>
  The terms as a function of the view, and the invariant of the term list: eight consecutive terms around
  the current one, the finished elections in front, the open ones behind. The heap of an election is compared
  with its specification: the candidates with the smallest numbers are kept.
\<close>

section \<open>Views and terms\<close>

definition term_start :: "pos_state_config \<Rightarrow> nat \<Rightarrow> view" where
  "term_start conf t =
     (let R = c_round_per_term conf; V = c_cip136_transition_view conf in
      if t < V div R then t * R else V + (t - V div R) * c_cip136_round_per_term conf)"

lemma term_start_0 [simp]: "config_wf conf \<Longrightarrow> term_start conf 0 = 0"
proof -
  assume "config_wf conf"
  then have "c_round_per_term conf \<le> c_cip136_transition_view conf" "0 < c_round_per_term conf"
    by (auto simp: config_wf_def TERM_LIST_LEN_def)
  then have "0 < c_cip136_transition_view conf div c_round_per_term conf"
    by (simp add: div_greater_zero_iff)
  then show ?thesis
    by (simp add: term_start_def Let_def)
qed

lemma round_per_term_pos:
  assumes "config_wf conf"
  shows "2 \<le> round_per_term conf v" and "even (round_per_term conf v)"
proof -
  have "2 \<le> n" if "0 < n" "even n" for n :: nat
    using that by presburger
  then show "2 \<le> round_per_term conf v" and "even (round_per_term conf v)"
    using assms by (auto simp: config_wf_def round_per_term_def)
qed

lemma term_start_before:
  assumes "config_wf conf"
  shows "term_start conf t < c_cip136_transition_view conf \<longleftrightarrow> t < c_cip136_transition_view conf div c_round_per_term conf"
proof -
  obtain n where n: "c_cip136_transition_view conf = c_round_per_term conf * n"
    using assms by (auto simp: config_wf_def)
  have R: "0 < c_round_per_term conf"
    using assms by (simp add: config_wf_def)
  show ?thesis
    using R by (auto simp: term_start_def Let_def n mult.commute)
qed

lemma term_start_Suc:
  assumes "config_wf conf"
  shows "term_start conf (Suc t) = term_start conf t + round_per_term conf (term_start conf t)"
proof -
  let ?R = "c_round_per_term conf" and ?V = "c_cip136_transition_view conf"
  obtain n where n: "?V = ?R * n"
    using assms by (auto simp: config_wf_def)
  have R: "0 < ?R"
    using assms by (simp add: config_wf_def)
  consider "Suc t < n" | "Suc t = n" | "n \<le> t" by linarith
  then show ?thesis
  proof cases
    case 1
    then show ?thesis
      using R term_start_before [OF assms, of t] by (simp add: round_per_term_def term_start_def Let_def n)
  next
    case 2
    then have "term_start conf (Suc t) = ?R * n" "term_start conf t = t * ?R"
      using R by (simp_all add: term_start_def Let_def n)
    then show ?thesis
      using 2 R n by (auto simp: round_per_term_def algebra_simps)
  next
    case 3
    then show ?thesis
      using R term_start_before [OF assms, of t]
      by (simp add: round_per_term_def term_start_def Let_def n Suc_diff_le)
  qed
qed

lemma term_start_mono:
  assumes "config_wf conf"
  shows "strict_mono (term_start conf)"
proof (rule iffD2 [OF strict_mono_Suc_iff], rule allI)
  fix t
  show "term_start conf t < term_start conf (Suc t)"
    using round_per_term_pos(1) [OF assms, of "term_start conf t"] by (simp add: term_start_Suc [OF assms])
qed

lemma starting_view_eq:
  assumes "config_wf conf" and "term_start conf t \<le> U64_MAX"
  shows "get_starting_view_for_term conf t = Some (Some (term_start conf t))"
proof -
  let ?R = "c_round_per_term conf" and ?V = "c_cip136_transition_view conf"
  have R: "0 < ?R"
    using assms by (simp add: config_wf_def)
  show ?thesis
  proof (cases "t < ?V div ?R")
    case True
    then show ?thesis
      using R assms(2) by (simp add: get_starting_view_for_term_def div64_def mul64_def term_start_def)
  next
    case False
    then have "term_start conf t = ?V + (t - ?V div ?R) * c_cip136_round_per_term conf"
      by (simp add: term_start_def Let_def)
    then show ?thesis
      using R assms(2) False
      by (simp add: get_starting_view_for_term_def div64_def sub64_def mul64_def add64_def add.commute)
  qed
qed

text \<open>The term of a view is the one whose interval contains it.\<close>

lemma term_view_interval:
  assumes "config_wf conf" and "term_start conf t \<le> v" and "v < term_start conf (Suc t)" and "v \<le> U64_MAX"
  shows "get_term_view conf v = Some (t, v - term_start conf t)"
    and "round_per_term conf v = round_per_term conf (term_start conf t)"
proof -
  have pos: "0 < c_round_per_term conf" "0 < c_cip136_round_per_term conf"
      "c_round_per_term conf dvd c_cip136_transition_view conf"
    using assms(1) by (auto simp: config_wf_def)
  obtain t' k where tk: "get_term_view conf v = Some (t', k)" "k \<le> v" "k < round_per_term conf v"
      "get_starting_view_for_term conf t' = Some (Some (v - k))"
    using get_term_view_start [OF pos assms(4)] by blast
  have le: "term_start conf t' \<le> U64_MAX"
  proof (rule ccontr)
    assume "\<not> term_start conf t' \<le> U64_MAX"
    then show False
      using tk(4) pos(1) by (auto simp: get_starting_view_for_term_def u64_simps div64_def term_start_def Let_def
          bind_eq_Some_conv split: if_splits option.splits)
  qed
  then have s: "term_start conf t' = v - k"
    using starting_view_eq [OF assms(1) le] tk(4) by simp
  have V: "round_per_term conf v = round_per_term conf (term_start conf t')"
  proof (cases "v < c_cip136_transition_view conf")
    case True
    then have "term_start conf t' < c_cip136_transition_view conf"
      unfolding s by linarith
    then show ?thesis using True by (simp add: round_per_term_def)
  next
    case False
    have "\<not> term_start conf t' < c_cip136_transition_view conf"
    proof
      assume a: "term_start conf t' < c_cip136_transition_view conf"
      then have t': "t' < c_cip136_transition_view conf div c_round_per_term conf"
        using term_start_before [OF assms(1)] by blast
      have "get_term_view conf v = Some (c_cip136_transition_view conf div c_round_per_term conf
          + (v - c_cip136_transition_view conf) div c_cip136_round_per_term conf,
          (v - c_cip136_transition_view conf) mod c_cip136_round_per_term conf)"
        using get_term_view_after [OF pos(1,2) _ assms(4)] False by simp
      then show False using tk(1) t' by simp
    qed
    then show ?thesis using False by (simp add: round_per_term_def)
  qed
  have "term_start conf t' \<le> v" "v < term_start conf (Suc t')"
    using s tk(2,3) V by (simp_all add: term_start_Suc [OF assms(1)])
  then have "t' < Suc t" "t < Suc t'"
    using assms(2,3) strict_mono_less [OF term_start_mono [OF assms(1)]] by (meson le_less_trans)+
  then have "t' = t" by simp
  then show "get_term_view conf v = Some (t, v - term_start conf t)"
    and "round_per_term conf v = round_per_term conf (term_start conf t)"
    using tk(1,2) s V by auto
qed

section \<open>The interface of the candidate heap\<close>

text \<open>
  A priority queue whose greatest item can be read and removed. An election offers candidates one by one and
  drops the greatest when there are more than \<open>cap\<close>; whatever the order of the offers, the queue holds \<open>cap\<close>
  candidates of least rank.
\<close>

locale max_queue =
  fixes invar :: "'q \<Rightarrow> bool"
    and items :: "'q \<Rightarrow> 'c multiset"
    and push :: "'c \<Rightarrow> 'q \<Rightarrow> 'q"
    and pop :: "'q \<Rightarrow> 'q"
    and peek :: "'q \<Rightarrow> 'c option"
    and rank :: "'c \<Rightarrow> nat"
  assumes push_invar: "invar q \<Longrightarrow> invar (push c q)"
    and push_items: "invar q \<Longrightarrow> items (push c q) = add_mset c (items q)"
    and peek_None: "invar q \<Longrightarrow> peek q = None \<longleftrightarrow> items q = {#}"
    and peek_greatest: "invar q \<Longrightarrow> peek q = Some c \<Longrightarrow> c \<in># items q \<and> (\<forall>d\<in>#items q. rank d \<le> rank c)"
    and pop_invar: "invar q \<Longrightarrow> invar (pop q)"
    and pop_items: "invar q \<Longrightarrow> peek q = Some c \<Longrightarrow> items (pop q) = items q - {#c#}"
begin

definition offer :: "nat \<Rightarrow> 'c \<Rightarrow> 'q \<Rightarrow> 'q" where
  "offer cap c q =
     (if (case peek q of None \<Rightarrow> True | Some m \<Rightarrow> size (items q) < cap \<or> rank c < rank m)
      then if cap < size (items (push c q)) then pop (push c q) else push c q
      else q)"

definition keeps :: "nat \<Rightarrow> 'c multiset \<Rightarrow> 'q \<Rightarrow> bool" where
  "keeps cap M q \<longleftrightarrow> invar q \<and> items q \<subseteq># M \<and> size (items q) = min cap (size M) \<and>
     (\<forall>a\<in>#items q. \<forall>d\<in>#M - items q. rank a \<le> rank d)"

lemma keeps_empty: "invar q \<Longrightarrow> items q = {#} \<Longrightarrow> keeps cap {#} q"
  by (simp add: keeps_def)

text \<open>A queue that is not full takes the candidate.\<close>

lemma keeps_push:
  assumes "keeps cap M q" and "size (items q) < cap"
  shows "keeps cap (add_mset c M) (push c q)"
proof -
  have "M = items q"
  proof -
    have "size (items q) = size M" "items q \<subseteq># M"
      using assms by (auto simp: keeps_def)
    then show ?thesis
      by (metis mset_subset_size nless_le subset_mset.le_imp_less_or_eq)
  qed
  then show ?thesis
    using assms push_items [of q c] push_invar [of q c] by (simp add: keeps_def)
qed

text \<open>A full queue rejects a candidate that is not below its greatest item.\<close>

lemma keeps_reject:
  assumes "keeps cap M q" and "peek q = Some m" and "cap \<le> size (items q)" and "rank m \<le> rank c"
  shows "keeps cap (add_mset c M) q"
proof -
  have q: "invar q" "items q \<subseteq># M" "size (items q) = min cap (size M)" "\<forall>a\<in>#items q. \<forall>d\<in>#M - items q. rank a \<le> rank d"
    using assms(1) by (auto simp: keeps_def)
  have "add_mset c M - items q = add_mset c (M - items q)"
    using q(2) by (metis add_mset_add_single multiset_diff_union_assoc union_commute)
  moreover have "\<forall>a\<in>#items q. rank a \<le> rank c"
    using peek_greatest [OF q(1) assms(2)] assms(4) by force
  ultimately show ?thesis
    using q assms(3) subset_mset.order_trans [OF q(2), of "add_mset c M"] by (auto simp: keeps_def)
qed

text \<open>A full queue exchanges its greatest item for a candidate below it.\<close>

lemma keeps_exchange:
  assumes "keeps cap M q" and "peek q = Some m" and "cap \<le> size (items q)" and "rank c < rank m"
  shows "keeps cap (add_mset c M) (pop (push c q))"
proof -
  have q: "invar q" "items q \<subseteq># M" "size (items q) = min cap (size M)" "\<forall>a\<in>#items q. \<forall>d\<in>#M - items q. rank a \<le> rank d"
    using assms(1) by (auto simp: keeps_def)
  note m = peek_greatest [OF q(1) assms(2)] and p = push_invar [OF q(1), of c]
  have it: "items (push c q) = add_mset c (items q)"
    using push_items [OF q(1)] .
  then obtain e where e: "peek (push c q) = Some e"
    using peek_None [OF p] by fastforce
  have eg: "e \<in># add_mset c (items q)" "\<forall>d\<in>#add_mset c (items q). rank d \<le> rank e"
    using peek_greatest [OF p e] it by auto
  then have ne: "e \<in># items q" "rank m \<le> rank e" "e \<noteq> c"
    using m assms(4) by (auto simp: not_le)
  have pop: "items (pop (push c q)) = add_mset c (items q - {#e#})"
    using pop_items [OF p e] it ne by simp
  obtain K N where KN: "M = items q + K" "items q = add_mset e N"
    using q(2) ne(1) by (metis mset_subset_eq_exists_conv multi_member_split)
  have diff: "add_mset c M - items (pop (push c q)) = add_mset e (M - items q)"
    unfolding pop by (simp add: KN)
  show ?thesis
    unfolding keeps_def diff
  proof (intro conjI ballI)
    show "invar (pop (push c q))" using pop_invar [OF p] .
    show "items (pop (push c q)) \<subseteq># add_mset c M"
      using pop q(2) by (metis diff_subset_eq_self mset_subset_eq_add_mset_cancel subset_mset.order_trans)
    show "size (items (pop (push c q))) = min cap (size (add_mset c M))"
      using pop q(3) ne(1) assms(3) by (simp add: size_Suc_Diff1)
    fix a d assume "a \<in># items (pop (push c q))" "d \<in># add_mset e (M - items q)"
    then have "a \<in># add_mset c (items q)" "d = e \<or> d \<in># M - items q"
      using pop by (auto dest: in_diffD)
    then show "rank a \<le> rank d"
      using eg(2) q(4) m assms(4) by fastforce
  qed
qed

lemma offer_keeps:
  assumes "keeps cap M q"
  shows "keeps cap (add_mset c M) (offer cap c q)"
proof -
  have inv: "invar q" using assms by (simp add: keeps_def)
  have sz: "size (items (push c q)) = Suc (size (items q))"
    using push_items [OF inv] by simp
  show ?thesis
  proof (cases "size (items q) < cap")
    case True
    then show ?thesis
      using keeps_push [OF assms True] sz by (simp add: offer_def split: option.split)
  next
    case full: False
    show ?thesis
    proof (cases "peek q")
      case None
      then have "items q = {#}" "cap = 0"
        using peek_None [OF inv] full by auto
      then have "items (pop (push c q)) = {#}" "invar (pop (push c q))"
        using pop_items [OF push_invar [OF inv]] peek_None [OF push_invar [OF inv, of c]]
          peek_greatest [OF push_invar [OF inv, of c]] push_items [OF inv, of c] pop_invar [OF push_invar [OF inv, of c]]
        by (cases "peek (push c q)"; fastforce)+
      then show ?thesis
        using None sz \<open>cap = 0\<close> by (simp add: offer_def keeps_def)
    next
      case (Some m)
      then show ?thesis
        using keeps_reject [OF assms Some] keeps_exchange [OF assms Some] full sz by (auto simp: offer_def)
    qed
  qed
qed

lemma offers_keep: "keeps cap M q \<Longrightarrow> keeps cap (mset cs + M) (fold (offer cap) cs q)"
  by (induction cs arbitrary: M q) (auto dest: offer_keeps simp flip: union_mset_add_mset_right)

end

section \<open>The heap of an election\<close>

definition heap_ok :: "candidate list \<Rightarrow> bool" where
  "heap_ok h \<longleftrightarrow> sorted_wrt (\<lambda>a b. \<not> cand_before a b) h"

definition heap_peek :: "candidate list \<Rightarrow> candidate option" where
  "heap_peek h = (case h of [] \<Rightarrow> None | c # _ \<Rightarrow> Some c)"

lemma cand_before_rank: "\<not> cand_before a b \<Longrightarrow> fst b \<le> fst a"
  by (auto simp: cand_before_def)

lemma cand_before_trans: "\<not> cand_before a b \<Longrightarrow> \<not> cand_before b c \<Longrightarrow> \<not> cand_before a c"
  by (auto simp: cand_before_def)

lemma cand_before_asym: "cand_before a b \<Longrightarrow> \<not> cand_before b a"
  by (auto simp: cand_before_def)

lemma mset_heap_push [simp]: "mset (heap_push c h) = add_mset c (mset h)"
  by (induction h) auto

lemma set_heap_push [simp]: "set (heap_push c h) = insert c (set h)"
  by (metis mset_heap_push set_mset_add_mset_insert set_mset_mset)

lemma length_heap_push [simp]: "length (heap_push c h) = Suc (length h)"
  by (metis mset_heap_push size_add_mset size_mset)

lemma heap_ok_push: "heap_ok h \<Longrightarrow> heap_ok (heap_push c h)"
  by (induction h) (auto simp: heap_ok_def dest: cand_before_trans cand_before_asym)

interpretation cq: max_queue heap_ok mset heap_push tl heap_peek fst
proof unfold_locales
  fix q :: "candidate list" and c
  assume q: "heap_ok q"
  show "heap_ok (heap_push c q)" using q by (rule heap_ok_push)
  show "mset (heap_push c q) = add_mset c (mset q)" by simp
  show "heap_peek q = None \<longleftrightarrow> mset q = {#}" by (simp add: heap_peek_def split: list.split)
  show "heap_ok (tl q)" using q by (cases q) (auto simp: heap_ok_def)
  show "mset (tl q) = mset q - {#c#}" if "heap_peek q = Some c"
    using that by (cases q) (auto simp: heap_peek_def)
  show "c \<in># mset q \<and> (\<forall>d\<in>#mset q. fst d \<le> fst c)" if "heap_peek q = Some c"
    using that q by (cases q) (auto simp: heap_peek_def heap_ok_def dest: cand_before_rank)
qed

lemma heap_add_node_offer:
  "eh_heap (heap_add_node conf h node_id self) = cq.offer (term_max_size conf) (h, node_id) (eh_heap self)"
  "set (eh_addresses (heap_add_node conf h node_id self)) =
     insert (ni_addr (ei_node_id node_id)) (set (eh_addresses self))"
  by (auto simp: heap_add_node_def cq.offer_def heap_peek_def Let_def split: list.split)

text \<open>The address of a candidate and the votes an address has among candidates or in a map.\<close>

definition cand_addr :: "candidate \<Rightarrow> address" where
  "cand_addr c = ni_addr (ei_node_id (snd c))"

definition cand_votes :: "address \<Rightarrow> candidate list \<Rightarrow> nat" where
  "cand_votes a h = length (filter (\<lambda>c. cand_addr c = a) h)"

definition votes_of :: "elected_map \<Rightarrow> address \<Rightarrow> nat" where
  "votes_of m a = (case map_of m a of None \<Rightarrow> 0 | Some v \<Rightarrow> v)"

lemma cand_votes_simps [simp]:
  "cand_votes a [] = 0" "cand_votes a (c # h) = (if cand_addr c = a then 1 else 0) + cand_votes a h"
  by (simp_all add: cand_votes_def)

lemma entry_add_votes:
  assumes "bt_ok m" and "bt_entry_add k n m = Some m'"
  shows "votes_of m' a = votes_of m a + (if a = k then n else 0)" and "fst ` set m' = insert k (fst ` set m)"
    and "bt_ok m'" and "bt_sum m' = bt_sum m + n"
  using assms bt_entry_add_sum [OF assms]
  by (auto simp: votes_of_def bt_simps Let_def split: option.splits)

lemma count_rest_spec:
  "bt_ok m \<Longrightarrow> count_rest h m = Some m' \<Longrightarrow>
     bt_ok m' \<and> bt_sum m' = bt_sum m + length h \<and> fst ` set m' = fst ` set m \<union> cand_addr ` set h \<and>
     (\<forall>a. votes_of m' a = votes_of m a + cand_votes a h)"
proof (induction h arbitrary: m)
  case (Cons c h)
  obtain x i where c: "c = (x, i)" by (cases c)
  then obtain m1 where m1: "bt_entry_add (ni_addr (ei_node_id i)) 1 m = Some m1" "count_rest h m1 = Some m'"
    using Cons.prems(2) by (auto simp: option_bind_simps)
  note e = entry_add_votes [OF Cons.prems(1) m1(1)]
  show ?case
    using Cons.IH [OF e(3) m1(2)] e by (auto simp: c cand_addr_def)
qed simp

lemma count_rest_defined: "bt_ok m \<Longrightarrow> bt_sum m + length h \<le> U64_MAX \<Longrightarrow> \<exists>m'. count_rest h m = Some m'"
proof (induction h arbitrary: m)
  case (Cons c h)
  obtain x i where c: "c = (x, i)" by (cases c)
  obtain m1 where m1: "bt_entry_add (ni_addr (ei_node_id i)) 1 m = Some m1"
    using bt_entry_add_ok [of m 1] Cons.prems(2) by auto
  show ?case
    using Cons.IH [of m1] Cons.prems(2) entry_add_votes [OF Cons.prems(1) m1] m1 by (simp add: c)
qed simp

text \<open>The entries the loop of \<^const>\<open>pop_top\<close> takes: at least one, if there is one.\<close>

definition top_count :: "nat \<Rightarrow> nat \<Rightarrow> nat" where
  "top_count elected_size n = min n (max 1 elected_size)"

lemma pop_top_eq:
  "pop_top k n h m =
     map_option (Pair (drop (top_count (k - n) (length h)) h)) (count_rest (take (top_count (k - n) (length h)) h) m)"
proof (induction h arbitrary: n m)
  case (Cons c h)
  obtain x i where c: "c = (x, i)" by (cases c)
  show ?case
  proof (cases "k \<le> Suc n")
    case True
    then have "top_count (k - n) (length (c # h)) = 1"
      by (auto simp: top_count_def)
    then show ?thesis
      using True by (auto simp: c split: Option.bind_split)
  next
    case False
    then have "top_count (k - n) (length (c # h)) = Suc (top_count (k - Suc n) (length h))"
      by (auto simp: top_count_def)
    then show ?thesis
      using False by (auto simp: c Cons.IH split: Option.bind_split)
  qed
qed (simp add: top_count_def)

lemma heap_finalize_spec:
  assumes "heap_finalize conf eh = Some (elected, candy)"
  defines "k \<equiv> top_count (term_elected_size conf) (length (eh_heap eh))"
  shows "bt_ok elected" and "bt_sum elected = k" and "fst ` set elected = cand_addr ` set (take k (eh_heap eh))"
    and "votes_of elected a = cand_votes a (take k (eh_heap eh))"
    and "bt_ok candy" and "votes_of candy a = cand_votes a (eh_heap eh)"
proof -
  have e: "count_rest (take k (eh_heap eh)) [] = Some elected" "count_rest (drop k (eh_heap eh)) elected = Some candy"
    using assms(1) by (auto simp: heap_finalize_def pop_top_eq k_def option_bind_simps)
  have "k \<le> length (eh_heap eh)" by (simp add: k_def top_count_def)
  moreover note 1 = count_rest_spec [OF _ e(1), simplified]
  moreover have "votes_of [] a = 0" by (simp add: votes_of_def)
  ultimately show "bt_ok elected" and "bt_sum elected = k" and "fst ` set elected = cand_addr ` set (take k (eh_heap eh))"
    and "votes_of elected a = cand_votes a (take k (eh_heap eh))"
    by auto
  note 2 = count_rest_spec [OF conjunct1 [OF 1] e(2)]
  show "bt_ok candy" using 2 by blast
  have "cand_votes a (take k (eh_heap eh)) + cand_votes a (drop k (eh_heap eh)) = cand_votes a (eh_heap eh)"
    unfolding cand_votes_def by (metis append_take_drop_id filter_append length_append)
  then show "votes_of candy a = cand_votes a (eh_heap eh)"
    using 1 2 \<open>votes_of [] a = 0\<close> by simp
qed

lemma heap_finalize_defined: "length (eh_heap eh) \<le> U64_MAX \<Longrightarrow> \<exists>x. heap_finalize conf eh = Some x"
proof -
  assume le: "length (eh_heap eh) \<le> U64_MAX"
  let ?k = "top_count (term_elected_size conf) (length (eh_heap eh))"
  have "bt_sum [] + length (take ?k (eh_heap eh)) \<le> U64_MAX"
    using le by simp
  then obtain m where m: "count_rest (take ?k (eh_heap eh)) [] = Some m"
    using count_rest_defined [OF bt_ok_Nil] by blast
  have "bt_ok m" "bt_sum m + length (drop ?k (eh_heap eh)) \<le> U64_MAX"
    using count_rest_spec [OF _ m] le by (auto simp: top_count_def)
  then show ?thesis
    using count_rest_defined m by (fastforce simp: heap_finalize_def pop_top_eq)
qed

end
