(* ===== verification/Term_Invariant.thy ===== *)
theory Term_Invariant
  imports Term_Props
begin

text \<open>
  The invariant of the term list and what the operations on it do under the invariant: none of their
  assertions can fail, the committee of a term is always elected when it is needed, and an election is
  finalized exactly once, in the middle of the term before it becomes effective.
\<close>

section \<open>The invariant\<close>

text \<open>The position of a view: the term it lies in and its offset there.\<close>

definition at_view :: "pos_state_config \<Rightarrow> view \<Rightarrow> nat \<Rightarrow> nat \<Rightarrow> bool" where
  "at_view conf v t k \<longleftrightarrow> v = term_start conf t + k \<and> k < round_per_term conf (term_start conf t)"

definition electing_at :: "pos_state_config \<Rightarrow> nat \<Rightarrow> nat \<Rightarrow> nat" where
  "electing_at conf t k = (if 5 \<le> t \<and> round_per_term conf (term_start conf t) div 2 \<le> k then 7 else 6)"

text \<open>A finished election has at most \<open>C\<close> votes, and all addresses are those of registered nodes.\<close>

definition nl_ok :: "pos_state_config \<Rightarrow> nat \<Rightarrow> address set \<Rightarrow> node_list \<Rightarrow> bool" where
  "nl_ok conf C D nl =
     (case nl of
        Electing eh \<Rightarrow> heap_ok (eh_heap eh) \<and> length (eh_heap eh) \<le> term_max_size conf \<and> cand_addr ` set (eh_heap eh) \<subseteq> D
      | Elected m \<Rightarrow> bt_ok m \<and> bt_sum m \<le> C \<and> fst ` set m \<subseteq> D)"

definition is_elected :: "node_list \<Rightarrow> bool" where
  "is_elected nl = (case nl of Electing _ \<Rightarrow> False | Elected _ \<Rightarrow> True)"

definition term_list_ok ::
  "pos_state_config \<Rightarrow> nat \<Rightarrow> address set \<Rightarrow> nat \<Rightarrow> nat \<Rightarrow> term_list \<Rightarrow> bool" where
  "term_list_ok conf C D t k terms \<longleftrightarrow>
     tl_current_term terms = t \<and> length (tl_term_list terms) = 8 \<and> tl_electing_index terms = electing_at conf t k \<and>
     (\<forall>i<8. td_start_view (tl_term_list terms ! i) = term_start conf (t - 5 + i)) \<and>
     (\<forall>i<8. nl_ok conf C D (td_node_list (tl_term_list terms ! i)) \<and>
        (is_elected (td_node_list (tl_term_list terms ! i)) \<longleftrightarrow> i < electing_at conf t k))"

lemma nl_ok_mono: "nl_ok conf C D nl \<Longrightarrow> D \<subseteq> D' \<Longrightarrow> nl_ok conf C D' nl"
  by (auto simp: nl_ok_def split: node_list.splits)

lemma term_list_ok_mono: "term_list_ok conf C D t k terms \<Longrightarrow> D \<subseteq> D' \<Longrightarrow> term_list_ok conf C D' t k terms"
  using nl_ok_mono by (auto simp: term_list_ok_def)

lemma nl_ok_default [simp]: "nl_ok conf C D node_list_default" "\<not> is_elected node_list_default"
  by (simp_all add: nl_ok_def node_list_default_def electing_heap_default_def is_elected_def heap_ok_def)

lemma electing_at_range: "electing_at conf t k \<in> {6, 7}"
  by (simp add: electing_at_def)

section \<open>Positions\<close>

lemma at_view_term:
  assumes "config_wf conf" and "at_view conf v t k" and "v \<le> U64_MAX"
  shows "get_term_view conf v = Some (t, k)" and "round_per_term conf v = round_per_term conf (term_start conf t)"
proof -
  have "term_start conf t \<le> v" "v < term_start conf (Suc t)" "v - term_start conf t = k"
    using assms by (auto simp: at_view_def term_start_Suc)
  then show "get_term_view conf v = Some (t, k)" "round_per_term conf v = round_per_term conf (term_start conf t)"
    using term_view_interval [OF assms(1) _ _ assms(3)] by auto
qed

lemma at_view_0: "config_wf conf \<Longrightarrow> at_view conf 0 0 0"
  using round_per_term_pos(1) [of conf 0] by (simp add: at_view_def)

lemma at_view_Suc:
  assumes "config_wf conf" and "at_view conf v t k"
  shows "at_view conf (Suc v) t (Suc k) \<or>
    (Suc k = round_per_term conf (term_start conf t) \<and> at_view conf (Suc v) (Suc t) 0)"
  using assms round_per_term_pos(1) [OF assms(1), of "term_start conf (Suc t)"]
  by (auto simp: at_view_def term_start_Suc)

lemma first_end_election:
  assumes "config_wf conf" and "at_view conf v t k" and "6 * c_round_per_term conf \<le> U64_MAX"
  shows "\<exists>first. first_end_election_view conf = Some first \<and>
    (first \<le> v \<and> round_per_term conf (term_start conf t) div 2 \<le> k \<longleftrightarrow>
     5 \<le> t \<and> round_per_term conf (term_start conf t) div 2 \<le> k)"
proof -
  let ?R = "c_round_per_term conf" and ?V = "c_cip136_transition_view conf"
  have wf: "0 < ?R" "even ?R" "6 * ?R \<le> ?V"
    using assms(1) by (auto simp: config_wf_def TERM_LIST_LEN_def)
  have "6 * ?R div ?R \<le> ?V div ?R"
    using wf(3) by (rule div_le_mono)
  then have six: "6 \<le> ?V div ?R" using wf(1) by simp
  have R0: "round_per_term conf 0 = ?R"
    using wf by (simp add: round_per_term_def)
  have f: "first_end_election_view conf = Some (6 * ?R - ?R div 2)"
    using assms(3) wf(1) R0
    by (simp add: first_end_election_view_def election_term_end_round_def mul64_def sub64_def TERM_LIST_LEN_def)
  have st: "term_start conf i = i * ?R" if "i < 6" for i
    using that six by (simp add: term_start_def Let_def)
  have R5: "round_per_term conf (term_start conf i) = ?R" if "i < 6" for i
  proof -
    have "i * ?R < 6 * ?R" using that wf(1) by simp
    then have "term_start conf i < ?V" using wf(3) st [OF that] by linarith
    then show ?thesis by (simp add: round_per_term_def)
  qed
  have eq: "6 * ?R - ?R div 2 = 5 * ?R + ?R div 2"
    using wf(2) by (elim evenE) simp
  have "6 * ?R - ?R div 2 \<le> v \<longleftrightarrow> 5 \<le> t" if k: "round_per_term conf (term_start conf t) div 2 \<le> k"
  proof (cases t "5 :: nat" rule: linorder_cases)
    case less
    then have "v < Suc t * ?R"
      using assms(2) st [of t] R5 [of t] by (simp add: at_view_def)
    moreover have "Suc t * ?R \<le> 5 * ?R"
      using less by (intro mult_le_mono1) simp
    ultimately show ?thesis using less eq by linarith
  next
    case equal
    then show ?thesis
      using assms(2) st [of 5] R5 [of 5] k eq by (simp add: at_view_def)
  next
    case greater
    then have "term_start conf 6 \<le> v"
      using assms(2) strict_mono_less_eq [OF term_start_mono [OF assms(1)], of 6 t] by (simp add: at_view_def)
    moreover have "term_start conf 6 = term_start conf 5 + round_per_term conf (term_start conf 5)"
      using term_start_Suc [OF assms(1), of 5] by simp
    ultimately show ?thesis
      using greater st [of 5] R5 [of 5] by simp
  qed
  then show ?thesis using f by blast
qed

section \<open>Operations\<close>

lemma elected_committee:
  assumes "nl_ok conf C D nl" and "is_elected nl"
  obtains m where "nl_committee nl = Some m" and "bt_ok m" and "bt_sum m \<le> C" and "fst ` set m \<subseteq> D"
  using assms by (auto simp: nl_ok_def is_elected_def nl_committee_def split: node_list.splits)

text \<open>The committee of a term: its own election and the five before, all of them finished.\<close>

lemma committee_for_term_window:
  assumes "term_list_ok conf C D t k terms" and "t \<le> U64_MAX - 10"
    and "n \<le> t \<and> n \<le> 5 \<and> t \<le> 5 \<or> n = Suc t \<and> t < 5 \<or> n = Suc t \<and> electing_at conf t k = 7"
  shows "\<exists>ts. committee_for_term n terms = Some ts \<and> length ts = 6 \<and>
    (\<forall>d\<in>set ts. nl_ok conf C D (td_node_list d) \<and> is_elected (td_node_list d))"
proof -
  let ?o = "if 5 \<le> t \<and> n = Suc t then 1 else 0" and ?e = "electing_at conf t k"
  have st: "start_term terms = t - 5" and len: "length (tl_term_list terms) = 8" and ei: "tl_electing_index terms = ?e"
    using assms(1) by (auto simp: term_list_ok_def start_term_def TERM_LIST_LEN_def)
  have en: "electing_term_number terms = Some (t - 5 + ?e)"
    using st ei assms(2) electing_at_range [of conf t k] by (auto simp: electing_term_number_def add64_def U64_MAX_def)
  have e7: "?e = 7 \<Longrightarrow> 5 \<le> t"
    by (simp add: electing_at_def split: if_splits)
  have off: "n - 5 = t - 5 + ?o" "?o + 6 \<le> ?e" "n - 5 + 6 - 1 = t - 5 + ?o + 5" "n - 5 + 6 \<le> U64_MAX"
    using assms(2,3) e7 electing_at_range [of conf t k] by (auto simp: U64_MAX_def split: if_splits)
  have eq: "committee_for_term n terms = Some (take 6 (drop ?o (tl_term_list terms)))"
    using off st en len electing_at_range [of conf t k]
    by (auto simp: committee_for_term_def TERM_LIST_LEN_def add64_def Let_def split: if_splits)
  moreover have "nl_ok conf C D (td_node_list d) \<and> is_elected (td_node_list d)"
    if d: "d \<in> set (take 6 (drop ?o (tl_term_list terms)))" for d
  proof -
    obtain i where i: "i < 6" "d = tl_term_list terms ! (?o + i)"
      using d len by (auto simp: in_set_conv_nth)
    then have "?o + i < ?e" "?o + i < 8"
      using off(2) electing_at_range [of conf t k] by auto
    then show ?thesis
      using assms(1) i(2) by (auto simp: term_list_ok_def)
  qed
  ultimately show ?thesis
    using len by (intro exI [of _ "take 6 (drop ?o (tl_term_list terms))"]) auto
qed

lemma new_term_ok:
  assumes "config_wf conf" and "term_list_ok conf C D t k terms"
    and "Suc k = round_per_term conf (term_start conf t)" and "term_start conf (t + 3) \<le> U64_MAX"
  shows "\<exists>terms'. tl_new_term conf (Suc t) seed terms = Some terms' \<and> term_list_ok conf C D (Suc t) 0 terms'"
proof -
  have half: "round_per_term conf (term_start conf t) div 2 \<le> k" "0 < round_per_term conf (term_start conf (Suc t)) div 2"
    using assms(3) round_per_term_pos(1) [OF assms(1), of "term_start conf t"]
      round_per_term_pos(1) [OF assms(1), of "term_start conf (Suc t)"] by auto
  have e: "electing_at conf (Suc t) 0 = 6" "electing_at conf t k = (if 5 \<le> t then 7 else 6)"
    using half by (auto simp: electing_at_def)
  note ok = assms(2)[unfolded term_list_ok_def e]
  show ?thesis
  proof (cases "5 \<le> t")
    case False
    then show ?thesis
      using ok by (auto simp: tl_new_term_def TERM_LIST_LEN_def term_list_ok_def e)
  next
    case True
    let ?l = "tl_term_list terms"
    have len: "length ?l = 8" and sv: "\<And>i. i < 8 \<Longrightarrow> td_start_view (?l ! i) = term_start conf (t - 5 + i)"
      using ok by auto
    have le: "term_start conf (Suc t) \<le> U64_MAX"
      using assms(4) strict_mono_less_eq [OF term_start_mono [OF assms(1)], of "Suc t" "t + 3"] by simp
    obtain x xs where l: "?l = x # xs" "length xs = 7"
      using len by (cases ?l) auto
    then have "xs \<noteq> []" by auto
    then have ne: "tl ?l \<noteq> []" "last (tl ?l) = ?l ! 7" "tl ?l = drop 1 ?l"
      using l by (simp_all add: last_conv_nth)
    let ?n = "\<lparr>td_start_view = term_start conf (t + 3), td_seed = seed, td_node_list = node_list_default\<rparr>"
    have v6: "td_start_view (?l ! 6) = term_start conf (Suc t)" and v7: "td_start_view (?l ! 7) = term_start conf (t + 2)"
      using sv [of 6] sv [of 7] True by (simp_all add: algebra_simps)
    have "next_term conf node_list_default seed (?l ! 7) = Some ?n"
      using assms(4) term_start_Suc [OF assms(1), of "t + 2"] by (simp add: next_term_def v7 add64_def numeral_3_eq_3)
    then have eq: "tl_new_term conf (Suc t) seed terms =
        Some (terms\<lparr>tl_current_term := Suc t, tl_term_list := drop 1 ?l @ [?n], tl_electing_index := 6\<rparr>)"
      using True len ne ok v6 starting_view_eq [OF assms(1) le]
      by (simp add: tl_new_term_def TERM_LIST_LEN_def index_at_def sub64_def)
    have nth: "(drop 1 ?l @ [?n]) ! i = (if i < 7 then ?l ! Suc i else ?n)" if "i < 8" for i
      using that len by (auto simp: nth_append)
    have s: "Suc t - 5 + i = t - 5 + Suc i" "Suc t - 5 + 7 = t + 3" for i
      using True by simp_all
    have "td_start_view ((drop 1 ?l @ [?n]) ! i) = term_start conf (Suc t - 5 + i) \<and>
        nl_ok conf C D (td_node_list ((drop 1 ?l @ [?n]) ! i)) \<and>
        (is_elected (td_node_list ((drop 1 ?l @ [?n]) ! i)) \<longleftrightarrow> i < 6)" if "i < 8" for i
    proof (cases "i < 7")
      case i: True
      then have "nl_ok conf C D (td_node_list (?l ! Suc i)) \<and> (is_elected (td_node_list (?l ! Suc i)) \<longleftrightarrow> i < 6)"
        using ok True by simp
      then show ?thesis
        unfolding nth [OF that] s(1) using i sv [of "Suc i"] by simp
    next
      case False
      then have "i = 7" using that by simp
      then show ?thesis unfolding nth [OF that] using s(2) by (simp add: add.commute)
    qed
    then have "term_list_ok conf C D (Suc t) 0 (terms\<lparr>tl_current_term := Suc t, tl_term_list := drop 1 ?l @ [?n], tl_electing_index := 6\<rparr>)"
      using len by (simp add: term_list_ok_def e)
    then show ?thesis using eq by blast
  qed
qed

text \<open>The term in election is open, so its candidates can be added and counted.\<close>

lemma electing_term_ok:
  assumes "term_list_ok conf C D t k terms"
  obtains d eh where "electing_term terms = Some d" and "td_node_list d = Electing eh"
    and "d = tl_term_list terms ! electing_at conf t k" and "nl_ok conf C D (Electing eh)"
proof -
  let ?i = "electing_at conf t k"
  have i: "?i < 8" using electing_at_range [of conf t k] by auto
  then have "electing_term terms = Some (tl_term_list terms ! ?i)" "\<not> is_elected (td_node_list (tl_term_list terms ! ?i))"
      "nl_ok conf C D (td_node_list (tl_term_list terms ! ?i))"
    using assms by (auto simp: term_list_ok_def electing_term_def index_at_def)
  then show ?thesis
    using that by (auto simp: is_elected_def split: node_list.splits)
qed

lemma finalize_elect_ok:
  assumes "nl_ok conf C D (Electing eh)" and "term_max_size conf \<le> U64_MAX" and "max 1 (term_elected_size conf) \<le> C"
  shows "\<exists>m candy. finalize_elect conf (Electing eh) = Some (Elected m, candy) \<and> nl_ok conf C D (Elected m) \<and>
    heap_finalize conf eh = Some (m, candy)"
proof -
  have h: "length (eh_heap eh) \<le> term_max_size conf" "cand_addr ` set (eh_heap eh) \<subseteq> D"
    using assms(1) by (auto simp: nl_ok_def)
  obtain m candy where f: "heap_finalize conf eh = Some (m, candy)"
    using heap_finalize_defined [of eh conf] h(1) assms(2) by fastforce
  note s = heap_finalize_spec [OF f]
  have "bt_sum m \<le> C"
    using s(2) assms(3) by (auto simp: top_count_def)
  moreover have "fst ` set m \<subseteq> D"
    using s(3) h(2) by (auto dest: in_set_takeD)
  ultimately show ?thesis
    using f s(1) by (simp add: finalize_elect_def nl_ok_def)
qed

lemma finalize_election_ok:
  assumes "term_list_ok conf C D t k terms" and "5 \<le> t" and "Suc k = round_per_term conf (term_start conf t) div 2"
    and "term_max_size conf \<le> U64_MAX" and "max 1 (term_elected_size conf) \<le> C"
  shows "\<exists>terms'. finalize_election conf terms = Some terms' \<and> term_list_ok conf C D t (Suc k) terms'"
proof -
  have e: "electing_at conf t k = 6" "electing_at conf t (Suc k) = 7"
    using assms(2,3) by (auto simp: electing_at_def)
  obtain d eh where d: "electing_term terms = Some d" "td_node_list d = Electing eh" "d = tl_term_list terms ! 6"
      "nl_ok conf C D (Electing eh)"
    using electing_term_ok [OF assms(1)] e(1) by metis
  obtain m candy where m: "finalize_elect conf (Electing eh) = Some (Elected m, candy)" "nl_ok conf C D (Elected m)"
    using finalize_elect_ok [OF d(4) assms(4,5)] by blast
  have i: "tl_electing_index terms = 6" "length (tl_term_list terms) = 8"
    using assms(1) e by (auto simp: term_list_ok_def)
  let ?l = "(tl_term_list terms)[6 := d\<lparr>td_node_list := Elected m\<rparr>]"
  have "finalize_election conf terms = Some (terms\<lparr>tl_term_list := ?l, tl_candy_rewards := candy, tl_electing_index := 7\<rparr>)"
    using d m i by (simp add: finalize_election_def)
  moreover have "td_start_view (?l ! j) = term_start conf (t - 5 + j) \<and> nl_ok conf C D (td_node_list (?l ! j)) \<and>
      (is_elected (td_node_list (?l ! j)) \<longleftrightarrow> j < 7)" if "j < 8" for j
    using that assms(1) e i m(2) d(3) by (cases "j = 6") (auto simp: term_list_ok_def is_elected_def)
  then have "term_list_ok conf C D t (Suc k) (terms\<lparr>tl_term_list := ?l, tl_candy_rewards := candy, tl_electing_index := 7\<rparr>)"
    using assms(1) e i by (simp add: term_list_ok_def)
  ultimately show ?thesis by blast
qed

text \<open>Adding the candidates of an election event.\<close>

definition event_candidates :: "(hash \<Rightarrow> nat \<Rightarrow> hash) \<Rightarrow> election_event \<Rightarrow> nat \<Rightarrow> candidate list" where
  "event_candidates vrf_number event voting_power =
     map (\<lambda>nonce. (vrf_number (ee_vrf_output event) nonce, \<lparr>ei_node_id = ee_node_id event, ei_nonce = nonce\<rparr>)) [0..<voting_power]"

lemma add_nonces_eq:
  "add_nonces vrf_number conf event n (Electing eh) =
     Some (Electing (fold (\<lambda>c. heap_add_node conf (fst c) (snd c)) (event_candidates vrf_number event n) eh))"
  by (induction n) (simp_all add: add_nonces_def event_candidates_def nl_add_node_def)

lemma fold_heap_add:
  "eh_heap (fold (\<lambda>c. heap_add_node conf (fst c) (snd c)) cs eh) = fold (cq.offer (term_max_size conf)) cs (eh_heap eh)"
  "set (eh_addresses (fold (\<lambda>c. heap_add_node conf (fst c) (snd c)) cs eh)) = cand_addr ` set cs \<union> set (eh_addresses eh)"
  by (induction cs arbitrary: eh) (auto simp: heap_add_node_offer cand_addr_def)

lemma add_nonces_ok:
  assumes "nl_ok conf C D (Electing eh)" and "ni_addr (ee_node_id event) \<in> D"
  shows "\<exists>eh'. add_nonces vrf_number conf event n (Electing eh) = Some (Electing eh') \<and> nl_ok conf C D (Electing eh')"
proof -
  let ?cs = "event_candidates vrf_number event n"
  have h: "heap_ok (eh_heap eh)" "length (eh_heap eh) \<le> term_max_size conf" "cand_addr ` set (eh_heap eh) \<subseteq> D"
    using assms(1) by (auto simp: nl_ok_def)
  have "cq.keeps (term_max_size conf) (mset (eh_heap eh)) (eh_heap eh)"
    using h by (simp add: cq.keeps_def)
  then have k: "cq.keeps (term_max_size conf) (mset ?cs + mset (eh_heap eh)) (fold (cq.offer (term_max_size conf)) ?cs (eh_heap eh))"
    by (rule cq.offers_keep)
  then have "set (fold (cq.offer (term_max_size conf)) ?cs (eh_heap eh)) \<subseteq> set ?cs \<union> set (eh_heap eh)"
    unfolding cq.keeps_def by (metis set_mset_mono set_mset_mset set_mset_union)
  moreover have "cand_addr ` set ?cs \<subseteq> D"
    using assms(2) by (auto simp: event_candidates_def cand_addr_def)
  ultimately have "cand_addr ` set (fold (cq.offer (term_max_size conf)) ?cs (eh_heap eh)) \<subseteq> D"
    using h(3) by blast
  moreover have "length (fold (cq.offer (term_max_size conf)) ?cs (eh_heap eh)) \<le> term_max_size conf"
      "heap_ok (fold (cq.offer (term_max_size conf)) ?cs (eh_heap eh))"
    using k unfolding cq.keeps_def size_mset by linarith+
  ultimately show ?thesis
    by (simp add: add_nonces_eq nl_ok_def fold_heap_add)
qed

lemma tl_new_node_elected_ok:
  assumes "term_list_ok conf C D t k terms" and "t \<le> U64_MAX - 10" and "ni_addr (ee_node_id event) \<in> D"
  shows "\<exists>terms' r. tl_new_node_elected vrf_number conf event n terms = Some (terms', r) \<and>
    term_list_ok conf C D t k terms' \<and> (r = Inr () \<longleftrightarrow> ee_start_term event = t - 5 + electing_at conf t k)"
proof -
  let ?i = "electing_at conf t k"
  have i: "?i < 8" "tl_electing_index terms = ?i" "length (tl_term_list terms) = 8" "tl_current_term terms = t"
    using assms(1) electing_at_range [of conf t k] by (auto simp: term_list_ok_def)
  have en: "electing_term_number terms = Some (t - 5 + ?i)"
    using i assms(2) by (simp add: electing_term_number_def start_term_def TERM_LIST_LEN_def add64_def U64_MAX_def)
  obtain d eh where d: "electing_term terms = Some d" "td_node_list d = Electing eh" "d = tl_term_list terms ! ?i"
      "nl_ok conf C D (Electing eh)"
    using electing_term_ok [OF assms(1)] by metis
  obtain eh' where eh': "add_nonces vrf_number conf event n (Electing eh) = Some (Electing eh')" "nl_ok conf C D (Electing eh')"
    using add_nonces_ok [OF d(4) assms(3)] by blast
  let ?l = "(tl_term_list terms)[?i := d\<lparr>td_node_list := Electing eh'\<rparr>]"
  have "td_start_view (?l ! j) = term_start conf (t - 5 + j) \<and> nl_ok conf C D (td_node_list (?l ! j)) \<and>
      (is_elected (td_node_list (?l ! j)) \<longleftrightarrow> j < ?i)" if "j < 8" for j
    using that assms(1) i eh'(2) d(3) by (cases "j = ?i") (auto simp: term_list_ok_def is_elected_def)
  then have "term_list_ok conf C D t k (terms\<lparr>tl_term_list := ?l\<rparr>)"
    using assms(1) i by (simp add: term_list_ok_def)
  then show ?thesis
    using assms(1) d eh'(1) en i by (auto simp: tl_new_node_elected_def has_elected_def)
qed

end
