(* ===== verification/Pos_Committee.thy ===== *)
theory Pos_Committee
  imports Term_Invariant
begin

text \<open>
  The committee of a term: every member votes with the sum of its votes in the six elections that serve in
  the term, cut down to the votes it still has available.
\<close>

section \<open>Sums of elections\<close>

definition term_votes :: "address \<Rightarrow> term_data \<Rightarrow> nat" where
  "term_votes a t = (case td_node_list t of Elected m \<Rightarrow> votes_of m a | Electing _ \<Rightarrow> 0)"

lemma votes_of_Nil [simp]: "votes_of [] a = 0"
  by (simp add: votes_of_def)

lemma votes_of_Cons: "bt_ok ((k, v) # m) \<Longrightarrow> votes_of ((k, v) # m) a = (if a = k then v else 0) + votes_of m a"
proof -
  assume "bt_ok ((k, v) # m)"
  then have "map_of m k = None"
    by (force simp: bt_ok_Cons map_of_eq_None_iff)
  then show ?thesis by (simp add: votes_of_def)
qed

lemma add_votes_spec:
  "bt_ok m \<Longrightarrow> bt_ok p \<Longrightarrow> add_votes m p = Some p' \<Longrightarrow>
     bt_ok p' \<and> bt_sum p' = bt_sum p + bt_sum m \<and> fst ` set p' = fst ` set p \<union> fst ` set m \<and>
     (\<forall>a. votes_of p' a = votes_of p a + votes_of m a)"
proof (induction m arbitrary: p)
  case (Cons e m)
  obtain k v where e: "e = (k, v)" by (cases e)
  then obtain p1 where p1: "bt_entry_add k v p = Some p1" "add_votes m p1 = Some p'"
    using Cons.prems(3) by (auto simp: option_bind_simps)
  note a = entry_add_votes [OF Cons.prems(2) p1(1)]
  have "bt_ok m" using Cons.prems(1) by (simp add: bt_ok_Cons)
  then show ?case
    using Cons.IH [OF _ a(3) p1(2)] a Cons.prems(1) by (auto simp: e votes_of_Cons)
qed simp

lemma add_votes_defined: "bt_ok p \<Longrightarrow> bt_sum p + bt_sum m \<le> U64_MAX \<Longrightarrow> \<exists>p'. add_votes m p = Some p'"
proof (induction m arbitrary: p)
  case (Cons e m)
  obtain k v where e: "e = (k, v)" by (cases e)
  obtain p1 where p1: "bt_entry_add k v p = Some p1"
    using bt_entry_add_ok [of p v k] Cons.prems(2) by (auto simp: e)
  show ?case
    using Cons.IH [of p1] entry_add_votes [OF Cons.prems(1) p1] Cons.prems(2) p1 by (simp add: e)
qed simp

lemma add_terms_spec:
  assumes "\<forall>t\<in>set ts. nl_ok conf C D (td_node_list t) \<and> is_elected (td_node_list t)" and "bt_ok p"
    and "bt_sum p + length ts * C \<le> U64_MAX"
  shows "\<exists>p'. add_terms ts p = Some p' \<and> bt_ok p' \<and> bt_sum p' \<le> bt_sum p + length ts * C \<and>
    fst ` set p' \<subseteq> fst ` set p \<union> D \<and> (\<forall>a. votes_of p' a = votes_of p a + sum_list (map (term_votes a) ts))"
  using assms
proof (induction ts arbitrary: p)
  case (Cons t ts)
  obtain m where m: "td_node_list t = Elected m" "bt_ok m" "bt_sum m \<le> C" "fst ` set m \<subseteq> D"
    using Cons.prems(1) by (auto simp: nl_ok_def is_elected_def split: node_list.splits)
  obtain p1 where p1: "add_votes m p = Some p1"
    using add_votes_defined [OF Cons.prems(2), of m] m(3) Cons.prems(3) by auto
  note a = add_votes_spec [OF m(2) Cons.prems(2) p1]
  obtain p' where p': "add_terms ts p1 = Some p'" "bt_ok p'" "bt_sum p' \<le> bt_sum p1 + length ts * C"
      "fst ` set p' \<subseteq> fst ` set p1 \<union> D" "\<forall>a. votes_of p' a = votes_of p1 a + sum_list (map (term_votes a) ts)"
    using Cons.IH [of p1] Cons.prems a m(3) by auto
  have ak: "fst ` set p1 = fst ` set p \<union> fst ` set m"
    using a by simp
  have tv: "term_votes x t = votes_of m x" for x
    using m(1) by (simp add: term_votes_def)
  show ?case
  proof (intro exI conjI)
    show "add_terms (t # ts) p = Some p'" using p1 m(1) p'(1) by (simp add: nl_committee_def)
    show "bt_ok p'" using p'(2) .
    show "bt_sum p' \<le> bt_sum p + length (t # ts) * C" using p'(3) a m(3) by simp
    show "fst ` set p' \<subseteq> fst ` set p \<union> D" using p'(4) ak m(4) by blast
    show "\<forall>x. votes_of p' x = votes_of p x + sum_list (map (term_votes x) (t # ts))" using p'(5) a tv by simp
  qed
qed simp

section \<open>Voting powers\<close>

text \<open>The record of a member and the voting power it gets.\<close>

definition member_power :: "(address \<rightharpoonup> node_data) \<Rightarrow> elected_map \<Rightarrow> address \<Rightarrow> nat" where
  "member_power node_map m a =
     min (votes_of m a) (case node_map a of None \<Rightarrow> 0 | Some n \<Rightarrow> available_votes (nd_lock_status n))"

definition info_powers :: "(address, validator_consensus_info) btree \<Rightarrow> elected_map" where
  "info_powers infos = map (apsnd vi_voting_power) infos"

lemma info_powers_insert: "info_powers (bt_insert k i infos) = bt_insert k (vi_voting_power i) (info_powers infos)"
  by (induction infos) (auto simp: info_powers_def)

lemma bt_ok_info_powers [simp]: "bt_ok (info_powers infos) \<longleftrightarrow> bt_ok infos"
  by (simp add: bt_ok_def info_powers_def)

lemma fst_info_powers [simp]: "fst ` set (info_powers infos) = fst ` set infos"
  by (force simp: info_powers_def)

lemma validator_infos_spec:
  assumes "fst ` set m \<subseteq> dom node_map" and "bt_ok m" and "bt_ok infos" and "fst ` set infos \<inter> fst ` set m = {}"
  shows "\<exists>infos'. validator_infos node_map m infos = Some infos' \<and> bt_ok infos' \<and>
    bt_sum (info_powers infos') \<le> bt_sum (info_powers infos) + bt_sum m \<and>
    (\<forall>a. votes_of (info_powers infos') a = votes_of (info_powers infos) a + member_power node_map m a) \<and>
    fst ` set infos' \<subseteq> fst ` set infos \<union> fst ` set m"
  using assms
proof (induction m arbitrary: infos)
  case Nil
  then show ?case by (simp add: member_power_def)
next
  case (Cons e m)
  obtain k v where e: "e = (k, v)" by (cases e)
  obtain n where n: "node_map k = Some n"
    using Cons.prems(1) by (auto simp: e)
  let ?p = "min v (available_votes (nd_lock_status n))"
  let ?i = "\<lparr>vi_public_key = nd_public_key n, vi_vrf_public_key = nd_vrf_public_key n, vi_voting_power = ?p\<rparr>"
  define infos1 where "infos1 = (if 0 < ?p then bt_insert k ?i infos else infos)"
  have k: "k \<notin> fst ` set m" "k \<notin> fst ` set infos" "bt_ok m"
    using Cons.prems(2,4) by (auto simp: e bt_ok_Cons)
  have keys: "fst ` set infos1 \<subseteq> insert k (fst ` set infos)"
    by (auto simp: bt_simps infos1_def)
  have s: "bt_sum (info_powers infos1) = bt_sum (info_powers infos) + ?p" and ok: "bt_ok infos1"
      and vs: "votes_of (info_powers infos1) a = votes_of (info_powers infos) a + (if a = k then ?p else 0)" for a
  proof -
    have none: "map_of (info_powers infos) k = None"
      using k(2) by (metis fst_info_powers map_of_eq_None_iff)
    then show "bt_sum (info_powers infos1) = bt_sum (info_powers infos) + ?p"
      using bt_sum_insert [of "info_powers infos" k ?p] Cons.prems(3) by (auto simp: info_powers_insert infos1_def)
    show "votes_of (info_powers infos1) a = votes_of (info_powers infos) a + (if a = k then ?p else 0)"
      using none by (auto simp: info_powers_insert votes_of_def bt_simps infos1_def)
    show "bt_ok infos1" using Cons.prems(3) by (simp add: bt_simps infos1_def)
  qed
  have dis: "fst ` set infos1 \<inter> fst ` set m = {}"
  proof -
    have "fst ` set infos \<inter> fst ` set m = {}"
      using Cons.prems(4) by (simp add: e)
    then show ?thesis using keys k(1) by blast
  qed
  obtain infos' where i: "validator_infos node_map m infos1 = Some infos'" "bt_ok infos'"
      "bt_sum (info_powers infos') \<le> bt_sum (info_powers infos1) + bt_sum m"
      "\<forall>a. votes_of (info_powers infos') a = votes_of (info_powers infos1) a + member_power node_map m a"
      "fst ` set infos' \<subseteq> fst ` set infos1 \<union> fst ` set m"
    using Cons.IH [OF _ k(3) ok dis] Cons.prems(1) by (auto simp: e)
  have "map_of m k = None"
    using k(1) by (simp add: map_of_eq_None_iff)
  then have "member_power node_map (e # m) a = (if a = k then ?p else 0) + member_power node_map m a" for a
    using n by (auto simp: member_power_def e votes_of_def split: option.split)
  then have "\<forall>a. votes_of (info_powers infos') a = votes_of (info_powers infos) a + member_power node_map (e # m) a"
    using i(4) vs by simp
  moreover have "validator_infos node_map (e # m) infos = Some infos'"
    using i(1) n by (simp add: e Let_def infos1_def)
  moreover have "fst ` set infos' \<subseteq> fst ` set infos \<union> fst ` set (e # m)"
  proof -
    have sub: "X \<subseteq> Y \<union> M \<Longrightarrow> Y \<subseteq> insert k A \<Longrightarrow> X \<subseteq> A \<union> insert k M" for X Y M A :: "address set"
      by blast
    have "fst ` set (e # m) = insert k (fst ` set m)" by (simp add: e)
    then show ?thesis using sub [OF i(5) keys] by (simp only:)
  qed
  moreover have "bt_sum (info_powers infos') \<le> bt_sum (info_powers infos) + bt_sum (e # m)"
    using i(3) s by (simp add: e)
  ultimately show ?case
    using i(2) by (intro exI [of _ infos'] conjI)
qed

lemma validator_verifier_new_powers:
  assumes "bt_ok infos" and "2 * bt_sum (info_powers infos) \<le> U64_MAX"
  shows "\<exists>vv. validator_verifier_new infos = Some vv \<and> verifier_ok vv \<and>
    vv_total_voting_power vv = bt_sum (info_powers infos) \<and> (\<forall>a. power_of vv a = votes_of (info_powers infos) a)"
proof -
  have sum: "sum_list (map (vi_voting_power \<circ> snd) infos) = bt_sum (info_powers infos)"
    by (simp add: bt_sum_def info_powers_def comp_def)
  then have "sum_voting_power infos = Some (bt_sum (info_powers infos))"
    using assms(2) by (simp add: sum_voting_power_def sum_voting_power_from_eq)
  moreover have "\<exists>d. mul64 (bt_sum (info_powers infos)) 2 = Some d \<and> add64 (d div 3) 1 \<noteq> None"
    using assms(2) by (auto simp: mul64_def add64_def U64_MAX_def mult.commute)
  ultimately obtain vv where vv: "validator_verifier_new infos = Some vv"
    by (cases "infos = []") (auto simp: validator_verifier_new_def)
  have ok: "verifier_ok vv" "vv_address_to_validator_info vv = infos"
    using validator_verifier_new_ok [OF vv assms(1)] .
  then have "power_of vv a = votes_of (info_powers infos) a" for a
    by (simp add: power_of_def get_voting_power_def votes_of_def info_powers_def map_of_map apsnd_def map_prod_def
        case_prod_beta option.case_eq_if option.map_sel)
  then show ?thesis
    using vv ok sum by (auto simp: verifier_ok_def)
qed

section \<open>The committee of a term\<close>

definition served_votes :: "term_data list \<Rightarrow> address \<Rightarrow> nat" where
  "served_votes ts a = sum_list (map (term_votes a) ts)"

lemma get_committee_spec:
  assumes "committee_for_term n (pst_term_list S) = Some ts" and "length ts = 6" and "tl_term_list (pst_term_list S) \<noteq> []"
    and "\<forall>d\<in>set ts. nl_ok conf C (dom (pst_node_map S)) (td_node_list d) \<and> is_elected (td_node_list d)"
    and "12 * C \<le> U64_MAX"
  shows "\<exists>vv. get_committee_at n S = Some (vv, td_seed (hd (tl_term_list (pst_term_list S)))) \<and> verifier_ok vv \<and>
    vv_total_voting_power vv \<le> 6 * C \<and>
    (\<forall>a. power_of vv a = min (served_votes ts a)
       (case pst_node_map S a of None \<Rightarrow> 0 | Some node \<Rightarrow> available_votes (nd_lock_status node)))"
proof -
  obtain p where p: "add_terms ts [] = Some p" "bt_ok p" "bt_sum p \<le> 6 * C" "fst ` set p \<subseteq> dom (pst_node_map S)"
      "\<forall>a. votes_of p a = served_votes ts a"
    using add_terms_spec [OF assms(4), of "[]"] assms(2,5) by (auto simp: served_votes_def)
  obtain infos where i: "validator_infos (pst_node_map S) p [] = Some infos" "bt_ok infos"
      "bt_sum (info_powers infos) \<le> bt_sum p" "\<forall>a. votes_of (info_powers infos) a = member_power (pst_node_map S) p a"
    using validator_infos_spec [OF p(4,2), of "[]"] by (auto simp: info_powers_def)
  obtain vv where vv: "validator_verifier_new infos = Some vv" "verifier_ok vv"
      "vv_total_voting_power vv = bt_sum (info_powers infos)" "\<forall>a. power_of vv a = votes_of (info_powers infos) a"
    using validator_verifier_new_powers [OF i(2)] i(3) p(3) assms(5) by auto
  have "get_committee_at n S = Some (vv, td_seed (hd (tl_term_list (pst_term_list S))))"
    using assms(1,3) p(1) i(1) vv(1) by (simp add: get_committee_at_def index_at_def hd_conv_nth)
  then show ?thesis
    using vv i p by (auto simp: member_power_def)
qed

end
