(* ===== verification/Pos_Invariant.thy ===== *)
theory Pos_Invariant
  imports Pos_Committee
begin

text \<open>
  The invariant of the proof-of-stake state and its preservation by every event and by the next view.
  Two things are at stake: the assertions inside the term list never fail, and the schedule
  \<open>node_map_hint\<close> is complete, so that updating only the scheduled nodes of a view has the effect of
  updating all of them.
\<close>

section \<open>Schedules of lock operations\<close>

definition lock_views :: "node_lock_status \<Rightarrow> view set" where
  "lock_views s = sl_views (ls_in_queue s) \<union> sl_views (ls_out_queue s)"

text \<open>What a lock status promises about its votes, apart from the order inside its queues.\<close>

definition lock_abs :: "node_lock_status \<Rightarrow> status_item multiset \<times> nat \<times> status_item multiset \<times> nat \<times> nat \<times> nat option" where
  "lock_abs s = (sl_items (ls_in_queue s), ls_locked s, sl_items (ls_out_queue s), ls_unlocked s,
     ls_available_votes s, ls_exempt_from_forfeit s)"

definition locks_positive :: "pos_state_config \<Rightarrow> bool" where
  "locks_positive conf \<longleftrightarrow>
     0 < c_in_queue_locked_views conf \<and> 0 < c_out_queue_locked_views conf \<and>
     0 < c_cip99_in_queue_locked_views conf \<and> 0 < c_cip99_out_queue_locked_views conf \<and>
     0 < c_cip136_in_queue_locked_views conf \<and> 0 < c_cip136_out_queue_locked_views conf \<and>
     0 < c_cip156_dispute_locked_views conf"

lemma locks_positiveD:
  assumes "locks_positive conf"
  shows "0 < in_queue_locked_views conf v" and "0 < out_queue_locked_views conf v"
    and "dispute_locked_views conf v = Some d \<Longrightarrow> 0 < d"
  using assms by (auto simp: locks_positive_def in_queue_locked_views_def out_queue_locked_views_def
      dispute_locked_views_def split: if_splits)

text \<open>An operation at view \<open>v\<close> reports every later view at which it leaves votes to be moved.\<close>

definition reports :: "view \<Rightarrow> node_lock_status \<Rightarrow> node_lock_status \<Rightarrow> view list \<Rightarrow> bool" where
  "reports v s s' uv \<longleftrightarrow> lock_views s' \<subseteq> lock_views s \<union> (set uv \<inter> {v<..})"

lemma new_lock_reports:
  assumes "new_lock conf v n False s [] = Some (s', uv)" and "lock_ok s" and "locks_positive conf"
  shows "reports v s s' uv"
proof -
  note ns = new_lock_spec [OF assms(1,2)] and pos = locks_positiveD(1,2) [OF assms(3), of v]
  have "lock_views s' \<subseteq> lock_views s \<union> set uv"
    using ns(7) by (auto simp: lock_views_def)
  moreover have "lock_views s' \<subseteq> lock_views s \<union> {v<..}"
    using ns(4,5) pos by (fastforce simp: lock_views_def)
  ultimately show ?thesis by (auto simp: reports_def)
qed

lemma retired_reports:
  assumes "retired L v t s uv0 s' uv" and "lock_views s \<subseteq> {v<..}" and "0 < L"
  shows "reports v s s' uv"
proof -
  obtain ds where ds: "uv = uv0 @ ds" "sl_views (ls_out_queue s') = sl_views (ls_out_queue s) \<union> set ds"
      "\<forall>d\<in>set ds. \<exists>x\<in>insert v (sl_views (ls_in_queue s)). d = x + L"
    and inq: "sl_views (ls_in_queue s') \<subseteq> sl_views (ls_in_queue s)"
    using assms(1) by (auto simp: retired_def)
  have "v < d" if d: "d \<in> set ds" for d
  proof -
    obtain x where "x \<in> insert v (sl_views (ls_in_queue s))" "d = x + L"
      using bspec [OF ds(3) d] by (rule bexE)
    then show ?thesis using assms(2,3) by (auto simp: lock_views_def)
  qed
  then show ?thesis
    using ds inq by (auto simp: reports_def lock_views_def)
qed

lemma new_unlock_reports:
  assumes "new_unlock conf v n s uv0 = Some (s', uv)" and "lock_ok s" and "locks_positive conf" and "lock_views s \<subseteq> {v<..}"
  shows "reports v s s' uv"
  using retired_reports [OF new_unlock_spec [OF assms(1,2)] assms(4)] locks_positiveD(2) [OF assms(3), of v] by simp

lemma force_retire_reports:
  assumes "force_retire conf v s [] = Some (s', uv)" and "lock_ok s" and "locks_positive conf" and "lock_views s \<subseteq> {v<..}"
  shows "reports v s s' uv"
  using assms(1)
proof (cases rule: force_retire_cases)
  case 1
  then show ?thesis by (simp add: reports_def)
next
  case 2
  let ?s = "s\<lparr>ls_force_retired := Some v\<rparr>"
  have "lock_ok ?s" "lock_views ?s = lock_views s"
    using assms(2) by (auto simp: lock_ok_def lock_views_def split: option.splits)
  then show ?thesis
    using new_unlock_reports [OF 2(3)] assms(3,4) by (simp add: reports_def)
qed

lemma forfeit_reports:
  assumes "forfeit conf v s [] = Some (s', uv)" and "lock_ok s" and "locks_positive conf" and "v < U64_MAX"
  shows "reports v s s' uv"
  using assms(1)
proof (cases rule: forfeit_cases)
  case (3 d q m)
  have "v < saturating_add64 v d"
    using locks_positiveD(3) [OF assms(3) 3(3)] assms(4) by (simp add: saturating_add64_def)
  moreover have "sl_views q \<subseteq> sl_views (ls_out_queue s)"
    using forfeit_drain_votes [OF 3(1)] assms(2) by (simp add: lock_ok_def)
  ultimately show ?thesis
    using 3(5,6) by (auto simp: reports_def lock_views_def)
qed (auto simp: reports_def lock_views_def)

section \<open>The invariant\<close>

text \<open>
  The bounds of a run: no election has more than \<open>C\<close> votes, no view exceeds \<open>V\<close>, and the arithmetic on
  views around \<open>V\<close> stays within 64 bits.
\<close>

definition pos_config_ok :: "pos_state_config \<Rightarrow> nat \<Rightarrow> view \<Rightarrow> bool" where
  "pos_config_ok conf C V \<longleftrightarrow> config_wf conf \<and> locks_positive conf \<and> term_max_size conf \<le> U64_MAX \<and>
     max 1 (term_elected_size conf) \<le> C \<and> 12 * C \<le> U64_MAX \<and> V + 2 * max_locked_views conf \<le> U64_MAX \<and>
     V + 8 * (c_round_per_term conf + c_cip136_round_per_term conf) + 16 \<le> U64_MAX"

definition hinted :: "pos_state \<Rightarrow> view \<Rightarrow> address set" where
  "hinted S w = (case pst_node_map_hint S w of None \<Rightarrow> {} | Some xs \<Rightarrow> set xs)"

definition node_ok :: "pos_state_config \<Rightarrow> view \<Rightarrow> nat \<Rightarrow> view \<Rightarrow> (view \<Rightarrow> bool) \<Rightarrow> node_lock_status \<Rightarrow> bool" where
  "node_ok conf V B v scheduled s \<longleftrightarrow> lock_bounded conf V s \<and> total_votes s \<le> B \<and>
     (\<forall>w\<in>lock_views s. v < w \<and> scheduled w)"

text \<open>\<open>B\<close> bounds the votes of a node: all votes ever staked.\<close>

definition pos_ok :: "pos_state_config \<Rightarrow> nat \<Rightarrow> view \<Rightarrow> nat \<Rightarrow> pos_state \<Rightarrow> bool" where
  "pos_ok conf C V B S \<longleftrightarrow> pst_current_view S \<le> V \<and>
     (\<exists>t k. at_view conf (pst_current_view S) t k \<and> term_list_ok conf C (dom (pst_node_map S)) t k (pst_term_list S)) \<and>
     (\<forall>a n. pst_node_map S a = Some n \<longrightarrow>
        node_ok conf V B (pst_current_view S) (\<lambda>w. a \<in> hinted S w) (nd_lock_status n) \<and> nd_vrf_public_key n \<noteq> None) \<and>
     (\<forall>w xs. pst_node_map_hint S w = Some xs \<longrightarrow> distinct xs \<and> set xs \<subseteq> dom (pst_node_map S))"

lemma node_ok_mono:
  "node_ok conf V B v P s \<Longrightarrow> B \<le> B' \<Longrightarrow> (\<And>w. P w \<Longrightarrow> P' w) \<Longrightarrow> node_ok conf V B' v P' s"
  by (auto simp: node_ok_def)

lemma pos_ok_term:
  assumes "pos_ok conf C V B S" and "pos_config_ok conf C V"
  obtains t k where "at_view conf (pst_current_view S) t k"
    and "term_list_ok conf C (dom (pst_node_map S)) t k (pst_term_list S)"
    and "t \<le> U64_MAX - 10" and "term_start conf (t + 3) \<le> U64_MAX" and "6 * c_round_per_term conf \<le> U64_MAX"
    and "pst_current_view S < U64_MAX"
proof -
  obtain t k where t: "at_view conf (pst_current_view S) t k"
    "term_list_ok conf C (dom (pst_node_map S)) t k (pst_term_list S)"
    using assms(1) by (auto simp: pos_ok_def)
  have wf: "config_wf conf" and v: "pst_current_view S \<le> V"
    and b: "V + 8 * (c_round_per_term conf + c_cip136_round_per_term conf) + 16 \<le> U64_MAX"
    using assms by (auto simp: pos_ok_def pos_config_ok_def)
  have R: "round_per_term conf w \<le> c_round_per_term conf + c_cip136_round_per_term conf" for w
    by (simp add: round_per_term_def)
  have "i \<le> term_start conf i" for i
    using strict_mono_imp_increasing [OF term_start_mono [OF wf]] .
  then have "t \<le> term_start conf t" .
  moreover have "term_start conf t \<le> pst_current_view S"
    using t(1) by (simp add: at_view_def)
  moreover have "term_start conf (t + 3) \<le> pst_current_view S + 3 * (c_round_per_term conf + c_cip136_round_per_term conf)"
    using t(1) R [of "term_start conf t"] R [of "term_start conf (Suc t)"] R [of "term_start conf (Suc (Suc t))"]
    by (simp add: at_view_def numeral_3_eq_3 term_start_Suc [OF wf])
  ultimately show ?thesis
    using that [OF t] v b by simp
qed

section \<open>Operations on the stake of a node\<close>

lemma add_hint_simps [simp]:
  "hinted (add_hint a x S) w = hinted S w \<union> (if w = x then {a} else {})"
  "pst_node_map (add_hint a x S) = pst_node_map S" "pst_current_view (add_hint a x S) = pst_current_view S"
  "pst_term_list (add_hint a x S) = pst_term_list S" "pst_epoch_state (add_hint a x S) = pst_epoch_state S"
  by (cases "pst_node_map_hint S x"; simp add: hinted_def add_hint_def)+

lemma hinted_record:
  "hinted (record_update_views a views S) w = hinted S w \<union> (if w \<in> set views then {a} else {})"
  "pst_node_map (record_update_views a views S) = pst_node_map S"
  "pst_current_view (record_update_views a views S) = pst_current_view S"
  "pst_term_list (record_update_views a views S) = pst_term_list S"
  "pst_epoch_state (record_update_views a views S) = pst_epoch_state S"
proof -
  have "hinted (fold (add_hint a) views S) w = hinted S w \<union> (if w \<in> set views then {a} else {}) \<and>
      pst_node_map (fold (add_hint a) views S) = pst_node_map S \<and>
      pst_current_view (fold (add_hint a) views S) = pst_current_view S \<and>
      pst_term_list (fold (add_hint a) views S) = pst_term_list S \<and>
      pst_epoch_state (fold (add_hint a) views S) = pst_epoch_state S"
    by (induction views arbitrary: S) auto
  then show "hinted (record_update_views a views S) w = hinted S w \<union> (if w \<in> set views then {a} else {})"
    "pst_node_map (record_update_views a views S) = pst_node_map S"
    "pst_current_view (record_update_views a views S) = pst_current_view S"
    "pst_term_list (record_update_views a views S) = pst_term_list S"
    "pst_epoch_state (record_update_views a views S) = pst_epoch_state S"
    by (simp_all add: record_update_views_def)
qed

lemma hint_lists_record:
  assumes "\<forall>w xs. pst_node_map_hint S w = Some xs \<longrightarrow> distinct xs \<and> set xs \<subseteq> D" and "a \<in> D"
  shows "\<forall>w xs. pst_node_map_hint (record_update_views a views S) w = Some xs \<longrightarrow> distinct xs \<and> set xs \<subseteq> D"
  using assms(1)
proof (induction views arbitrary: S)
  case (Cons x views)
  have "\<forall>w xs. pst_node_map_hint (add_hint a x S) w = Some xs \<longrightarrow> distinct xs \<and> set xs \<subseteq> D"
    using Cons.prems assms(2) by (auto simp: add_hint_def split: option.splits)
  from Cons.IH [OF this] show ?case
    by (simp add: record_update_views_def)
qed (simp add: record_update_views_def)

lemma on_lock_status_ok:
  assumes "pos_ok conf C V B S" and "B \<le> B'"
    and f: "\<And>s. lock_bounded conf V s \<Longrightarrow> total_votes s \<le> B \<Longrightarrow> lock_views s \<subseteq> {pst_current_view S<..} \<Longrightarrow>
      \<exists>s' uv. f s [] = Some (s', uv) \<and> lock_bounded conf V s' \<and> total_votes s' \<le> B' \<and> reports (pst_current_view S) s s' uv"
  shows "\<exists>S' r. on_lock_status f msg a S = Some (S', r) \<and> pos_ok conf C V B' S' \<and>
    (r = Inr () \<longleftrightarrow> a \<in> dom (pst_node_map S)) \<and> pst_current_view S' = pst_current_view S \<and> pst_epoch_state S' = pst_epoch_state S"
proof (cases "pst_node_map S a")
  case None
  then have "on_lock_status f msg a S = Some (S, Inl msg)"
    by (simp add: on_lock_status_def)
  moreover have "pos_ok conf C V B' S"
    using assms(1,2) by (auto simp: pos_ok_def intro: node_ok_mono)
  ultimately show ?thesis using None by auto
next
  case (Some n)
  have n: "node_ok conf V B (pst_current_view S) (\<lambda>w. a \<in> hinted S w) (nd_lock_status n)"
    "nd_vrf_public_key n \<noteq> None"
    using assms(1) Some by (auto simp: pos_ok_def)
  then obtain s' uv where s': "f (nd_lock_status n) [] = Some (s', uv)" "lock_bounded conf V s'" "total_votes s' \<le> B'"
      "reports (pst_current_view S) (nd_lock_status n) s' uv"
    using f [of "nd_lock_status n"] by (auto simp: node_ok_def)
  let ?S = "S\<lparr>pst_node_map := (pst_node_map S)(a \<mapsto> n\<lparr>nd_lock_status := s'\<rparr>)\<rparr>"
  let ?S' = "record_update_views a uv ?S"
  have D: "dom (pst_node_map ?S) = dom (pst_node_map S)" "a \<in> dom (pst_node_map S)"
    using Some by auto
  have h: "hinted ?S' w = hinted S w \<union> (if w \<in> set uv then {a} else {})" for w
    unfolding hinted_record by (simp add: hinted_def)
  have "node_ok conf V B' (pst_current_view S) (\<lambda>w. b \<in> hinted ?S' w) (nd_lock_status m)"
    if "pst_node_map ?S b = Some m" for b m
  proof (cases "b = a")
    case True
    then show ?thesis
      using that s' n by (auto simp: node_ok_def h reports_def)
  next
    case False
    then have "node_ok conf V B (pst_current_view S) (\<lambda>w. b \<in> hinted S w) (nd_lock_status m)"
      using that assms(1) by (simp add: pos_ok_def)
    then show ?thesis
      by (rule node_ok_mono) (use assms(2) h in auto)
  qed
  moreover have "\<forall>w xs. pst_node_map_hint ?S' w = Some xs \<longrightarrow> distinct xs \<and> set xs \<subseteq> dom (pst_node_map S)"
    by (rule hint_lists_record) (use assms(1) D in \<open>auto simp: pos_ok_def\<close>)
  ultimately have "pos_ok conf C V B' ?S'"
    using assms(1) D n(2) by (simp add: pos_ok_def hinted_record)
  then show ?thesis
    using s'(1) Some by (auto simp: on_lock_status_def hinted_record)
qed

lemma lock_op_ok:
  assumes "lock_bounded conf V s" and "total_votes s \<le> B" and "B + lock_minted op \<le> U64_MAX" and "lock_op_safe conf V op"
    and "lock_step conf op s = map_option fst r"
  shows "\<exists>s' uv. r = Some (s', uv) \<and> lock_bounded conf V s' \<and> total_votes s' \<le> B + lock_minted op"
proof -
  obtain s' where s': "lock_step conf op s = Some s'"
    using lock_step_defined [OF assms(1,4)] assms(2,3) by auto
  moreover have "lock_ok s" using assms(1) by (simp add: lock_bounded_def)
  ultimately show ?thesis
    using lock_step_bounded [OF assms(1,4) s'] lock_step_keeps [OF _ s'] assms(2,5) by auto
qed

lemma pos_ok_safe:
  assumes "pos_ok conf C V B S" and "pos_config_ok conf C V" and "lock_op_view op = pst_current_view S"
  shows "lock_op_safe conf V op" and "locks_positive conf" and "pst_current_view S < U64_MAX"
  using assms by (auto simp: lock_op_safe_def pos_ok_def pos_config_ok_def)

lemma update_voting_power_ok:
  assumes "pos_ok conf C V B S" and "pos_config_ok conf C V" and "B + n \<le> U64_MAX"
  shows "\<exists>S' r. update_voting_power conf a n S = Some (S', r) \<and> pos_ok conf C V (B + n) S' \<and>
    (r = Inr () \<longleftrightarrow> a \<in> dom (pst_node_map S)) \<and> pst_current_view S' = pst_current_view S \<and> pst_epoch_state S' = pst_epoch_state S"
  unfolding update_voting_power_def
proof (rule on_lock_status_ok [OF assms(1)])
  let ?v = "pst_current_view S"
  note safe = pos_ok_safe [OF assms(1,2), of "OpNewLock ?v n False", simplified]
  fix s assume s: "lock_bounded conf V s" "total_votes s \<le> B" "lock_views s \<subseteq> {?v<..}"
  obtain s' uv where r: "new_lock conf ?v n False s [] = Some (s', uv)" "lock_bounded conf V s'" "total_votes s' \<le> B + n"
    using lock_op_ok [OF s(1,2) _ safe(1)] assms(3) by fastforce
  then show "\<exists>s' uv. new_lock conf ?v n False s [] = Some (s', uv) \<and> lock_bounded conf V s' \<and> total_votes s' \<le> B + n \<and>
      reports ?v s s' uv"
    using new_lock_reports [OF r(1) _ safe(2)] s(1) by (auto simp: lock_bounded_def)
qed simp

lemma retire_node_ok:
  assumes "pos_ok conf C V B S" and "pos_config_ok conf C V" and "B \<le> U64_MAX"
  shows "\<exists>S' r. retire_node conf a n S = Some (S', r) \<and> pos_ok conf C V B S' \<and>
    (r = Inr () \<longleftrightarrow> a \<in> dom (pst_node_map S)) \<and> pst_current_view S' = pst_current_view S \<and> pst_epoch_state S' = pst_epoch_state S"
  unfolding retire_node_def
proof (rule on_lock_status_ok [OF assms(1)])
  let ?v = "pst_current_view S"
  note safe = pos_ok_safe [OF assms(1,2), of "OpNewUnlock ?v n", simplified]
  fix s assume s: "lock_bounded conf V s" "total_votes s \<le> B" "lock_views s \<subseteq> {?v<..}"
  obtain s' uv where r: "new_unlock conf ?v n s [] = Some (s', uv)" "lock_bounded conf V s'" "total_votes s' \<le> B"
    using lock_op_ok [OF s(1,2) _ safe(1)] assms(3) by fastforce
  then show "\<exists>s' uv. new_unlock conf ?v n s [] = Some (s', uv) \<and> lock_bounded conf V s' \<and> total_votes s' \<le> B \<and> reports ?v s s' uv"
    using new_unlock_reports [OF r(1) _ safe(2) s(3)] s(1) by (auto simp: lock_bounded_def)
qed simp

lemma force_retire_node_ok:
  assumes "pos_ok conf C V B S" and "pos_config_ok conf C V" and "B \<le> U64_MAX"
  shows "\<exists>S' r. force_retire_node conf a S = Some (S', r) \<and> pos_ok conf C V B S' \<and>
    (r = Inr () \<longleftrightarrow> a \<in> dom (pst_node_map S)) \<and> pst_current_view S' = pst_current_view S \<and> pst_epoch_state S' = pst_epoch_state S"
  unfolding force_retire_node_def
proof (rule on_lock_status_ok [OF assms(1)])
  let ?v = "pst_current_view S"
  note safe = pos_ok_safe [OF assms(1,2), of "OpForceRetire ?v", simplified]
  fix s assume s: "lock_bounded conf V s" "total_votes s \<le> B" "lock_views s \<subseteq> {?v<..}"
  obtain s' uv where r: "force_retire conf ?v s [] = Some (s', uv)" "lock_bounded conf V s'" "total_votes s' \<le> B"
    using lock_op_ok [OF s(1,2) _ safe(1)] assms(3) by fastforce
  then show "\<exists>s' uv. force_retire conf ?v s [] = Some (s', uv) \<and> lock_bounded conf V s' \<and> total_votes s' \<le> B \<and> reports ?v s s' uv"
    using force_retire_reports [OF r(1) _ safe(2) s(3)] s(1) by (auto simp: lock_bounded_def)
qed simp

lemma forfeit_node_ok:
  assumes "pos_ok conf C V B S" and "pos_config_ok conf C V" and "B \<le> U64_MAX"
  shows "\<exists>S' r. forfeit_node conf a S = Some (S', r) \<and> pos_ok conf C V B S' \<and>
    (r = Inr () \<longleftrightarrow> a \<in> dom (pst_node_map S)) \<and> pst_current_view S' = pst_current_view S \<and> pst_epoch_state S' = pst_epoch_state S"
  unfolding forfeit_node_def
proof (rule on_lock_status_ok [OF assms(1)])
  let ?v = "pst_current_view S"
  note safe = pos_ok_safe [OF assms(1,2), of "OpForfeit ?v", simplified]
  fix s assume s: "lock_bounded conf V s" "total_votes s \<le> B" "lock_views s \<subseteq> {?v<..}"
  obtain s' uv where r: "forfeit conf ?v s [] = Some (s', uv)" "lock_bounded conf V s'" "total_votes s' \<le> B"
    using lock_op_ok [OF s(1,2) _ safe(1)] assms(3) by fastforce
  then show "\<exists>s' uv. forfeit conf ?v s [] = Some (s', uv) \<and> lock_bounded conf V s' \<and> total_votes s' \<le> B \<and> reports ?v s s' uv"
    using forfeit_reports [OF r(1) _ safe(2,3)] s(1) by (auto simp: lock_bounded_def)
qed simp

section \<open>Registration and elections\<close>

lemma register_node_ok:
  assumes "pos_ok conf C V B S"
  shows "pos_ok conf C V B (fst (register_node i S))"
proof (cases "pst_node_map S (ni_addr i)")
  case None
  let ?n = "\<lparr>nd_public_key = ni_public_key i, nd_vrf_public_key = Some (ni_vrf_public_key i), nd_lock_status = node_lock_status_default\<rparr>"
  let ?S = "S\<lparr>pst_node_map := (pst_node_map S)(ni_addr i \<mapsto> ?n)\<rparr>"
  have r: "fst (register_node i S) = ?S"
    using None by (simp add: register_node_def)
  have new: "node_ok conf V B v P node_lock_status_default" for v P
    using lock_bounded_default lock_ok_default(2)
    by (simp add: node_ok_def lock_views_def node_lock_status_default_def)
  have "hinted ?S w = hinted S w" for w by (simp add: hinted_def)
  moreover obtain t k where t: "at_view conf (pst_current_view S) t k" "term_list_ok conf C (dom (pst_node_map S)) t k (pst_term_list S)"
    using assms unfolding pos_ok_def by blast
  have "term_list_ok conf C (dom (pst_node_map ?S)) t k (pst_term_list S)"
    by (rule term_list_ok_mono [OF t(2)]) auto
  moreover have "set xs \<subseteq> dom (pst_node_map ?S)" "distinct xs" if h: "pst_node_map_hint S w = Some xs" for w xs
    using assms h unfolding pos_ok_def by (auto dest!: spec [of _ w])
  ultimately show ?thesis
    unfolding r pos_ok_def using assms new t(1)
    by (intro conjI) (auto simp: pos_ok_def)
qed (use assms in \<open>simp add: register_node_def\<close>)

lemma pos_ok_other_fields:
  assumes "pos_ok conf C V B S"
  shows "pos_ok conf C V B (set_pivot_decision p S)" and "pos_ok conf C V B (set_skipped b S)"
    and "pos_ok conf C V B (fst (next_evicted_term S))"
  using assms
  by (simp_all add: pos_ok_def set_pivot_decision_def set_skipped_def next_evicted_term_def hinted_def term_list_ok_def)

lemma serving_votes_defined:
  assumes "term_list_ok conf C D t k terms" and "6 * C \<le> U64_MAX" and "i = electing_at conf t k"
  shows "\<exists>n. tl_serving_votes i a terms = Some n \<and> n \<le> 5 * C"
proof -
  have sum: "\<forall>d\<in>set ts. nl_ok conf C D (td_node_list d) \<and> is_elected (td_node_list d) \<Longrightarrow> length ts * C \<le> U64_MAX \<Longrightarrow>
      \<exists>n. sum_serving a ts = Some n \<and> n \<le> length ts * C" for ts
  proof (induction ts)
    case (Cons d ts)
    obtain m where m: "td_node_list d = Elected m" "bt_sum m \<le> C"
      using Cons.prems(1) by (auto simp: nl_ok_def is_elected_def split: node_list.splits)
    have "(case map_of m a of None \<Rightarrow> 0 | Some v \<Rightarrow> v) \<le> bt_sum m"
      by (force simp: bt_sum_def split: option.split dest!: map_of_SomeD intro!: member_le_sum_list)
    moreover obtain n where "sum_serving a ts = Some n" "n \<le> length ts * C"
      using Cons by auto
    ultimately show ?case
      using m Cons.prems(2) by (auto simp: nl_serving_votes_def add64_def)
  qed simp
  let ?ts = "take 5 (drop (i - 5) (tl_term_list terms))"
  have i: "i \<in> {6, 7}" "length (tl_term_list terms) = 8"
    using assms(1,3) electing_at_range by (auto simp: term_list_ok_def)
  have "nl_ok conf C D (td_node_list d) \<and> is_elected (td_node_list d)" if d: "d \<in> set ?ts" for d
  proof -
    obtain j where "j < 5" "d = tl_term_list terms ! (i - 5 + j)"
      using d i by (auto simp: in_set_conv_nth)
    then show ?thesis
      using assms(1) i(1) unfolding term_list_ok_def assms(3) [symmetric] by auto
  qed
  moreover have "length ?ts = 5" using i by auto
  ultimately obtain n where "sum_serving a ?ts = Some n" "n \<le> 5 * C"
    using sum [of ?ts] assms(2) by auto
  then show ?thesis
    using i by (auto simp: tl_serving_votes_def TERM_LIST_LEN_def sub64_def)
qed

lemma pst_new_node_elected_ok:
  assumes "pos_ok conf C V B S" and "pos_config_ok conf C V" and "ni_addr (ee_node_id event) \<in> dom (pst_node_map S)"
    and "electing_term_number (pst_term_list S) = Some (ee_start_term event)"
  shows "\<exists>S'. pst_new_node_elected vrf_number conf event S = Some (S', Inr ()) \<and> pos_ok conf C V B S' \<and>
    pst_current_view S' = pst_current_view S \<and> pst_epoch_state S' = pst_epoch_state S"
proof -
  obtain t k where t: "at_view conf (pst_current_view S) t k" "term_list_ok conf C (dom (pst_node_map S)) t k (pst_term_list S)"
      "t \<le> U64_MAX - 10"
    using pos_ok_term [OF assms(1,2)] by metis
  let ?i = "electing_at conf t k"
  have C: "6 * C \<le> U64_MAX" using assms(2) by (simp add: pos_config_ok_def)
  have st: "start_term (pst_term_list S) = t - 5" "ee_start_term event = t - 5 + ?i"
    using t(2) assms(4) by (auto simp: term_list_ok_def start_term_def TERM_LIST_LEN_def electing_term_number_def add64_def
        split: if_splits)
  obtain node where node: "pst_node_map S (ni_addr (ee_node_id event)) = Some node"
    using assms(3) by blast
  obtain n where n: "tl_serving_votes ?i (ni_addr (ee_node_id event)) (pst_term_list S) = Some n"
    using serving_votes_defined [OF t(2) C refl] by blast
  let ?p = "min (available_votes (nd_lock_status node) - n) (max_nonce_per_account conf (pst_current_view S))"
  obtain terms' r where r: "tl_new_node_elected vrf_number conf event ?p (pst_term_list S) = Some (terms', r)"
      "term_list_ok conf C (dom (pst_node_map S)) t k terms'" "r = Inr ()"
    using tl_new_node_elected_ok [OF t(2,3) assms(3), of vrf_number ?p] st(2) by auto
  have "pos_ok conf C V B (S\<lparr>pst_term_list := terms'\<rparr>)"
    using assms(1) t(1) r(2) by (auto simp: pos_ok_def hinted_def)
  then show ?thesis
    using node n r(1,3) st assms(1) by (auto simp: pst_new_node_elected_def sub64_def Let_def)
qed

end
