(* ===== verification/Pos_Next.thy ===== *)
theory Pos_Next
  imports Pos_Invariant
begin

text \<open>
  The step to the next view: it is defined in every state that satisfies the invariant, it keeps the
  invariant, and updating the scheduled nodes only has the effect of updating every node.
\<close>

section \<open>Scheduled updates\<close>

definition updated_node :: "pos_state_config \<Rightarrow> view \<Rightarrow> node_data \<Rightarrow> node_data option" where
  "updated_node conf v n = map_option (\<lambda>(s, _). n\<lparr>nd_lock_status := s\<rparr>) (update conf v (nd_lock_status n))"

lemma updated_node_eq_Some:
  "updated_node conf v n = Some n' \<longleftrightarrow>
     (\<exists>s b. update conf v (nd_lock_status n) = Some (s, b) \<and> n' = n\<lparr>nd_lock_status := s\<rparr>)"
  by (auto simp: updated_node_def)

definition releases :: "pos_state_config \<Rightarrow> view \<Rightarrow> node_data \<Rightarrow> bool" where
  "releases conf v n \<longleftrightarrow> map_option snd (update conf v (nd_lock_status n)) = Some True"

lemma update_hinted_spec:
  assumes "distinct xs" and "\<forall>a\<in>set xs. \<exists>n n'. nm a = Some n \<and> updated_node conf v n = Some n'"
  shows "\<exists>nm' uh'. update_hinted conf v xs nm uh = Some (nm', uh') \<and>
    (\<forall>a. nm' a = (if a \<in> set xs then Option.bind (nm a) (updated_node conf v) else nm a)) \<and>
    set uh' = set uh \<union> {a \<in> set xs. \<exists>n. nm a = Some n \<and> releases conf v n}"
  using assms
proof (induction xs arbitrary: nm uh)
  case (Cons a xs)
  obtain n s b where n: "nm a = Some n" "update conf v (nd_lock_status n) = Some (s, b)"
    using Cons.prems(2) by (auto simp: updated_node_eq_Some)
  let ?nm = "nm(a \<mapsto> n\<lparr>nd_lock_status := s\<rparr>)" and ?uh = "if b then hs_insert a uh else uh"
  have "\<forall>c\<in>set xs. \<exists>n n'. ?nm c = Some n \<and> updated_node conf v n = Some n'"
    using Cons.prems by auto
  then obtain nm' uh' where r: "update_hinted conf v xs ?nm ?uh = Some (nm', uh')"
      "\<forall>c. nm' c = (if c \<in> set xs then Option.bind (?nm c) (updated_node conf v) else ?nm c)"
      "set uh' = set ?uh \<union> {c \<in> set xs. \<exists>n. ?nm c = Some n \<and> releases conf v n}"
    using Cons.IH [of ?nm ?uh] Cons.prems(1) unfolding distinct.simps by blast
  have "nm' c = (if c \<in> set (a # xs) then Option.bind (nm c) (updated_node conf v) else nm c)" for c
    using r(2) n Cons.prems(1) by (cases "c = a") (auto simp: updated_node_def)
  moreover have "set uh' = set uh \<union> {c \<in> set (a # xs). \<exists>n. nm c = Some n \<and> releases conf v n}"
  proof -
    have "set ?uh = set uh \<union> (if b then {a} else {})"
      by (simp add: hs_insert_def insert_absorb)
    moreover have "{c \<in> set xs. \<exists>n. ?nm c = Some n \<and> releases conf v n} = {c \<in> set xs. \<exists>n. nm c = Some n \<and> releases conf v n}"
      using Cons.prems(1) by auto
    moreover have "releases conf v n = b" using n(2) by (simp add: releases_def)
    ultimately show ?thesis using r(3) n(1) by auto
  qed
  ultimately show ?case
    using r(1) n by (auto intro!: exI [of _ nm'] exI [of _ uh'])
qed simp

text \<open>Without the schedule: every node is updated.\<close>

definition update_all :: "pos_state_config \<Rightarrow> view \<Rightarrow> (address \<rightharpoonup> node_data) \<Rightarrow> (address \<rightharpoonup> node_data)" where
  "update_all conf v nm a = Option.bind (nm a) (updated_node conf v)"

text \<open>Two nodes with the same keys and the same votes, whatever the order inside the queues.\<close>

definition same_node :: "node_data \<Rightarrow> node_data \<Rightarrow> bool" where
  "same_node n m \<longleftrightarrow> nd_public_key n = nd_public_key m \<and> nd_vrf_public_key n = nd_vrf_public_key m \<and>
     lock_abs (nd_lock_status n) = lock_abs (nd_lock_status m)"

lemma update_idle:
  assumes "update conf v s = Some (s', b)" and "lock_ok s" and "lock_views s \<subseteq> {v<..}"
  shows "lock_abs s' = lock_abs s" and "\<not> b"
proof -
  note u = update_spec [OF assms(1,2)]
  have q: "sl_views (ls_in_queue s) \<subseteq> {v<..}" "sl_views (ls_out_queue s) \<subseteq> {v<..}"
    using assms(3) by (auto simp: lock_views_def)
  have late: "slq.late q v = sl_items q" "sl_due q v = 0" if h: "sl_views q \<subseteq> {v<..}" for q
  proof -
    have "v < si_view i" if "i \<in># sl_items q" for i
      using that h by (auto simp: sl_views_eq)
    then show "slq.late q v = sl_items q" "sl_due q v = 0"
      unfolding slq.late_def sl_due_eq [symmetric] slq.due_def
      by (auto simp: filter_mset_eq_conv) (metis linorder_not_less)
  qed
  show "lock_abs s' = lock_abs s" "\<not> b"
    using u q late [OF q(1)] late [OF q(2)] by (auto simp: lock_abs_def)
qed

section \<open>The step of the term list\<close>

text \<open>The committee an epoch state announces is well formed and has the powers of the elections it stems from.\<close>

definition epoch_ok :: "nat \<Rightarrow> epoch_state \<Rightarrow> bool" where
  "epoch_ok C e \<longleftrightarrow> verifier_ok (es_verifier e) \<and> vv_total_voting_power (es_verifier e) \<le> 6 * C"

lemma committee_ok_at:
  assumes "term_list_ok conf C (dom (pst_node_map S)) t k (pst_term_list S)" and "t \<le> U64_MAX - 10" and "12 * C \<le> U64_MAX"
    and "n \<le> t \<and> n \<le> 5 \<and> t \<le> 5 \<or> n = Suc t \<and> t < 5 \<or> n = Suc t \<and> electing_at conf t k = 7"
  shows "\<exists>vv seed. get_committee_at n S = Some (vv, seed) \<and> verifier_ok vv \<and> vv_total_voting_power vv \<le> 6 * C"
proof -
  obtain ts where ts: "committee_for_term n (pst_term_list S) = Some ts" "length ts = 6"
      "\<forall>d\<in>set ts. nl_ok conf C (dom (pst_node_map S)) (td_node_list d) \<and> is_elected (td_node_list d)"
    using committee_for_term_window [OF assms(1,2,4)] by blast
  moreover have "tl_term_list (pst_term_list S) \<noteq> []"
    using assms(1) by (auto simp: term_list_ok_def)
  ultimately show ?thesis
    using get_committee_spec [OF ts(1,2) _ ts(3) assms(3)] by blast
qed

lemma electing_at_Suc:
  "\<not> (5 \<le> t \<and> Suc k = round_per_term conf (term_start conf t) div 2) \<Longrightarrow> electing_at conf t (Suc k) = electing_at conf t k"
  by (auto simp: electing_at_def)

lemma term_list_ok_Suc:
  assumes "\<not> (5 \<le> t \<and> Suc k = round_per_term conf (term_start conf t) div 2)" and "term_list_ok conf C D t k terms"
  shows "term_list_ok conf C D t (Suc k) terms"
  using assms(2) by (simp add: term_list_ok_def electing_at_Suc [OF assms(1)])

definition epoch_number :: "nat \<Rightarrow> view \<Rightarrow> nat" where
  "epoch_number t v = (if v = 0 then 0 else Suc t)"

lemma next_view_epoch_ok:
  assumes cfg: "pos_config_ok conf C V" and at: "at_view conf v t k" and v: "pst_current_view S = Suc v" "Suc v \<le> V"
    and tl: "term_list_ok conf C (dom (pst_node_map S)) t k (pst_term_list S)"
    and t: "t \<le> U64_MAX - 10" "term_start conf (t + 3) \<le> U64_MAX" "6 * c_round_per_term conf \<le> U64_MAX"
  shows "\<exists>tl' e t' k'. next_view_epoch conf S = Some (S\<lparr>pst_term_list := tl'\<rparr>, e) \<and> at_view conf (Suc v) t' k' \<and>
    term_list_ok conf C (dom (pst_node_map S)) t' k' tl' \<and>
    (case e of None \<Rightarrow> t' = t \<and> 0 < v | Some es \<Rightarrow> epoch_ok C es \<and> es_epoch es = Suc t' \<and> t' = (if v = 0 then t else Suc t))"
proof -
  have wf: "config_wf conf" and C: "12 * C \<le> U64_MAX" "term_max_size conf \<le> U64_MAX" "max 1 (term_elected_size conf) \<le> C"
    and vb: "Suc v \<le> U64_MAX"
    using cfg v(2) by (auto simp: pos_config_ok_def)
  let ?R = "round_per_term conf (term_start conf t)"
  have R: "0 < ?R" "even ?R" using round_per_term_pos [OF wf, of "term_start conf t"] by auto
  consider (first) "v = 0" | (new) "v \<noteq> 0" "Suc k = ?R" "at_view conf (Suc v) (Suc t) 0" | (same) "v \<noteq> 0" "at_view conf (Suc v) t (Suc k)"
    using at_view_Suc [OF wf at] by blast
  then show ?thesis
  proof cases
    case first
    then have tk: "t = 0" "k = 0"
      using at_view_term(1) [OF wf at] at_view_term(1) [OF wf at_view_0 [OF wf]] by auto
    moreover have "at_view conf (Suc v) t (Suc k)"
      using at_view_Suc [OF wf at] R tk by (auto elim!: evenE)
    moreover obtain vv seed where "get_committee_at 0 S = Some (vv, seed)" "verifier_ok vv" "vv_total_voting_power vv \<le> 6 * C"
      using committee_ok_at [OF tl t(1) C(1), of 0] tk(1) by auto
    ultimately show ?thesis
      using first v(1) term_list_ok_Suc [OF _ tl] tk
      by (intro exI [of _ "pst_term_list S"]) (auto simp: next_view_epoch_def epoch_ok_def)
  next
    case new
    have "t < 5 \<or> electing_at conf t k = 7"
      using new(2) R by (auto simp: electing_at_def)
    then obtain vv seed where vv: "get_committee_at (Suc t) S = Some (vv, seed)" "verifier_ok vv" "vv_total_voting_power vv \<le> 6 * C"
      using committee_ok_at [OF tl t(1) C(1), of "Suc t"] by auto
    obtain tl' where tl': "tl_new_term conf (Suc t) (pd_block_hash (pst_pivot_decision S)) (pst_term_list S) = Some tl'"
        "term_list_ok conf C (dom (pst_node_map S)) (Suc t) 0 tl'"
      using new_term_ok [OF wf tl new(2) t(2)] by blast
    have "add64 (Suc t) 1 = Some (Suc (Suc t))"
      using t(1) by (simp add: add64_def U64_MAX_def)
    then show ?thesis
      using new vv tl' v(1) at_view_term(1) [OF wf new(3) vb]
      by (intro exI [of _ tl']) (auto simp: next_view_epoch_def epoch_ok_def)
  next
    case same
    obtain first where first: "first_end_election_view conf = Some first"
        "first \<le> Suc v \<and> ?R div 2 \<le> Suc k \<longleftrightarrow> 5 \<le> t \<and> ?R div 2 \<le> Suc k"
      using first_end_election [OF wf same(2) t(3)] by blast
    note tv = at_view_term [OF wf same(2) vb]
    show ?thesis
    proof (cases "5 \<le> t \<and> Suc k = ?R div 2")
      case True
      then obtain tl' where "finalize_election conf (pst_term_list S) = Some tl'"
          "term_list_ok conf C (dom (pst_node_map S)) t (Suc k) tl'"
        using finalize_election_ok [OF tl _ _ C(2,3)] by blast
      then show ?thesis
        using True same first v(1) tv by (intro exI [of _ tl']) (auto simp: next_view_epoch_def)
    next
      case False
      then have "\<not> (first \<le> Suc v \<and> Suc k = ?R div 2)"
        using first(2) by auto
      then show ?thesis
        using False same first(1) v(1) tv term_list_ok_Suc [OF False tl]
        by (intro exI [of _ "pst_term_list S"]) (auto simp: next_view_epoch_def)
    qed
  qed
qed

section \<open>The next view\<close>

text \<open>The full invariant: the epoch is the one of the current term, and its committee is well formed.\<close>

definition pos_inv :: "pos_state_config \<Rightarrow> nat \<Rightarrow> view \<Rightarrow> nat \<Rightarrow> pos_state \<Rightarrow> bool" where
  "pos_inv conf C V B S \<longleftrightarrow> pos_ok conf C V B S \<and> epoch_ok C (pst_epoch_state S) \<and>
     (\<exists>t k. at_view conf (pst_current_view S) t k \<and> es_epoch (pst_epoch_state S) = epoch_number t (pst_current_view S))"

lemma node_update_ok:
  assumes "node_ok conf V B v P s" and "pos_config_ok conf C V" and "Suc v \<le> V" and "B \<le> U64_MAX"
  obtains s' b where "update conf (Suc v) s = Some (s', b)" and "lock_bounded conf V s'" and "total_votes s' \<le> B"
    and "lock_views s' = {w \<in> lock_views s. Suc v < w}"
proof -
  have s: "lock_bounded conf V s" "total_votes s \<le> B" "lock_ok s"
    using assms(1) by (auto simp: node_ok_def lock_bounded_def)
  have "lock_op_safe conf V (OpUpdate (Suc v))"
    using assms(2,3) by (simp add: lock_op_safe_def pos_config_ok_def)
  then obtain s' b where s': "update conf (Suc v) s = Some (s', b)" "lock_bounded conf V s'" "total_votes s' \<le> B"
    using lock_op_ok [OF s(1,2), of "OpUpdate (Suc v)"] assms(4) by fastforce
  have "lock_views s' = {w \<in> lock_views s. Suc v < w}"
    using update_spec [OF s'(1) s(3)] update_views_late [of "ls_in_queue s'" "ls_in_queue s" "Suc v"]
      update_views_late [of "ls_out_queue s'" "ls_out_queue s" "Suc v"] by (auto simp: lock_views_def)
  with s' show ?thesis by (rule that)
qed

text \<open>The nodes after the scheduled updates of the next view.\<close>

lemma scheduled_nodes:
  assumes "pos_ok conf C V B S" and cfg: "pos_config_ok conf C V" and v: "v = pst_current_view S" "Suc v \<le> V" and B: "B \<le> U64_MAX"
    and xs: "xs = (case pst_node_map_hint S (Suc v) of None \<Rightarrow> [] | Some xs \<Rightarrow> xs)"
  obtains nm' uh' where "update_hinted conf (Suc v) xs (pst_node_map S) [] = Some (nm', uh')"
    and "dom nm' = dom (pst_node_map S)"
    and "\<And>a n'. nm' a = Some n' \<Longrightarrow> node_ok conf V B (Suc v) (\<lambda>w. w \<noteq> Suc v \<and> a \<in> hinted S w) (nd_lock_status n') \<and> nd_vrf_public_key n' \<noteq> None"
    and "\<And>a n n'. nm' a = Some n' \<Longrightarrow> update_all conf (Suc v) (pst_node_map S) a = Some n \<Longrightarrow> same_node n' n"
    and "set uh' = {a. \<exists>n. pst_node_map S a = Some n \<and> releases conf (Suc v) n}"
    and "dom (update_all conf (Suc v) (pst_node_map S)) = dom (pst_node_map S)"
proof -
  have nodes: "node_ok conf V B v (\<lambda>w. a \<in> hinted S w) (nd_lock_status n)" "nd_vrf_public_key n \<noteq> None"
    if "pst_node_map S a = Some n" for a n
    using assms(1) that v(1) by (auto simp: pos_ok_def)
  have h: "hinted S (Suc v) = set xs" "distinct xs" "set xs \<subseteq> dom (pst_node_map S)"
    using assms(1) xs by (auto simp: hinted_def pos_ok_def split: option.splits)
  have upd: "\<exists>n'. updated_node conf (Suc v) n = Some n'" if n: "pst_node_map S a = Some n" for a n
    using node_update_ok [OF nodes(1) [OF n] cfg v(2) B] by (metis updated_node_eq_Some)
  have idle: "lock_views (nd_lock_status n) \<subseteq> {Suc v<..}" "lock_ok (nd_lock_status n)"
    if n: "pst_node_map S a = Some n" "a \<notin> set xs" for a n
  proof -
    have "\<forall>w\<in>lock_views (nd_lock_status n). v < w \<and> w \<noteq> Suc v" "lock_ok (nd_lock_status n)"
      using nodes(1) [OF n(1)] n(2) h(1) by (auto simp: node_ok_def lock_bounded_def)
    then show "lock_views (nd_lock_status n) \<subseteq> {Suc v<..}" "lock_ok (nd_lock_status n)" by force+
  qed
  obtain nm' uh' where r: "update_hinted conf (Suc v) xs (pst_node_map S) [] = Some (nm', uh')"
      "\<And>a. nm' a = (if a \<in> set xs then Option.bind (pst_node_map S a) (updated_node conf (Suc v)) else pst_node_map S a)"
      "set uh' = {a \<in> set xs. \<exists>n. pst_node_map S a = Some n \<and> releases conf (Suc v) n}"
    using update_hinted_spec [OF h(2), of "pst_node_map S" conf "Suc v" "[]"] h(3) upd by fastforce
  show ?thesis
  proof (rule that [OF r(1)])
    show "dom nm' = dom (pst_node_map S)" "dom (update_all conf (Suc v) (pst_node_map S)) = dom (pst_node_map S)"
      using r(2) upd by (fastforce simp: update_all_def dom_def bind_eq_Some_conv split: if_splits)+
    fix a n' assume n': "nm' a = Some n'"
    then obtain n where n: "pst_node_map S a = Some n"
      using r(2) by (auto simp: bind_eq_Some_conv split: if_splits)
    obtain s' b where s': "update conf (Suc v) (nd_lock_status n) = Some (s', b)" "lock_bounded conf V s'" "total_votes s' \<le> B"
        "lock_views s' = {w \<in> lock_views (nd_lock_status n). Suc v < w}"
      using node_update_ok [OF nodes(1) [OF n] cfg v(2) B] by metis
    have eq: "n' = (if a \<in> set xs then n\<lparr>nd_lock_status := s'\<rparr> else n)"
      using n' n s'(1) r(2) by (auto simp: updated_node_def split: if_splits)
    show "node_ok conf V B (Suc v) (\<lambda>w. w \<noteq> Suc v \<and> a \<in> hinted S w) (nd_lock_status n') \<and> nd_vrf_public_key n' \<noteq> None"
      using nodes [OF n] s' idle [OF n] unfolding eq by (cases "a \<in> set xs") (auto simp: node_ok_def)
    show "same_node n' m" if "update_all conf (Suc v) (pst_node_map S) a = Some m" for m
      using that s'(1) n update_idle(1) [OF s'(1) idle(2,1) [OF n]] unfolding eq
      by (auto simp: update_all_def updated_node_def same_node_def)
  next
    have "a \<in> set xs" if n: "pst_node_map S a = Some n" "releases conf (Suc v) n" for a n
      using n update_idle(2) [OF _ idle(2,1) [OF n(1)]] by (auto simp: releases_def)
    then show "set uh' = {a. \<exists>n. pst_node_map S a = Some n \<and> releases conf (Suc v) n}"
      using r(3) by blast
  qed
qed

lemma at_view_unique:
  "config_wf conf \<Longrightarrow> at_view conf v t k \<Longrightarrow> at_view conf v t' k' \<Longrightarrow> v \<le> U64_MAX \<Longrightarrow> t' = t \<and> k' = k"
  by (metis at_view_term(1) option.inject prod.inject)

lemma next_view_ok:
  assumes inv: "pos_inv conf C V B S" and cfg: "pos_config_ok conf C V" and V: "pst_current_view S < V" and B: "B \<le> U64_MAX"
  shows "\<exists>S' e. next_view conf S = Some (S', e) \<and> pos_inv conf C V B S' \<and> pst_current_view S' = Suc (pst_current_view S) \<and>
    (case e of None \<Rightarrow> pst_epoch_state S' = pst_epoch_state S
     | Some es \<Rightarrow> pst_epoch_state S' = es \<and> es_epoch es = Suc (es_epoch (pst_epoch_state S)))"
proof -
  let ?v = "pst_current_view S"
  have ok: "pos_ok conf C V B S" and wf: "config_wf conf" using inv cfg by (auto simp: pos_inv_def pos_config_ok_def)
  obtain t k where t: "at_view conf ?v t k" "term_list_ok conf C (dom (pst_node_map S)) t k (pst_term_list S)"
      "t \<le> U64_MAX - 10" "term_start conf (t + 3) \<le> U64_MAX" "6 * c_round_per_term conf \<le> U64_MAX" "?v < U64_MAX"
    by (rule pos_ok_term [OF ok cfg]) (rule that; assumption)
  obtain t0 k0 where t0: "at_view conf ?v t0 k0" "es_epoch (pst_epoch_state S) = epoch_number t0 ?v"
    using inv unfolding pos_inv_def by blast
  have ep: "es_epoch (pst_epoch_state S) = epoch_number t ?v"
    using at_view_unique [OF wf t(1) t0(1)] t(6) t0(2) by simp
  have t00: "?v = 0 \<Longrightarrow> t = 0"
    using at_view_unique [OF wf at_view_0 [OF wf], of t k] t(1) by simp
  obtain nm' uh' where n: "update_hinted conf (Suc ?v) (case pst_node_map_hint S (Suc ?v) of None \<Rightarrow> [] | Some xs \<Rightarrow> xs) (pst_node_map S) [] = Some (nm', uh')"
      "dom nm' = dom (pst_node_map S)"
      "\<And>a n'. nm' a = Some n' \<Longrightarrow> node_ok conf V B (Suc ?v) (\<lambda>w. w \<noteq> Suc ?v \<and> a \<in> hinted S w) (nd_lock_status n') \<and> nd_vrf_public_key n' \<noteq> None"
    by (rule scheduled_nodes [OF ok cfg refl Suc_leI [OF V] B refl]) (rule that; assumption)
  let ?S = "S\<lparr>pst_current_view := Suc ?v, pst_node_map := nm', pst_node_map_hint := (pst_node_map_hint S)(Suc ?v := None),
    pst_unlock_event_hint := uh'\<rparr>"
  obtain tl' e t' k' where e: "next_view_epoch conf ?S = Some (?S\<lparr>pst_term_list := tl'\<rparr>, e)" "at_view conf (Suc ?v) t' k'"
      "term_list_ok conf C (dom nm') t' k' tl'"
      "case e of None \<Rightarrow> t' = t \<and> 0 < ?v | Some es \<Rightarrow> epoch_ok C es \<and> es_epoch es = Suc t' \<and> t' = (if ?v = 0 then t else Suc t)"
    using next_view_epoch_ok [OF cfg t(1), of ?S] t(2-5) V n(2) by auto
  let ?S' = "case e of None \<Rightarrow> ?S\<lparr>pst_term_list := tl'\<rparr> | Some es \<Rightarrow> ?S\<lparr>pst_term_list := tl', pst_epoch_state := es\<rparr>"
  have nv: "next_view conf S = Some (?S', e)"
    using n(1) e(1) t(6) by (auto simp: next_view_def add64_def split: option.splits)
  have f: "pst_current_view ?S' = Suc ?v" "pst_node_map ?S' = nm'" "pst_term_list ?S' = tl'"
    "pst_node_map_hint ?S' = (pst_node_map_hint S)(Suc ?v := None)"
    by (simp_all split: option.split)
  have h: "hinted ?S' w = (if w = Suc ?v then {} else hinted S w)" for w
    unfolding hinted_def f by simp
  have "pos_ok conf C V B ?S'"
    unfolding pos_ok_def f h
  proof (intro conjI allI impI)
    show "\<exists>t k. at_view conf (Suc ?v) t k \<and> term_list_ok conf C (dom nm') t k tl'"
      using e(2,3) by blast
    show "node_ok conf V B (Suc ?v) (\<lambda>w. a \<in> (if w = Suc ?v then {} else hinted S w)) (nd_lock_status n)"
        "nd_vrf_public_key n \<noteq> None" if "nm' a = Some n" for a n
      using n(3) [OF that] by (auto elim: node_ok_mono)
    show "distinct xs" "set xs \<subseteq> dom nm'" if "((pst_node_map_hint S)(Suc ?v := None)) w = Some xs" for w xs
      using that ok n(2) by (auto simp: pos_ok_def split: if_splits)
  qed (use V in simp)
  moreover have "epoch_ok C (pst_epoch_state ?S') \<and> es_epoch (pst_epoch_state ?S') = epoch_number t' (Suc ?v)"
    using e(4) inv ep by (auto simp: pos_inv_def epoch_number_def split: option.splits)
  ultimately have "pos_inv conf C V B ?S'"
    using e(2) unfolding pos_inv_def f by blast
  moreover have "case e of None \<Rightarrow> pst_epoch_state ?S' = pst_epoch_state S
     | Some es \<Rightarrow> pst_epoch_state ?S' = es \<and> es_epoch es = Suc (es_epoch (pst_epoch_state S))"
    using e(4) ep t00 by (auto simp: epoch_number_def split: option.splits if_splits)
  ultimately show ?thesis using nv f(1) by blast
qed

end
