(* ===== verification/Pos_Run.thy ===== *)
theory Pos_Run
  imports Pos_Next
begin

text \<open>
  The runs of the proof-of-stake state machine: the genesis state, the events a block applies and the next
  view. Every state of a run satisfies the invariant, so no assertion of the code fails on it.
\<close>

section \<open>The genesis state\<close>

lemma initial_node_map_ok:
  assumes "\<forall>(i, n)\<in>set nodes. n \<le> B" and "B \<le> U64_MAX"
    and "\<forall>a m. nm a = Some m \<longrightarrow> node_ok conf V B 0 P (nd_lock_status m) \<and> nd_vrf_public_key m \<noteq> None"
  shows "\<exists>nm'. initial_node_map conf nodes nm = Some nm' \<and> dom nm' = dom nm \<union> ni_addr ` fst ` set nodes \<and>
    (\<forall>a m. nm' a = Some m \<longrightarrow> node_ok conf V B 0 P (nd_lock_status m) \<and> nd_vrf_public_key m \<noteq> None)"
  using assms(1,3)
proof (induction nodes arbitrary: nm)
  case (Cons e nodes)
  obtain i n where e: "e = (i, n)" by (cases e)
  have n: "n \<le> B" using Cons.prems(1) e by simp
  define s where "s = node_lock_status_default\<lparr>ls_available_votes := n, ls_locked := n\<rparr>"
  have s: "new_lock conf 0 n True node_lock_status_default [] = Some (s, [])"
    using n assms(2) by (auto simp: new_lock_def s_def node_lock_status_default_def add64_def)
  moreover have "node_ok conf V B 0 P s"
    using n new_lock_spec(1,2) [OF s lock_ok_default(1)] lock_ok_default(2)
    by (auto simp: node_ok_def lock_bounded_def lock_views_def s_def node_lock_status_default_def)
  moreover define nm1 where "nm1 = nm(ni_addr i \<mapsto>
      \<lparr>nd_public_key = ni_public_key i, nd_vrf_public_key = Some (ni_vrf_public_key i), nd_lock_status = s\<rparr>)"
  ultimately have "\<forall>a m. nm1 a = Some m \<longrightarrow> node_ok conf V B 0 P (nd_lock_status m) \<and> nd_vrf_public_key m \<noteq> None"
    using Cons.prems(2) by simp
  then obtain nm' where nm': "initial_node_map conf nodes nm1 = Some nm'" "dom nm' = dom nm1 \<union> ni_addr ` fst ` set nodes"
      "\<forall>a m. nm' a = Some m \<longrightarrow> node_ok conf V B 0 P (nd_lock_status m) \<and> nd_vrf_public_key m \<noteq> None"
    using Cons.IH [of nm1] Cons.prems(1) by (meson list.set_intros(2))
  have "initial_node_map conf (e # nodes) nm = Some nm'" "dom nm' = dom nm \<union> ni_addr ` fst ` set (e # nodes)"
    using nm'(1,2) e s by (auto simp: nm1_def)
  then show ?case using nm'(3) by blast
qed simp

text \<open>The first terms: the genesis committee, five empty elections, and two terms to be elected.\<close>

lemma empty_election [simp]: "finalize_elect conf node_list_default = Some (Elected [], [])"
  by (simp add: finalize_elect_def node_list_default_def heap_finalize_def electing_heap_default_def)

definition first_terms :: "pos_state_config \<Rightarrow> bytes \<Rightarrow> elected_map \<Rightarrow> nat \<Rightarrow> term_data list" where
  "first_terms conf seed m n = map (\<lambda>i. \<lparr>td_start_view = term_start conf i, td_seed = seed,
     td_node_list = if i = 0 then Elected m else if i < 6 then Elected [] else node_list_default\<rparr>) [0..<Suc n]"

lemma first_terms_Suc:
  "first_terms conf seed m (Suc n) = first_terms conf seed m n @ [\<lparr>td_start_view = term_start conf (Suc n), td_seed = seed,
     td_node_list = if n < 5 then Elected [] else node_list_default\<rparr>]"
  by (simp add: first_terms_def)

lemma first_terms_0: "config_wf conf \<Longrightarrow> [\<lparr>td_start_view = 0, td_seed = seed, td_node_list = Elected m\<rparr>] = first_terms conf seed m 0"
  by (simp add: first_terms_def)

lemma last_first_terms: "td_start_view (last (first_terms conf seed m n)) = term_start conf n"
  by (simp add: first_terms_def)

lemma initial_terms_eq:
  assumes wf: "config_wf conf" and "term_start conf 7 \<le> U64_MAX"
  shows "initial_terms conf seed [0..<TERM_LIST_LEN + 1] (first_terms conf seed m 0) = Some (first_terms conf seed m 7)"
proof -
  have "initial_terms conf seed [k..<7] (first_terms conf seed m k) = Some (first_terms conf seed m 7)" if "k \<le> 7" for k
    using that
  proof (induction rule: inc_induct)
    case (step n)
    have "term_start conf (Suc n) \<le> term_start conf 7"
      using step.hyps(2) strict_mono_less_eq [OF term_start_mono [OF wf], of "Suc n" 7] by simp
    then have "next_term conf node_list_default seed (last (first_terms conf seed m n)) =
        Some \<lparr>td_start_view = term_start conf (Suc n), td_seed = seed, td_node_list = node_list_default\<rparr>"
      using assms(2) term_start_Suc [OF wf, of n] by (simp add: next_term_def add64_def last_first_terms)
    moreover have "[n..<7] = n # [Suc n..<7]" using step.hyps(2) by (rule upt_conv_Cons)
    ultimately show ?case
      using step.IH by (auto simp: TERM_LIST_LEN_def first_terms_Suc)
  qed simp
  then show ?thesis by (simp add: TERM_LIST_LEN_def)
qed

text \<open>
  What the genesis needs: registered committee members with at most \<open>C\<close> votes in total.
\<close>

definition genesis_ok :: "nat \<Rightarrow> nat \<Rightarrow> (node_id \<times> nat) list \<Rightarrow> (address \<times> nat) list \<Rightarrow> bool" where
  "genesis_ok C B initial_nodes initial_committee \<longleftrightarrow>
     (\<forall>(i, n)\<in>set initial_nodes. n \<le> B) \<and> fst ` set initial_committee \<subseteq> ni_addr ` fst ` set initial_nodes \<and>
     distinct (map fst initial_committee) \<and> sum_list (map snd initial_committee) \<le> C"

lemma fold_bt_insert:
  assumes "distinct (map fst cs)" and "bt_ok m" and "fst ` set cs \<inter> fst ` set m = {}"
  shows "bt_ok (fold (\<lambda>(a, n). bt_insert a n) cs m) \<and>
    bt_sum (fold (\<lambda>(a, n). bt_insert a n) cs m) = bt_sum m + sum_list (map snd cs) \<and>
    fst ` set (fold (\<lambda>(a, n). bt_insert a n) cs m) = fst ` set m \<union> fst ` set cs"
  using assms
proof (induction cs arbitrary: m)
  case (Cons c cs)
  obtain a n where c: "c = (a, n)" by (cases c)
  have new: "map_of m a = None" "a \<notin> fst ` set cs"
    using Cons.prems c by (auto simp: map_of_eq_None_iff image_iff)
  have "bt_ok (bt_insert a n m)" "bt_sum (bt_insert a n m) = bt_sum m + n" "fst ` set (bt_insert a n m) = insert a (fst ` set m)"
    using Cons.prems(2) bt_sum_insert [of m a n] new by (auto simp: bt_simps)
  moreover have "fst ` set cs \<inter> insert a (fst ` set m) = {}"
    using Cons.prems(3) new(2) by auto
  ultimately show ?case
    using Cons.IH [of "bt_insert a n m"] Cons.prems(1) c by simp
qed simp

lemma first_terms_ok:
  assumes "nl_ok conf C D (Elected m)"
  shows "term_list_ok conf C D 0 0 \<lparr>tl_current_term = 0, tl_term_list = first_terms conf seed m 7, tl_candy_rewards = r,
    tl_electing_index = TERM_LIST_LEN\<rparr>"
proof -
  have nth: "first_terms conf seed m 7 ! i = \<lparr>td_start_view = term_start conf i, td_seed = seed,
      td_node_list = if i = 0 then Elected m else if i < 6 then Elected [] else node_list_default\<rparr>" if "i < 8" for i
    using that by (simp add: first_terms_def nth_append del: upt_Suc)
  moreover have "nl_ok conf C D (Elected [])" by (simp add: nl_ok_def bt_ok_def)
  ultimately have "td_start_view (first_terms conf seed m 7 ! i) = term_start conf i \<and>
      nl_ok conf C D (td_node_list (first_terms conf seed m 7 ! i)) \<and>
      (is_elected (td_node_list (first_terms conf seed m 7 ! i)) \<longleftrightarrow> i < 6)" if "i < 8" for i
    using that assms nl_ok_default(1) [of conf C D] nl_ok_default(2) by (auto simp: is_elected_def)
  moreover have "length (first_terms conf seed m 7) = 8" "electing_at conf 0 0 = 6"
    by (simp_all add: first_terms_def electing_at_def)
  ultimately show ?thesis by (simp add: term_list_ok_def TERM_LIST_LEN_def)
qed

lemma node_ok_any: "node_ok conf V B v (\<lambda>_. False) s \<Longrightarrow> node_ok conf V B v P s"
  by (auto simp: node_ok_def)

lemma genesis_inv:
  assumes cfg: "pos_config_ok conf C V" and gen: "genesis_ok C B nodes committee" and B: "B \<le> U64_MAX"
  shows "\<exists>S. pos_state_new conf seed nodes committee pivot = Some S \<and> pos_inv conf C V B S \<and> pst_current_view S = 0"
proof -
  have wf: "config_wf conf" and C: "12 * C \<le> U64_MAX" using cfg by (auto simp: pos_config_ok_def)
  obtain nm where nm: "initial_node_map conf nodes Map.empty = Some nm" "dom nm = ni_addr ` fst ` set nodes"
      "\<forall>a m. nm a = Some m \<longrightarrow> node_ok conf V B 0 (\<lambda>_. False) (nd_lock_status m) \<and> nd_vrf_public_key m \<noteq> None"
    using initial_node_map_ok [of nodes B Map.empty conf V "\<lambda>_. False"] gen B by (auto simp: genesis_ok_def)
  let ?m = "fold (\<lambda>(addr, voting_power). bt_insert addr voting_power) committee []"
  have m: "nl_ok conf C (dom nm) (Elected ?m)"
    using fold_bt_insert [of committee "[]"] gen nm(2) by (simp add: nl_ok_def genesis_ok_def bt_ok_def)
  have R: "round_per_term conf w \<le> c_round_per_term conf + c_cip136_round_per_term conf" for w
    by (simp add: round_per_term_def)
  have "term_start conf n \<le> n * (c_round_per_term conf + c_cip136_round_per_term conf)" for n
  proof (induction n)
    case (Suc n)
    then show ?case using R [of "term_start conf n"] by (simp add: term_start_Suc [OF wf])
  qed (simp add: term_start_0 [OF wf])
  from this [of 7] have U: "term_start conf 7 \<le> U64_MAX"
    using cfg by (simp add: pos_config_ok_def)
  obtain e where e: "epoch_state_empty = Some e"
    using validator_verifier_new_powers [of "[]"] by (auto simp: epoch_state_empty_def info_powers_def bt_ok_def)
  let ?tl = "\<lparr>tl_current_term = 0, tl_term_list = first_terms conf seed ?m 7, tl_candy_rewards = ?m, tl_electing_index = TERM_LIST_LEN\<rparr>"
  let ?S = "\<lparr>pst_node_map = nm, pst_current_view = 0, pst_epoch_state = e, pst_term_list = ?tl, pst_retiring_nodes = [],
    pst_pivot_decision = pivot, pst_node_map_hint = Map.empty, pst_unlock_event_hint = [], pst_skipped = False\<rparr>"
  note tl = first_terms_ok [OF m, of seed ?m]
  obtain vv sd where vv: "get_committee_at 0 ?S = Some (vv, sd)" "verifier_ok vv" "vv_total_voting_power vv \<le> 6 * C"
    using committee_ok_at [of conf C ?S 0 0 0] tl C by auto
  have eq: "pos_state_new conf seed nodes committee pivot = Some (?S\<lparr>pst_epoch_state := \<lparr>es_epoch = 0, es_verifier = vv, es_vrf_seed = sd\<rparr>\<rparr>)"
    using vv(1) unfolding pos_state_new_def Let_def nm(1) bind.bind_lunit first_terms_0 [OF wf]
      initial_terms_eq [OF wf U, of seed ?m] e by simp
  moreover have "pos_inv conf C V B (?S\<lparr>pst_epoch_state := \<lparr>es_epoch = 0, es_verifier = vv, es_vrf_seed = sd\<rparr>\<rparr>)"
    unfolding pos_inv_def pos_ok_def
    using at_view_0 [OF wf] tl nm(3) vv(2,3) by (auto simp: epoch_ok_def epoch_number_def intro: node_ok_any)
  ultimately show ?thesis by auto
qed

section \<open>Runs\<close>

text \<open>The calls that change the state, with the arguments a block or a commit passes.\<close>

datatype pos_op =
    DoRegister node_id
  | DoIncrease address nat
  | DoRetire address nat
  | DoForceRetire address
  | DoForfeit address
  | DoElect election_event
  | DoPivot pivot_block_decision
  | DoSkipped bool
  | DoEvict
  | DoNextView

fun pos_step :: "(hash \<Rightarrow> nat \<Rightarrow> hash) \<Rightarrow> pos_state_config \<Rightarrow> pos_op \<Rightarrow> pos_state \<Rightarrow> pos_state option" where
  "pos_step vrf_number conf (DoRegister i) S = Some (fst (register_node i S))"
| "pos_step vrf_number conf (DoIncrease a n) S = map_option fst (update_voting_power conf a n S)"
| "pos_step vrf_number conf (DoRetire a n) S = map_option fst (retire_node conf a n S)"
| "pos_step vrf_number conf (DoForceRetire a) S = map_option fst (force_retire_node conf a S)"
| "pos_step vrf_number conf (DoForfeit a) S = map_option fst (forfeit_node conf a S)"
| "pos_step vrf_number conf (DoElect e) S = map_option fst (pst_new_node_elected vrf_number conf e S)"
| "pos_step vrf_number conf (DoPivot p) S = Some (set_pivot_decision p S)"
| "pos_step vrf_number conf (DoSkipped b) S = Some (set_skipped b S)"
| "pos_step vrf_number conf DoEvict S = Some (fst (next_evicted_term S))"
| "pos_step vrf_number conf DoNextView S = map_option fst (next_view conf S)"

fun op_minted :: "pos_op \<Rightarrow> nat" where
  "op_minted (DoIncrease a n) = n"
| "op_minted _ = 0"

text \<open>An election event reaches the state only after its validation; views stay below \<open>V\<close>.\<close>

fun op_allowed :: "view \<Rightarrow> pos_op \<Rightarrow> pos_state \<Rightarrow> bool" where
  "op_allowed V (DoElect e) S \<longleftrightarrow> ni_addr (ee_node_id e) \<in> dom (pst_node_map S) \<and>
     electing_term_number (pst_term_list S) = Some (ee_start_term e)"
| "op_allowed V DoNextView S \<longleftrightarrow> pst_current_view S < V"
| "op_allowed V _ S \<longleftrightarrow> True"

text \<open>\<open>m\<close> counts the votes staked so far, \<open>B\<close> those a node has at the genesis.\<close>

inductive pos_reach ::
  "(hash \<Rightarrow> nat \<Rightarrow> hash) \<Rightarrow> pos_state_config \<Rightarrow> view \<Rightarrow> nat \<Rightarrow> pos_state \<Rightarrow> pos_state \<Rightarrow> nat \<Rightarrow> bool"
  for vrf_number conf V B S0 where
  reach_init: "pos_reach vrf_number conf V B S0 S0 B"
| reach_step: "pos_reach vrf_number conf V B S0 S m \<Longrightarrow> op_allowed V op S \<Longrightarrow> m + op_minted op \<le> U64_MAX \<Longrightarrow>
    pos_step vrf_number conf op S = Some S' \<Longrightarrow> pos_reach vrf_number conf V B S0 S' (m + op_minted op)"

text \<open>One step: it is defined and keeps the invariant.\<close>

lemma pos_inv_same_epoch:
  assumes "pos_inv conf C V B S" and "pos_ok conf C V B' S'" and "pst_current_view S' = pst_current_view S"
    and "pst_epoch_state S' = pst_epoch_state S"
  shows "pos_inv conf C V B' S'"
  using assms by (simp add: pos_inv_def)

lemma pos_step_ok:
  assumes inv: "pos_inv conf C V B S" and cfg: "pos_config_ok conf C V" and B: "B + op_minted op \<le> U64_MAX"
    and op: "op_allowed V op S"
  shows "\<exists>S'. pos_step vrf_number conf op S = Some S' \<and> pos_inv conf C V (B + op_minted op) S'"
proof -
  have ok: "pos_ok conf C V B S" and B0: "B \<le> U64_MAX" using inv B by (auto simp: pos_inv_def)
  note same = pos_inv_same_epoch [OF inv]
  show ?thesis
  proof (cases op)
    case (DoRegister i)
    have "pst_current_view (fst (register_node i S)) = pst_current_view S" "pst_epoch_state (fst (register_node i S)) = pst_epoch_state S"
      by (simp_all add: register_node_def)
    then show ?thesis using DoRegister same [OF register_node_ok [OF ok]] by simp
  next
    case (DoIncrease a n)
    then show ?thesis using update_voting_power_ok [OF ok cfg, of n a] B same by auto
  next
    case (DoRetire a n)
    then show ?thesis using retire_node_ok [OF ok cfg B0, of a n] same by auto
  next
    case (DoForceRetire a)
    then show ?thesis using force_retire_node_ok [OF ok cfg B0, of a] same by auto
  next
    case (DoForfeit a)
    then show ?thesis using forfeit_node_ok [OF ok cfg B0, of a] same by auto
  next
    case (DoElect e)
    then show ?thesis using pst_new_node_elected_ok [OF ok cfg, of e vrf_number] op same by auto
  next
    case DoNextView
    then show ?thesis using next_view_ok [OF inv cfg _ B0] op by auto
  qed (use pos_ok_other_fields [OF ok] inv in \<open>auto simp: pos_inv_def set_pivot_decision_def set_skipped_def next_evicted_term_def\<close>)
qed

lemma pos_reach_inv:
  assumes "pos_reach vrf_number conf V B S0 S m" and "pos_config_ok conf C V" and "genesis_ok C B nodes committee"
    and "B \<le> U64_MAX" and "pos_state_new conf seed nodes committee pivot = Some S0"
  shows "pos_inv conf C V m S \<and> m \<le> U64_MAX"
  using assms(1)
proof induction
  case reach_init
  then show ?case using genesis_inv [OF assms(2,3,4), of seed pivot] assms(4,5) by simp
next
  case (reach_step S m op S')
  then show ?case using pos_step_ok [OF _ assms(2) _ reach_step.hyps(2), of m vrf_number] by fastforce
qed

end
