(* ===== verification/Pos_Election.thy ===== *)
theory Pos_Election
  imports Pos_Run
begin

text \<open>
  The election of committee members: the window in which a term is open, what the validation of an
  election transaction guarantees, and which candidates an election keeps.
\<close>

section \<open>The election window\<close>

text \<open>The term a view is electing for, by its position.\<close>

definition open_term :: "pos_state_config \<Rightarrow> nat \<Rightarrow> nat \<Rightarrow> nat" where
  "open_term conf t k = (if round_per_term conf (term_start conf t) div 2 \<le> k then t + 2 else t + 1)"

definition elections_started :: "pos_state_config \<Rightarrow> nat \<Rightarrow> nat \<Rightarrow> bool" where
  "elections_started conf t k \<longleftrightarrow> 6 \<le> open_term conf t k"

lemma open_term_electing:
  assumes "elections_started conf t k"
  shows "t - 5 + electing_at conf t k = open_term conf t k"
  using assms by (auto simp: elections_started_def open_term_def electing_at_def split: if_splits)

lemma term_length_mono:
  assumes "config_wf conf" and "c_round_per_term conf \<le> c_cip136_round_per_term conf" and "v \<le> w"
  shows "round_per_term conf v \<le> round_per_term conf w"
  using assms by (simp add: round_per_term_def)

text \<open>If terms do not get shorter, no term but the open one starts inside the window.\<close>

lemma election_window:
  assumes wf: "config_wf conf" and le: "c_round_per_term conf \<le> c_cip136_round_per_term conf" and at: "at_view conf v t k"
    and R: "R = round_per_term conf (term_start conf t)"
    and w: "v + R div 2 < term_start conf n" "term_start conf n \<le> v + 3 * (R div 2)"
  shows "n = open_term conf t k"
proof -
  have v: "v = term_start conf t + k" "k < R" and ev: "even R"
    using at R round_per_term_pos [OF wf] by (auto simp: at_view_def)
  note mono = strict_mono_less_eq [OF term_start_mono [OF wf]]
  have s1: "term_start conf (t + 1) = term_start conf t + R"
    using term_start_Suc [OF wf, of t] R by simp
  let ?R1 = "round_per_term conf (term_start conf (t + 1))" and ?R2 = "round_per_term conf (term_start conf (t + 2))"
  have s2: "term_start conf (t + 2) = term_start conf t + R + ?R1" and s3: "term_start conf (t + 3) = term_start conf t + R + ?R1 + ?R2"
    using term_start_Suc [OF wf, of "t + 1"] term_start_Suc [OF wf, of "t + 2"] s1 by (simp_all add: numeral_2_eq_2 numeral_3_eq_3)
  have R1: "R \<le> ?R1" "R \<le> ?R2"
    unfolding R by (rule term_length_mono [OF wf le]; simp add: mono)+
  have half: "2 * (R div 2) = R" using ev by simp
  consider "n \<le> t" | "n = t + 1" | "n = t + 2" | "t + 3 \<le> n" by linarith
  then show ?thesis
  proof cases
    case 1
    then show ?thesis using w(1) v mono [of n t] by simp
  next
    case 2
    then show ?thesis using w(1) v s1 half R by (simp add: open_term_def)
  next
    case 3
    then have "R + ?R1 \<le> k + 3 * (R div 2)" using w(2) v s2 by simp
    then show ?thesis using 3 R1(1) half R by (simp add: open_term_def)
  next
    case 4
    then have "term_start conf (t + 3) \<le> v + 3 * (R div 2)" using w(2) mono [of "t + 3" n] by simp
    then show ?thesis using R1 v s3 half by simp
  qed
qed

lemma open_term_later:
  assumes wf: "config_wf conf" and le: "c_round_per_term conf \<le> c_cip136_round_per_term conf" and at: "at_view conf v t k"
  shows "v + round_per_term conf (term_start conf t) div 2 < term_start conf (open_term conf t k)"
proof -
  let ?R = "round_per_term conf (term_start conf t)"
  have v: "v = term_start conf t + k" "k < ?R" and R: "2 * (?R div 2) = ?R" "0 < ?R"
    using at round_per_term_pos [OF wf, of "term_start conf t"] by (auto simp: at_view_def)
  have "?R \<le> round_per_term conf (term_start conf (Suc t))"
    by (rule term_length_mono [OF wf le]) (simp add: strict_mono_less_eq [OF term_start_mono [OF wf]])
  then show ?thesis
    using v R by (auto simp: open_term_def term_start_Suc [OF wf])
qed

section \<open>Validation\<close>

text \<open>What the validation has to establish about the sender of an election transaction.\<close>

definition eligible ::
  "(public_key \<Rightarrow> vrf_public_key \<Rightarrow> address) \<Rightarrow> (vrf_public_key \<Rightarrow> bytes \<Rightarrow> vrf_proof \<Rightarrow> bool) \<Rightarrow>
     election_payload \<Rightarrow> pos_state \<Rightarrow> bool" where
  "eligible addr_of vrf_verify tx S \<longleftrightarrow>
     (\<exists>node key d n. let a = addr_of (el_public_key tx) (el_vrf_public_key tx) in
        pst_node_map S a = Some node \<and> nd_vrf_public_key node = Some key \<and>
        electing_term_number (pst_term_list S) = Some (el_target_term tx) \<and> electing_term (pst_term_list S) = Some d \<and>
        vrf_verify key (td_seed d) (el_vrf_proof tx) \<and> has_elected a (td_node_list d) = Some False \<and>
        tl_serving_votes (tl_electing_index (pst_term_list S)) a (pst_term_list S) = Some n \<and>
        n < available_votes (nd_lock_status node))"

lemma electing_facts:
  assumes "pos_ok conf C V B S" and cfg: "pos_config_ok conf C V" and at: "at_view conf (pst_current_view S) t k"
  obtains d eh n where "electing_term (pst_term_list S) = Some d" and "td_node_list d = Electing eh"
    and "electing_term_number (pst_term_list S) = Some (t - 5 + electing_at conf t k)"
    and "start_term (pst_term_list S) = t - 5" and "tl_electing_index (pst_term_list S) = electing_at conf t k"
    and "tl_serving_votes (electing_at conf t k) a (pst_term_list S) = Some n"
    and "pst_current_view S + 2 * (c_round_per_term conf + c_cip136_round_per_term conf) \<le> U64_MAX"
proof -
  have wf: "config_wf conf" and C: "6 * C \<le> U64_MAX"
    and v: "pst_current_view S + 2 * (c_round_per_term conf + c_cip136_round_per_term conf) \<le> U64_MAX"
    using assms by (auto simp: pos_config_ok_def pos_ok_def)
  obtain t0 k0 where t0: "at_view conf (pst_current_view S) t0 k0" "term_list_ok conf C (dom (pst_node_map S)) t0 k0 (pst_term_list S)"
      "t0 \<le> U64_MAX - 10"
    by (rule pos_ok_term [OF assms(1,2)]) (rule that; assumption)
  have "t0 = t \<and> k0 = k" using at_view_unique [OF wf at t0(1)] v by simp
  then have t: "term_list_ok conf C (dom (pst_node_map S)) t k (pst_term_list S)" "t \<le> U64_MAX - 10" using t0 by auto
  obtain d eh where d: "electing_term (pst_term_list S) = Some d" "td_node_list d = Electing eh"
    using electing_term_ok [OF t(1)] by metis
  obtain n where n: "tl_serving_votes (electing_at conf t k) a (pst_term_list S) = Some n"
    using serving_votes_defined [OF t(1) C refl] by blast
  have i: "start_term (pst_term_list S) = t - 5" "tl_electing_index (pst_term_list S) = electing_at conf t k"
    using t(1) by (auto simp: term_list_ok_def start_term_def TERM_LIST_LEN_def)
  then have "electing_term_number (pst_term_list S) = Some (t - 5 + electing_at conf t k)"
    using t(2) electing_at_range [of conf t k] by (auto simp: electing_term_number_def add64_def U64_MAX_def)
  with d n i v show ?thesis by (intro that)
qed

lemma window_rounds:
  assumes "config_wf conf" and "at_view conf v t k" and "v + 2 * (c_round_per_term conf + c_cip136_round_per_term conf) \<le> U64_MAX"
  shows "\<exists>s. election_term_start_round conf v = Some s \<and> add64 v s = Some (v + 3 * (round_per_term conf (term_start conf t) div 2))"
    and "add64 v (election_term_end_round conf v) = Some (v + round_per_term conf (term_start conf t) div 2)"
proof -
  have R: "round_per_term conf v = round_per_term conf (term_start conf t)"
    using at_view_term(2) [OF assms(1,2)] assms(3) by simp
  have "round_per_term conf v \<le> c_round_per_term conf + c_cip136_round_per_term conf"
    by (simp add: round_per_term_def)
  moreover have "3 * (x div 2) \<le> 2 * x" for x :: nat by presburger
  ultimately have "v + 3 * (round_per_term conf v div 2) \<le> U64_MAX"
    using assms(3) by (meson add_le_mono le_trans mult_le_mono2 order_refl)
  then show "\<exists>s. election_term_start_round conf v = Some s \<and> add64 v s = Some (v + 3 * (round_per_term conf (term_start conf t) div 2))"
      "add64 v (election_term_end_round conf v) = Some (v + round_per_term conf (term_start conf t) div 2)"
    by (auto simp: election_term_start_round_def election_term_end_round_def add64_def mul64_def R)
qed

lemma starting_view_cases:
  assumes "config_wf conf" and "get_starting_view_for_term conf n \<noteq> None"
  obtains "get_starting_view_for_term conf n = Some None" | "get_starting_view_for_term conf n = Some (Some (term_start conf n))"
proof (cases "term_start conf n \<le> U64_MAX")
  case True
  then show ?thesis using that(2) starting_view_eq [OF assms(1)] by simp
next
  case False
  let ?R = "c_round_per_term conf" and ?V = "c_cip136_transition_view conf"
  have R: "0 < ?R" "?V \<le> U64_MAX" using assms(1) by (auto simp: config_wf_def)
  have "n * ?R \<le> ?V" if "n < ?V div ?R"
    using that by (meson div_times_less_eq_dividend le_trans less_imp_le mult_le_mono1)
  then have n: "\<not> n < ?V div ?R" "U64_MAX < ?V + (n - ?V div ?R) * c_cip136_round_per_term conf"
    using False R(2) by (auto simp: term_start_def Let_def split: if_splits)
  then have "get_starting_view_for_term conf n = Some None"
    using assms(2) R(1) by (auto simp: get_starting_view_for_term_def div64_def sub64_def mul64_def add64_def split: if_splits)
  then show ?thesis by (rule that(1))
qed

lemma validate_election_outcome:
  assumes ok: "pos_ok conf C V B S" and cfg: "pos_config_ok conf C V" and le: "c_round_per_term conf \<le> c_cip136_round_per_term conf"
    and at: "at_view conf (pst_current_view S) t k" and started: "elections_started conf t k"
    and start: "get_starting_view_for_term conf (el_target_term tx) \<noteq> None"
  shows "\<exists>r. validate_election addr_of vrf_verify conf tx S = Some r \<and> 
    (r = Inr () \<longleftrightarrow> eligible addr_of vrf_verify tx S \<and>
       term_start conf (el_target_term tx) \<le> pst_current_view S + 3 * (round_per_term conf (pst_current_view S) div 2))"
proof -
  let ?a = "addr_of (el_public_key tx) (el_vrf_public_key tx)" and ?v = "pst_current_view S" and ?T = "el_target_term tx"
  let ?R = "round_per_term conf (term_start conf t)" and ?i = "electing_at conf t k"
  have wf: "config_wf conf" using cfg by (simp add: pos_config_ok_def)
  obtain d eh n where e: "electing_term (pst_term_list S) = Some d" "td_node_list d = Electing eh"
      "electing_term_number (pst_term_list S) = Some (t - 5 + ?i)" "start_term (pst_term_list S) = t - 5"
      "tl_electing_index (pst_term_list S) = ?i" "tl_serving_votes ?i ?a (pst_term_list S) = Some n"
      "?v + 2 * (c_round_per_term conf + c_cip136_round_per_term conf) \<le> U64_MAX"
    by (rule electing_facts [OF ok cfg at]) (rule that; assumption)
  obtain s where w: "election_term_start_round conf ?v = Some s" "add64 ?v s = Some (?v + 3 * (?R div 2))"
      "add64 ?v (election_term_end_round conf ?v) = Some (?v + ?R div 2)"
    using window_rounds [OF wf at e(7)] by blast
  have R: "round_per_term conf ?v = ?R" using at_view_term(2) [OF wf at] e(7) by simp
  note op = open_term_electing [OF started]
  show ?thesis
  proof (cases "pst_node_map S ?a")
    case None
    then show ?thesis by (simp add: validate_election_def eligible_def node_id_new_def Let_def)
  next
    case (Some node)
    obtain key where key: "nd_vrf_public_key node = Some key"
      using ok Some unfolding pos_ok_def by blast
    have el: "eligible addr_of vrf_verify tx S \<longleftrightarrow> ?T = open_term conf t k \<and> vrf_verify key (td_seed d) (el_vrf_proof tx) \<and>
        ?a \<notin> set (eh_addresses eh) \<and> n < available_votes (nd_lock_status node)"
      using Some key e op by (auto simp: eligible_def has_elected_def Let_def)
    consider (1) "get_starting_view_for_term conf ?T = Some None" | (2) "get_starting_view_for_term conf ?T = Some (Some (term_start conf ?T))"
      using starting_view_cases [OF wf start] by metis
    then show ?thesis
    proof cases
      case 1
      then have "\<not> term_start conf ?T \<le> U64_MAX" using starting_view_eq [OF wf, of ?T] by auto
      then have "\<not> term_start conf ?T \<le> ?v + 3 * (?R div 2)"
        using w(2) by (auto simp: add64_def split: if_splits)
      then show ?thesis
        using 1 Some R by (auto simp: validate_election_def node_id_new_def Let_def)
    next
      case 2
      show ?thesis
      proof (cases "?v + ?R div 2 < term_start conf ?T \<and> term_start conf ?T \<le> ?v + 3 * (?R div 2)")
        case True
        then have T: "?T = open_term conf t k" using election_window [OF wf le at refl] by blast
        then have "sub64 ?T (t - 5) = Some ?i" using op by (simp add: sub64_def)
        then show ?thesis
          unfolding el using 2 Some key T True w e R
          by (auto simp: validate_election_def node_id_new_def Let_def has_elected_def)
      next
        case False
        have "\<not> (term_start conf ?T \<le> ?v + 3 * (?R div 2) \<and> ?T = open_term conf t k)"
          using False open_term_later [OF wf le at] by auto
        then show ?thesis
          unfolding el using 2 Some False w R by (auto simp: validate_election_def node_id_new_def Let_def)
      qed
    qed
  qed
qed

end
