(* ===== verification/Pos_Props.thy ===== *)
theory Pos_Props
  imports Pos_Election
begin

text \<open>
  The properties of the proof-of-stake state machine, with a small chain on which they are instantiated.
\<close>

section \<open>A small chain\<close>

definition ex_conf :: pos_state_config where
  "ex_conf = default_config\<lparr>c_cip136_transition_view := 600, c_cip136_round_per_term := 120\<rparr>"

definition ex_node :: "nat \<Rightarrow> node_id" where
  "ex_node i = \<lparr>ni_public_key = i, ni_vrf_public_key = 10 + i, ni_addr = 100 + i\<rparr>"

definition ex_genesis :: pos_state where
  "ex_genesis = the (pos_state_new ex_conf [7] [(ex_node 1, 20), (ex_node 2, 30)] [(101, 20), (102, 30)]
     \<lparr>pd_height = 0, pd_block_hash = [1]\<rparr>)"

lemma ex_config_ok: "pos_config_ok ex_conf 50 1000"
  by (simp add: pos_config_ok_def config_wf_def locks_positive_def max_locked_views_def ex_conf_def default_config_def
      ROUND_PER_TERM_def TERM_LIST_LEN_def TERM_MAX_SIZE_def TERM_ELECTED_SIZE_def IN_QUEUE_LOCKED_VIEWS_def
      OUT_QUEUE_LOCKED_VIEWS_def U64_MAX_def term_max_size_def term_elected_size_def)

lemma ex_genesis_ok: "genesis_ok 50 30 [(ex_node 1, 20), (ex_node 2, 30)] [(101, 20), (102, 30)]"
  by (simp add: genesis_ok_def ex_node_def)

lemma ex_genesis_new:
  "pos_state_new ex_conf [7] [(ex_node 1, 20), (ex_node 2, 30)] [(101, 20), (102, 30)]
     \<lparr>pd_height = 0, pd_block_hash = [1]\<rparr> = Some ex_genesis"
  "pos_inv ex_conf 50 1000 30 ex_genesis" "pst_current_view ex_genesis = 0"
  using genesis_inv [OF ex_config_ok ex_genesis_ok, of "[7]" "\<lparr>pd_height = 0, pd_block_hash = [1]\<rparr>"]
  by (auto simp: ex_genesis_def U64_MAX_def)

section \<open>No call panics\<close>



section \<open>Epochs\<close>

text \<open>
  C18. In every reachable state the epoch is the one of the current term: epoch 0 at the genesis and term plus
  one afterwards, and its committee is well formed: the cached total power is the sum of the powers, a
  quorum is two thirds of it plus one, and the total does not exceed the votes of six elections.
\<close>

theorem epoch_follows_term:
  assumes "pos_config_ok conf C V" and "genesis_ok C B nodes committee" and "B \<le> U64_MAX"
    and "pos_state_new conf seed nodes committee pivot = Some S0" and "pos_reach vrf_number conf V B S0 S m"
  shows "\<exists>t k. get_term_view conf (pst_current_view S) = Some (t, k) \<and>
    es_epoch (pst_epoch_state S) = (if pst_current_view S = 0 then 0 else t + 1) \<and>
    verifier_ok (es_verifier (pst_epoch_state S)) \<and> vv_total_voting_power (es_verifier (pst_epoch_state S)) \<le> 6 * C"
proof -
  have inv: "pos_inv conf C V m S" using pos_reach_inv [OF assms(5,1-4)] by simp
  then obtain t k where t: "at_view conf (pst_current_view S) t k" "es_epoch (pst_epoch_state S) = epoch_number t (pst_current_view S)"
    by (auto simp: pos_inv_def)
  have "pst_current_view S \<le> U64_MAX" "config_wf conf"
    using inv assms(1) by (auto simp: pos_inv_def pos_ok_def pos_config_ok_def)
  then show ?thesis
    using at_view_term(1) [OF _ t(1)] t(2) inv by (auto simp: pos_inv_def epoch_ok_def epoch_number_def)
qed

theorem epoch_follows_term_witness:
  "\<exists>t k. get_term_view ex_conf (pst_current_view ex_genesis) = Some (t, k) \<and>
    es_epoch (pst_epoch_state ex_genesis) = (if pst_current_view ex_genesis = 0 then 0 else t + 1) \<and>
    verifier_ok (es_verifier (pst_epoch_state ex_genesis)) \<and> vv_total_voting_power (es_verifier (pst_epoch_state ex_genesis)) \<le> 6 * 50"
  using epoch_follows_term [OF ex_config_ok ex_genesis_ok _ ex_genesis_new(1) reach_init]
  by (simp add: U64_MAX_def)

fun next_views :: "pos_state_config \<Rightarrow> nat \<Rightarrow> pos_state \<Rightarrow> pos_state option" where
  "next_views conf 0 S = Some S"
| "next_views conf (Suc n) S = Option.bind (next_view conf S) (\<lambda>(S', _). next_views conf n S')"

lemma next_views_ok:
  assumes "pos_inv conf C V B S" and "pos_config_ok conf C V" and "B \<le> U64_MAX" and "pst_current_view S + n \<le> V"
  shows "\<exists>S'. next_views conf n S = Some S' \<and> pos_inv conf C V B S' \<and> pst_current_view S' = pst_current_view S + n"
  using assms(1,4)
proof (induction n arbitrary: S)
  case (Suc n)
  obtain S1 e where "next_view conf S = Some (S1, e)" "pos_inv conf C V B S1" "pst_current_view S1 = Suc (pst_current_view S)"
    using next_view_ok [OF Suc.prems(1) assms(2) _ assms(3)] Suc.prems(2) by auto
  then show ?case using Suc.IH [of S1] Suc.prems(2) by auto
qed simp

lemma inv_epoch:
  assumes "pos_inv conf C V B S" and "pos_config_ok conf C V" and "at_view conf (pst_current_view S) t k"
  shows "es_epoch (pst_epoch_state S) = epoch_number t (pst_current_view S)"
proof -
  obtain t0 k0 where "at_view conf (pst_current_view S) t0 k0" "es_epoch (pst_epoch_state S) = epoch_number t0 (pst_current_view S)"
    using assms(1) unfolding pos_inv_def by blast
  moreover have "pst_current_view S \<le> U64_MAX" "config_wf conf"
    using assms(1,2) by (auto simp: pos_inv_def pos_ok_def pos_config_ok_def)
  ultimately show ?thesis using at_view_unique [OF _ assms(3)] by blast
qed

text \<open>
  C21. Epochs keep coming: from every reachable state, passing at most one term of views starts the next epoch.
\<close>

theorem next_epoch_starts:
  assumes "pos_config_ok conf C V" and "genesis_ok C B nodes committee" and "B \<le> U64_MAX"
    and "pos_state_new conf seed nodes committee pivot = Some S0" and "pos_reach vrf_number conf V B S0 S m"
    and "pst_current_view S + round_per_term conf (pst_current_view S) \<le> V"
  shows "\<exists>n S'. n \<le> round_per_term conf (pst_current_view S) \<and> next_views conf n S = Some S' \<and>
    es_epoch (pst_epoch_state S') = es_epoch (pst_epoch_state S) + 1"
proof -
  let ?v = "pst_current_view S"
  have inv: "pos_inv conf C V m S" "m \<le> U64_MAX" and wf: "config_wf conf"
    using pos_reach_inv [OF assms(5,1-4)] assms(1) by (auto simp: pos_config_ok_def)
  then obtain t k where t: "at_view conf ?v t k" unfolding pos_inv_def by blast
  have R: "round_per_term conf ?v = round_per_term conf (term_start conf t)" "0 < round_per_term conf ?v"
    using at_view_term(2) [OF wf t] inv(1) assms(1) round_per_term_pos(1) [OF wf, of ?v]
    by (auto simp: pos_inv_def pos_ok_def pos_config_ok_def)
  define n where "n = (if ?v = 0 then 1 else round_per_term conf ?v - k)"
  have n: "n \<le> round_per_term conf ?v" "?v + n \<le> V" using R(2) assms(6) by (auto simp: n_def)
  obtain S' where S': "next_views conf n S = Some S'" "pos_inv conf C V m S'" "pst_current_view S' = ?v + n"
    using next_views_ok [OF inv(1) assms(1) inv(2) n(2)] by blast
  obtain t' k' where t': "at_view conf (?v + n) t' k'" "epoch_number t' (?v + n) = epoch_number t ?v + 1"
  proof (cases "?v = 0")
    case True
    have "even (round_per_term conf 0)" "0 < round_per_term conf 0" "round_per_term conf (term_start conf 0) = round_per_term conf 0"
      using round_per_term_pos [OF wf, of 0] by (auto simp: wf)
    then have "at_view conf 1 0 1" by (auto simp: at_view_def wf elim!: evenE)
    then show ?thesis using that [of 0 1] True by (simp add: n_def epoch_number_def)
  next
    case False
    have "at_view conf (?v + n) (Suc t) 0"
      using t R False round_per_term_pos(1) [OF wf, of "term_start conf (Suc t)"]
      by (auto simp: at_view_def n_def term_start_Suc [OF wf])
    then show ?thesis using that [of "Suc t" 0] False by (simp add: epoch_number_def)
  qed
  show ?thesis
    using S'(1) n(1) inv_epoch [OF inv(1) assms(1) t] inv_epoch [OF S'(2) assms(1), of t' k'] t' S'(3) by auto
qed

theorem next_epoch_starts_witness:
  "\<exists>n S'. n \<le> 60 \<and> next_views ex_conf n ex_genesis = Some S' \<and>
    es_epoch (pst_epoch_state S') = es_epoch (pst_epoch_state ex_genesis) + 1"
proof -
  have R: "round_per_term ex_conf 0 = 60"
    by (simp add: round_per_term_def ex_conf_def default_config_def ROUND_PER_TERM_def)
  show ?thesis
    using next_epoch_starts [OF ex_config_ok ex_genesis_ok _ ex_genesis_new(1) reach_init]
    by (simp add: U64_MAX_def ex_genesis_new(3) R)
qed

section \<open>The schedule of lock updates\<close>

lemma next_view_epoch_frame:
  "next_view_epoch conf S = Some (S', e) \<Longrightarrow> pst_node_map S' = pst_node_map S \<and> pst_unlock_event_hint S' = pst_unlock_event_hint S"
  by (auto simp: next_view_epoch_def option_bind_simps split: if_splits prod.splits)

lemma next_view_nodes:
  assumes "next_view conf S = Some (S', e)"
    and "update_hinted conf (Suc (pst_current_view S)) (case pst_node_map_hint S (Suc (pst_current_view S)) of None \<Rightarrow> [] | Some xs \<Rightarrow> xs)
      (pst_node_map S) [] = Some (nm', uh')"
  shows "pst_node_map S' = nm'" and "pst_unlock_event_hint S' = uh'"
  using assms
  by (auto simp: next_view_def add64_def option_bind_simps split: option.splits if_splits dest!: next_view_epoch_frame)



section \<open>Committees\<close>

lemma next_view_committee:
  assumes "next_view conf S = Some (S', Some es)" and "get_term_view conf (pst_current_view S + 1) = Some (t, k)"
  shows "\<exists>seed. get_committee_at (if pst_current_view S = 0 then 0 else t) (S\<lparr>pst_node_map := pst_node_map S'\<rparr>) = Some (es_verifier es, seed)"
    and "pst_current_view S = 0 \<or> k = 0"
proof -
  obtain S1 S2 where n: "next_view_epoch conf S1 = Some (S2, Some es)" "S' = S2\<lparr>pst_epoch_state := es\<rparr>"
      "pst_current_view S1 = pst_current_view S + 1" "pst_term_list S1 = pst_term_list S"
    using assms(1) by (auto simp: next_view_def option_bind_simps add64_def split: option.splits if_splits)
  have "get_committee_at i (S\<lparr>pst_node_map := pst_node_map S'\<rparr>) = get_committee_at i S1" for i
    using n(2,4) next_view_epoch_frame [OF n(1)] by (simp add: get_committee_at_def)
  then show "\<exists>seed. get_committee_at (if pst_current_view S = 0 then 0 else t) (S\<lparr>pst_node_map := pst_node_map S'\<rparr>) = Some (es_verifier es, seed)"
      "pst_current_view S = 0 \<or> k = 0"
    using n(1,3) assms(2) by (auto simp: next_view_epoch_def option_bind_simps split: if_splits prod.splits)
qed

lemma next_view_dom:
  assumes "pos_ok conf C V B S" and "pos_config_ok conf C V" and "B \<le> U64_MAX" and "pst_current_view S < V"
    and "next_view conf S = Some (S', e)"
  shows "dom (pst_node_map S') = dom (pst_node_map S)"
  by (rule scheduled_nodes [OF assms(1,2) refl Suc_leI [OF assms(4)] assms(3) refl])
    (simp add: next_view_nodes [OF assms(5)])

definition available_at :: "pos_state \<Rightarrow> address \<Rightarrow> nat" where
  "available_at S a = (case pst_node_map S a of None \<Rightarrow> 0 | Some node \<Rightarrow> available_votes (nd_lock_status node))"

text \<open>
  C19. The committee of a new epoch: the power of a member is the number of votes it won in the six
  elections of the committee, capped by the votes it still has available when the epoch starts; so nodes
  that have retired or were forfeited lose their power.
\<close>

theorem committee_powers:
  assumes "pos_config_ok conf C V" and "genesis_ok C B nodes committee" and "B \<le> U64_MAX"
    and "pos_state_new conf seed nodes committee pivot = Some S0" and "pos_reach vrf_number conf V B S0 S m"
    and "pst_current_view S < V" and "next_view conf S = Some (S', Some es)"
    and "get_term_view conf (pst_current_view S + 1) = Some (t, k)"
  shows "\<exists>ts. committee_for_term (if pst_current_view S = 0 then 0 else t) (pst_term_list S) = Some ts \<and> length ts = 6 \<and>
    (\<forall>a. power_of (es_verifier es) a = min (served_votes ts a) (available_at S' a))"
proof -
  let ?v = "pst_current_view S" and ?n = "if pst_current_view S = 0 then 0 else t"
  have wf: "config_wf conf" and C: "12 * C \<le> U64_MAX" using assms(1) by (auto simp: pos_config_ok_def)
  have ok: "pos_ok conf C V m S" "m \<le> U64_MAX" using pos_reach_inv [OF assms(5,1-4)] by (auto simp: pos_inv_def)
  obtain t0 k0 where t0: "at_view conf ?v t0 k0" "term_list_ok conf C (dom (pst_node_map S)) t0 k0 (pst_term_list S)"
      "t0 \<le> U64_MAX - 10" "?v < U64_MAX"
    by (rule pos_ok_term [OF ok(1) assms(1)]) (rule that; assumption)
  obtain sd where sd: "get_committee_at ?n (S\<lparr>pst_node_map := pst_node_map S'\<rparr>) = Some (es_verifier es, sd)" "?v = 0 \<or> k = 0"
    using next_view_committee [OF assms(7,8)] by blast
  have R: "0 < round_per_term conf (term_start conf t0)" using round_per_term_pos(1) [OF wf, of "term_start conf t0"] by simp
  have win: "?n \<le> t0 \<and> ?n \<le> 5 \<and> t0 \<le> 5 \<or> ?n = Suc t0 \<and> t0 < 5 \<or> ?n = Suc t0 \<and> electing_at conf t0 k0 = 7"
  proof (cases "?v = 0")
    case True
    then show ?thesis using at_view_unique [OF wf at_view_0 [OF wf], of t0 k0] t0(1) by simp
  next
    case False
    then have "t = Suc t0 \<and> Suc k0 = round_per_term conf (term_start conf t0)"
      using at_view_Suc [OF wf t0(1)] at_view_term(1) [OF wf, of "Suc ?v"] t0(4) assms(8) sd(2) by fastforce
    then show ?thesis using False R by (auto simp: electing_at_def)
  qed
  obtain ts where ts: "committee_for_term ?n (pst_term_list S) = Some ts" "length ts = 6"
      "\<forall>d\<in>set ts. nl_ok conf C (dom (pst_node_map S)) (td_node_list d) \<and> is_elected (td_node_list d)"
    using committee_for_term_window [OF t0(2,3) win] by blast
  have "tl_term_list (pst_term_list S) \<noteq> []" using t0(2) by (auto simp: term_list_ok_def)
  then show ?thesis
    using get_committee_spec [of ?n "S\<lparr>pst_node_map := pst_node_map S'\<rparr>" ts conf C] ts C sd(1)
      next_view_dom [OF ok(1) assms(1) ok(2) assms(6,7)]
    by (intro exI [of _ ts]) (auto simp: available_at_def)
qed

theorem committee_powers_witness:
  "\<exists>S' es ts. next_view ex_conf ex_genesis = Some (S', Some es) \<and>
     committee_for_term 0 (pst_term_list ex_genesis) = Some ts \<and> length ts = 6 \<and>
     (\<forall>a. power_of (es_verifier es) a = min (served_votes ts a) (available_at S' a))"
proof -
  obtain S' e where n: "next_view ex_conf ex_genesis = Some (S', e)"
    using next_view_ok [OF ex_genesis_new(2) ex_config_ok] ex_genesis_new(3) by (auto simp: U64_MAX_def)
  then obtain es where "e = Some es"
    by (auto simp: next_view_def next_view_epoch_def ex_genesis_new(3) add64_def U64_MAX_def option_bind_simps
        split: option.splits if_splits prod.splits)
  moreover have "get_term_view ex_conf (pst_current_view ex_genesis + 1) = Some (0, 1)"
    by (simp add: ex_genesis_new(3) get_term_view_before ex_conf_def default_config_def ROUND_PER_TERM_def)
  ultimately show ?thesis
    using committee_powers [OF ex_config_ok ex_genesis_ok _ ex_genesis_new(1) reach_init _ n [unfolded \<open>e = Some es\<close>]] n
    by (simp add: U64_MAX_def ex_genesis_new(3))
qed

end
