(* ===== verification/Election_Props.thy ===== *)
theory Election_Props
  imports Pos_Props
begin

text \<open>
  Properties of elections: which candidates an election keeps and elects, when an election transaction is
  valid, and two ways in which the validation of an election transaction panics.
\<close>

section \<open>The result of an election\<close>

abbreviation run_election :: "pos_state_config \<Rightarrow> candidate list \<Rightarrow> electing_heap" where
  "run_election conf cs \<equiv> fold (\<lambda>c. heap_add_node conf (fst c) (snd c)) cs electing_heap_default"

text \<open>
  C22. An election keeps the candidates with the smallest random values, at most \<open>term_max_size\<close> of them,
  whatever the order in which they arrive. Of the kept ones it elects those with the greatest values,
  \<open>term_elected_size\<close> of them, one vote for each, and rewards all kept ones.
\<close>

theorem election_result:
  assumes "term_max_size conf \<le> U64_MAX"
  shows "\<exists>kept elected candy. eh_heap (run_election conf cs) = kept \<and>
    heap_finalize conf (run_election conf cs) = Some (elected, candy) \<and>
    mset kept \<subseteq># mset cs \<and> length kept = min (term_max_size conf) (length cs) \<and>
    (\<forall>c\<in>#mset kept. \<forall>d\<in>#mset cs - mset kept. fst c \<le> fst d) \<and> sorted_wrt (\<lambda>c d. fst d \<le> fst c) kept \<and>
    (\<forall>a. votes_of elected a = cand_votes a (take (max 1 (term_elected_size conf)) kept)) \<and>
    (\<forall>a. votes_of candy a = cand_votes a kept)"
proof -
  let ?eh = "run_election conf cs"
  have "cq.keeps (term_max_size conf) {#} []" by (rule cq.keeps_empty) (simp_all add: heap_ok_def)
  from cq.offers_keep [OF this, of cs] have k: "cq.keeps (term_max_size conf) (mset cs) (eh_heap ?eh)"
    by (simp add: fold_heap_add electing_heap_default_def)
  then have len: "length (eh_heap ?eh) = min (term_max_size conf) (length cs)"
    by (simp add: cq.keeps_def)
  then obtain elected candy where f: "heap_finalize conf ?eh = Some (elected, candy)"
    using heap_finalize_defined [of ?eh conf] assms by fastforce
  note s = heap_finalize_spec [OF f]
  have "sorted_wrt (\<lambda>c d. fst d \<le> fst c) (eh_heap ?eh)"
    using k sorted_wrt_mono_rel [of "eh_heap ?eh" "\<lambda>a b. \<not> cand_before a b" "\<lambda>c d. fst d \<le> fst c"] cand_before_rank
    by (auto simp: cq.keeps_def heap_ok_def)
  moreover have "take (top_count (term_elected_size conf) (length (eh_heap ?eh))) (eh_heap ?eh) =
      take (max 1 (term_elected_size conf)) (eh_heap ?eh)"
    by (simp add: top_count_def min_def)
  ultimately show ?thesis
    using k len f s(4,6) by (auto simp: cq.keeps_def)
qed

definition ex_candidates :: "candidate list" where
  "ex_candidates = map (\<lambda>(h, i). (h, \<lparr>ei_node_id = ex_node i, ei_nonce = 0\<rparr>)) [(5, 1), (3, 2), (9, 1)]"

theorem election_result_witness:
  "\<exists>kept elected candy. eh_heap (run_election (ex_conf\<lparr>c_term_max_size := 2, c_term_elected_size := 1\<rparr>) ex_candidates) = kept \<and>
     heap_finalize (ex_conf\<lparr>c_term_max_size := 2, c_term_elected_size := 1\<rparr>)
       (run_election (ex_conf\<lparr>c_term_max_size := 2, c_term_elected_size := 1\<rparr>) ex_candidates) = Some (elected, candy) \<and>
     length kept = 2 \<and> votes_of elected 101 = 1 \<and> votes_of elected 102 = 0 \<and> votes_of candy 102 = 1"
  using election_result [of "ex_conf\<lparr>c_term_max_size := 2, c_term_elected_size := 1\<rparr>" ex_candidates]
  by (auto simp: term_max_size_def term_elected_size_def U64_MAX_def ex_candidates_def ex_node_def electing_heap_default_def
      heap_add_node_def cand_before_def cand_votes_def cand_addr_def hs_insert_def)

lemma genesis_node_map:
  "pos_state_new conf seed nodes committee pivot = Some S \<Longrightarrow> initial_node_map conf nodes Map.empty = Some (pst_node_map S)"
  by (auto simp: pos_state_new_def Let_def option_bind_simps)

lemma ex_genesis_node:
  "\<exists>node. pst_node_map ex_genesis 101 = Some node \<and> available_votes (nd_lock_status node) = 20"
proof -
  have "pst_node_map ex_genesis 101 = the (initial_node_map ex_conf [(ex_node 1, 20), (ex_node 2, 30)] Map.empty) 101"
    using genesis_node_map [OF ex_genesis_new(1)] by simp
  then show ?thesis
    by (simp add: new_lock_def node_lock_status_default_def add64_def U64_MAX_def ex_node_def available_votes_def)
qed

section \<open>Validation of election transactions\<close>


lemma reach_next_views:
  assumes "pos_reach vrf_number conf V B S0 S m" and "next_views conf n S = Some S'" and "pst_current_view S + n \<le> V"
    and "m \<le> U64_MAX" and "\<And>S S' e. next_view conf S = Some (S', e) \<Longrightarrow> pst_current_view S' = pst_current_view S + 1"
  shows "pos_reach vrf_number conf V B S0 S' m"
  using assms(1-3)
proof (induction n arbitrary: S)
  case (Suc n)
  then obtain S1 e where n: "next_view conf S = Some (S1, e)" "next_views conf n S1 = Some S'"
    by (auto simp: option_bind_simps)
  then have "pos_reach vrf_number conf V B S0 S1 m"
    using reach_step [OF Suc.prems(1), of DoNextView] Suc.prems(3) assms(4) by auto
  then show ?case using Suc.IH [OF _ n(2)] Suc.prems(3) assms(5) [OF n(1)] by simp
qed simp

lemma next_view_epoch_view: "next_view_epoch conf S = Some (S', e) \<Longrightarrow> pst_current_view S' = pst_current_view S"
  by (auto simp: next_view_epoch_def option_bind_simps split: if_splits prod.splits)

lemma next_view_view: "next_view conf S = Some (S', e) \<Longrightarrow> pst_current_view S' = pst_current_view S + 1"
  by (auto simp: next_view_def add64_def option_bind_simps split: option.splits if_splits dest!: next_view_epoch_view)


text \<open>
  An election transaction whose target term is too large makes its validation panic, already in the simple
  check that admits a transaction to the pool: the starting view of the term overflows in an unchecked addition.
\<close>

theorem election_overflow_panics:
  assumes "0 < c_round_per_term conf" and "0 < c_cip136_round_per_term conf"
    and "U64_MAX mod c_cip136_round_per_term conf < c_cip136_transition_view conf"
    and "pst_node_map S (addr_of (el_public_key tx) (el_vrf_public_key tx)) = Some node"
    and "0 < available_votes (nd_lock_status node)"
    and "el_target_term tx = c_cip136_transition_view conf div c_round_per_term conf + U64_MAX div c_cip136_round_per_term conf"
  shows "validate_election addr_of vrf_verify conf tx S = None \<and> validate_election_simple addr_of conf tx S = None"
  using starting_view_overflow_panics [OF assms(1-3)] assms(4-6)
  by (simp add: validate_election_def validate_election_simple_def node_id_new_def Let_def)

theorem election_overflow_panics_witness:
  "validate_election (\<lambda>pk vk. 100 + pk) (\<lambda>key seed proof. True) ex_conf
     \<lparr>el_public_key = 1, el_vrf_public_key = 11, el_target_term = 10 + U64_MAX div 120, el_vrf_proof = 0\<rparr> ex_genesis = None"
proof -
  obtain node where "pst_node_map ex_genesis 101 = Some node" "available_votes (nd_lock_status node) = 20"
    using ex_genesis_node by blast
  then show ?thesis
    using election_overflow_panics [of ex_conf ex_genesis "\<lambda>pk vk. 100 + pk"
        "\<lparr>el_public_key = 1, el_vrf_public_key = 11, el_target_term = 10 + U64_MAX div 120, el_vrf_proof = 0\<rparr>" node]
    by (simp add: ex_conf_def default_config_def ROUND_PER_TERM_def U64_MAX_def)
qed

text \<open>The first six terms have the same length, so the term next to open starts inside the window.\<close>

lemma early_window:
  assumes wf: "config_wf conf" and at: "at_view conf v t k" and early: "\<not> elections_started conf t k"
  defines "R \<equiv> round_per_term conf (term_start conf t)"
  shows "v + R div 2 < term_start conf (open_term conf t k)" "term_start conf (open_term conf t k) \<le> v + 3 * (R div 2)"
    "t < 5" "electing_at conf t k = 6" "open_term conf t k < 6"
proof -
  let ?R = "c_round_per_term conf" and ?V = "c_cip136_transition_view conf"
  have c: "0 < ?R" "even ?R" "6 * ?R \<le> ?V" using wf by (auto simp: config_wf_def TERM_LIST_LEN_def)
  show t: "t < 5" and "electing_at conf t k = 6" and "open_term conf t k < 6"
    using early by (auto simp: elections_started_def open_term_def electing_at_def split: if_splits)
  have "6 * ?R div ?R \<le> ?V div ?R" using c(3) by (rule div_le_mono)
  then have st: "term_start conf i = i * ?R" if "i < 6" for i
    using that c(1) by (simp add: term_start_def Let_def)
  have "round_per_term conf (term_start conf i) = ?R" if i: "i < 6" for i
  proof -
    have "i * ?R < 6 * ?R" using i c(1) by simp
    then have "term_start conf i < ?V" using st [OF i] c(3) by linarith
    then show ?thesis by (simp add: round_per_term_def)
  qed
  from this [of t] this [of "Suc t"] t have R: "R = ?R" "term_start conf (Suc (Suc t)) = term_start conf t + 2 * ?R"
    by (simp_all add: R_def term_start_Suc [OF wf])
  have h: "2 * (?R div 2) = ?R" "k < ?R" "v = term_start conf t + k"
    using c(2) at R(1) by (auto simp: at_view_def R_def)
  show "v + R div 2 < term_start conf (open_term conf t k)" "term_start conf (open_term conf t k) \<le> v + 3 * (R div 2)"
    unfolding R(1) using R h by (auto simp: open_term_def R_def term_start_Suc [OF wf])
qed

text \<open>
  C37. Before elections have started, an election transaction for the term that is next to open makes its
  validation panic: the open term is compared by an assertion with the position of the first term to be
  elected. Any registered node with votes can send such a transaction.
\<close>

theorem early_election_panics:
  assumes "pos_config_ok conf C V" and "genesis_ok C B nodes committee" and "B \<le> U64_MAX"
    and "pos_state_new conf seed nodes committee pivot = Some S0" and "pos_reach vrf_number conf V B S0 S m"
    and "at_view conf (pst_current_view S) t k" and "\<not> elections_started conf t k"
    and "pst_node_map S (addr_of (el_public_key tx) (el_vrf_public_key tx)) = Some node"
    and "0 < available_votes (nd_lock_status node)" and "el_target_term tx = open_term conf t k"
  shows "validate_election addr_of vrf_verify conf tx S = None"
proof -
  let ?v = "pst_current_view S" and ?R = "round_per_term conf (term_start conf t)" and ?T = "open_term conf t k"
  have wf: "config_wf conf" using assms(1) by (simp add: pos_config_ok_def)
  have ok: "pos_ok conf C V m S" using pos_reach_inv [OF assms(5,1-4)] by (simp add: pos_inv_def)
  note e = early_window [OF wf assms(6,7)]
  have i: "start_term (pst_term_list S) = t - 5" "tl_electing_index (pst_term_list S) = electing_at conf t k"
      "?v + 2 * (c_round_per_term conf + c_cip136_round_per_term conf) \<le> U64_MAX"
    by (rule electing_facts [OF ok assms(1,6)]; assumption)+
  obtain s where w: "election_term_start_round conf ?v = Some s" "add64 ?v s = Some (?v + 3 * (?R div 2))"
      "add64 ?v (election_term_end_round conf ?v) = Some (?v + ?R div 2)"
    using window_rounds [OF wf assms(6) i(3)] by blast
  then have "term_start conf ?T \<le> U64_MAX" using e(2) by (auto simp: add64_def split: if_splits)
  then have "get_starting_view_for_term conf ?T = Some (Some (term_start conf ?T))" by (rule starting_view_eq [OF wf])
  then show ?thesis
    using assms(8-10) w e i by (simp add: validate_election_def node_id_new_def Let_def sub64_def)
qed

theorem early_election_panics_witness:
  "validate_election (\<lambda>pk vk. 100 + pk) (\<lambda>key seed proof. True) ex_conf
     \<lparr>el_public_key = 1, el_vrf_public_key = 11, el_target_term = 1, el_vrf_proof = 0\<rparr> ex_genesis = None"
proof -
  have at: "at_view ex_conf (pst_current_view ex_genesis) 0 0"
    using at_view_0 ex_config_ok by (simp add: pos_config_ok_def ex_genesis_new(3))
  have o: "open_term ex_conf 0 0 = 1"
    using ex_config_ok
    by (simp add: open_term_def pos_config_ok_def round_per_term_def ex_conf_def default_config_def ROUND_PER_TERM_def)
  then have "\<not> elections_started ex_conf 0 0" by (simp add: elections_started_def)
  then show ?thesis
    using early_election_panics [OF ex_config_ok ex_genesis_ok _ ex_genesis_new(1) reach_init at] ex_genesis_node o
    by (force simp: U64_MAX_def)
qed

end
