(* ===== verification/Multi_Bls.thy ===== *)
theory Multi_Bls
  imports Validator "HOL-Library.Word"
begin

unbundle bit_operations_syntax

text \<open>
  Multi-signatures (\<^verbatim>\<open>crates/pos/crypto/crypto/src/multi_bls.rs\<close>): an aggregated BLS signature with a
  bitmap of the signers. Aggregation, verification of an aggregated signature and the encoding of a raw
  signature are functions of the library \<^verbatim>\<open>bls_signatures\<close> and are arguments here.
\<close>

section \<open>The bitmap\<close>

type_synonym bitmap = "8 word list"

definition MAX_NUM_OF_KEYS :: nat where "MAX_NUM_OF_KEYS = 300"

definition BITMAP_NUM_OF_BYTES :: nat where "BITMAP_NUM_OF_BYTES = 40"

definition bitmap_set_bit :: "bitmap \<Rightarrow> nat \<Rightarrow> bitmap option" where
  "bitmap_set_bit input index =
     (let bucket = index div 8; bucket_pos = index - bucket * 8 in
      if bucket < length input then Some (input[bucket := input ! bucket OR drop_bit bucket_pos 128]) else None)"

definition bitmap_get_bit :: "bitmap \<Rightarrow> nat \<Rightarrow> bool option" where
  "bitmap_get_bit input index =
     (let bucket = index div 8; bucket_pos = index - bucket * 8 in
      if bucket < length input then Some (input ! bucket AND drop_bit bucket_pos 128 \<noteq> 0) else None)"

text \<open>\<^verbatim>\<open>u8::trailing_zeros\<close>.\<close>

definition trailing_zeros8 :: "8 word \<Rightarrow> nat" where
  "trailing_zeros8 b = length (takeWhile (\<lambda>i. \<not> bit b i) [0..<8])"

text \<open>The search from the last byte; the result is cast to 8 bits.\<close>

fun last_set :: "nat \<Rightarrow> 8 word list \<Rightarrow> nat option" where
  "last_set i [] = None"
| "last_set i (b # bs) =
     (if b \<noteq> 0 then Some ((8 * (BITMAP_NUM_OF_BYTES - i) - trailing_zeros8 b - 1) mod 256) else last_set (Suc i) bs)"

definition bitmap_last_set_bit :: "bitmap \<Rightarrow> nat option" where
  "bitmap_last_set_bit input = last_set 0 (rev input)"

section \<open>Signatures\<close>

record multi_bls_signature =
  ms_bitmap :: bitmap
  ms_signature :: signature

datatype crypto_material_error = ValidationError | BitVecError string | AggregateError | DeserializationError

fun mark_indexes :: "nat list \<Rightarrow> bitmap \<Rightarrow> (crypto_material_error + bitmap) option" where
  "mark_indexes [] bitmap = Some (Inr bitmap)"
| "mark_indexes (i # is) bitmap =
     (if MAX_NUM_OF_KEYS \<le> i then Some (Inl ValidationError)
      else do { b \<leftarrow> bitmap_get_bit bitmap i;
                if b then Some (Inl (BitVecError ''Duplicate signature index''))
                else do { bitmap' \<leftarrow> bitmap_set_bit bitmap i; mark_indexes is bitmap' } })"

definition multi_signature_new ::
  "(signature list \<Rightarrow> signature option) \<Rightarrow> (signature \<times> nat) list \<Rightarrow> (crypto_material_error + multi_bls_signature) option" where
  "multi_signature_new aggregate signatures =
     (let num_of_sigs = length signatures in
      if num_of_sigs = 0 \<or> MAX_NUM_OF_KEYS < num_of_sigs then Some (Inl ValidationError)
      else try_opt (mark_indexes (map snd signatures) (replicate BITMAP_NUM_OF_BYTES 0)) (\<lambda>bitmap.
           case aggregate (map fst signatures) of
             None \<Rightarrow> Some (Inl AggregateError)
           | Some signature \<Rightarrow> Some (Inr \<lparr>ms_bitmap = bitmap, ms_signature = signature\<rparr>)))"

definition multi_signature_to_bytes :: "(signature \<Rightarrow> 8 word list) \<Rightarrow> multi_bls_signature \<Rightarrow> 8 word list" where
  "multi_signature_to_bytes raw_bytes self = ms_bitmap self @ raw_bytes (ms_signature self)"

definition multi_signature_try_from ::
  "(8 word list \<Rightarrow> signature option) \<Rightarrow> 8 word list \<Rightarrow> crypto_material_error + multi_bls_signature" where
  "multi_signature_try_from raw_from_bytes bs =
     (if length bs < BITMAP_NUM_OF_BYTES then Inl DeserializationError
      else case raw_from_bytes (drop BITMAP_NUM_OF_BYTES bs) of
             None \<Rightarrow> Inl DeserializationError
           | Some signature \<Rightarrow> Inr \<lparr>ms_bitmap = take BITMAP_NUM_OF_BYTES bs, ms_signature = signature\<rparr>)"

text \<open>The keys the bitmap selects.\<close>

fun selected_keys :: "bitmap \<Rightarrow> nat \<Rightarrow> public_key list \<Rightarrow> public_key list option" where
  "selected_keys bitmap i [] = Some []"
| "selected_keys bitmap i (k # ks) =
     do { b \<leftarrow> bitmap_get_bit bitmap i;
          rest \<leftarrow> selected_keys bitmap (Suc i) ks;
          Some (if b then k # rest else rest) }"

definition multi_signature_verify ::
  "(signature \<Rightarrow> 'm \<Rightarrow> public_key list \<Rightarrow> bool) \<Rightarrow> multi_bls_signature \<Rightarrow> 'm \<Rightarrow> public_key list \<Rightarrow> (string + unit) option" where
  "multi_signature_verify verify_same_message self message public_keys =
     (case bitmap_last_set_bit (ms_bitmap self) of
        Some last_bit \<Rightarrow>
          if last_bit \<le> length public_keys
          then do { raw_public_keys \<leftarrow> selected_keys (ms_bitmap self) 0 public_keys;
                    Some (if verify_same_message (ms_signature self) message raw_public_keys then Inr ()
                          else Inl ''Invalid BLS signature!'') }
          else Some (Inl ''Signature index is out of range'')
      | None \<Rightarrow> Some (Inl ''Signature index is out of range''))"

text \<open>The multi-signature of a single signer.\<close>

definition multi_signature_from :: "signature \<Rightarrow> multi_bls_signature" where
  "multi_signature_from bls_signature =
     \<lparr>ms_bitmap = (replicate BITMAP_NUM_OF_BYTES 0)[0 := 1], ms_signature = bls_signature\<rparr>"

section \<open>The bits of a bitmap\<close>

definition bit_at :: "bitmap \<Rightarrow> nat \<Rightarrow> bool" where
  "bit_at bm i \<longleftrightarrow> i div 8 < length bm \<and> bit (bm ! (i div 8)) (7 - i mod 8)"

lemma mask_bit: "p < 8 \<Longrightarrow> drop_bit p (128 :: 8 word) = push_bit (7 - p) 1"
  by (simp add: numeral_eq_Suc less_Suc_eq) (elim disjE; simp)

lemma index_pos: "index - index div 8 * 8 = index mod 8" for index :: nat
  by (simp add: minus_div_mult_eq_mod)

lemma bitmap_get_bit_eq: "bitmap_get_bit bm i = (if i div 8 < length bm then Some (bit_at bm i) else None)"
proof -
  have "(w AND push_bit n 1 \<noteq> 0) = bit w n" if "n < 8" for w :: "8 word" and n
    using that by (simp add: and_exp_eq_0_iff_not_bit push_bit_eq_mult)
  then show ?thesis
    by (simp add: bitmap_get_bit_def index_pos mask_bit bit_at_def Let_def)
qed

lemma bitmap_set_bit_eq:
  assumes "i div 8 < length bm"
  shows "\<exists>bm'. bitmap_set_bit bm i = Some bm' \<and> length bm' = length bm \<and> (\<forall>j. bit_at bm' j \<longleftrightarrow> j = i \<or> bit_at bm j)"
proof -
  let ?bm = "bm[i div 8 := bm ! (i div 8) OR push_bit (7 - i mod 8) 1]"
  have "bit_at ?bm j \<longleftrightarrow> j = i \<or> bit_at bm j" for j
  proof (cases "j div 8 = i div 8")
    case True
    have "i mod 8 = j mod 8 \<longleftrightarrow> j = i" using True by (metis div_mult_mod_eq)
    moreover have "i mod 8 < 8" "j mod 8 < 8" by simp_all
    ultimately have "7 - i mod 8 = 7 - j mod 8 \<longleftrightarrow> j = i" by linarith
    then show ?thesis
      using assms True by (auto simp: bit_at_def bit_or_iff bit_exp_iff)
  next
    case False
    then show ?thesis by (auto simp: bit_at_def)
  qed
  then show ?thesis
    using assms by (simp add: bitmap_set_bit_def index_pos mask_bit Let_def)
qed

lemma trailing_zeros8:
  assumes "b \<noteq> 0"
  shows "trailing_zeros8 b < 8" and "bit b (trailing_zeros8 b)" and "k < trailing_zeros8 b \<Longrightarrow> \<not> bit b k"
proof -
  let ?P = "\<lambda>i. \<not> bit b i" and ?w = "takeWhile (\<lambda>i. \<not> bit b i) [0..<8]"
  obtain n where n: "bit b n" using assms by (auto simp: bit_eq_iff)
  then have "n < 8" using bit_imp_le_length [of b n] by simp
  then have ne: "?w \<noteq> [0..<8]"
    using n by (metis atLeast_upt lessThan_iff set_takeWhileD)
  then show lt: "trailing_zeros8 b < 8"
    by (metis trailing_zeros8_def length_takeWhile_le length_upt diff_zero le_neq_implies_less takeWhile_eq_take take_all_iff order_refl)
  then show "bit b (trailing_zeros8 b)"
    using nth_length_takeWhile [of ?P "[0..<8]"] by (simp add: trailing_zeros8_def)
  show "\<not> bit b k" if "k < trailing_zeros8 b"
    using that lt takeWhile_nth [of k ?P "[0..<8]"] nth_mem [of k ?w]
    by (metis (no_types, lifting) trailing_zeros8_def add_0 less_trans nth_upt set_takeWhileD)
qed

lemma bit_at_append: "bit_at (bs @ [b]) j \<longleftrightarrow> bit_at bs j \<or> j div 8 = length bs \<and> bit b (7 - j mod 8)"
  by (auto simp: bit_at_def nth_append)

lemma last_set_spec:
  assumes "i + length bs = BITMAP_NUM_OF_BYTES"
  shows "case last_set i (rev bs) of None \<Rightarrow> \<forall>j. \<not> bit_at bs j
    | Some n \<Rightarrow> \<exists>m. bit_at bs m \<and> (\<forall>j. bit_at bs j \<longrightarrow> j \<le> m) \<and> n = m mod 256"
  using assms
proof (induction bs arbitrary: i rule: rev_induct)
  case Nil
  then show ?case by (simp add: bit_at_def)
next
  case (snoc b bs)
  show ?case
  proof (cases "b = 0")
    case True
    then have eq: "bit_at (bs @ [b]) = bit_at bs" by (auto simp: fun_eq_iff bit_at_append)
    show ?thesis unfolding eq using snoc.IH [of "Suc i"] snoc.prems True by simp
  next
    case False
    let ?t = "trailing_zeros8 b" and ?m = "8 * length bs + (7 - trailing_zeros8 b)"
    note t = trailing_zeros8 [OF False]
    have m: "?m div 8 = length bs" "?m mod 8 = 7 - ?t"
      using mod_mult_self4 [of 8 "length bs" "7 - ?t"] t(1) by (simp_all add: div_nat_eqI)
    have "bit_at (bs @ [b]) ?m" unfolding bit_at_append m using t by simp
    moreover have "j \<le> ?m" if j: "bit_at (bs @ [b]) j" for j
    proof (cases "j div 8 = length bs")
      case True
      then have "\<not> 7 - j mod 8 < ?t" using j t(3) by (auto simp: bit_at_append bit_at_def)
      then have "j mod 8 \<le> 7 - ?t" by linarith
      then show ?thesis using True by (metis add_le_cancel_left div_mult_mod_eq mult.commute)
    next
      case False
      then have "j div 8 < length bs" using j by (auto simp: bit_at_append bit_at_def)
      then show ?thesis by linarith
    qed
    moreover have "8 * (BITMAP_NUM_OF_BYTES - i) - ?t - 1 = ?m"
      using snoc.prems t(1) by (simp add: BITMAP_NUM_OF_BYTES_def)
    ultimately show ?thesis using False by auto
  qed
qed

text \<open>The last set bit, as far as 8 bits can tell.\<close>

lemma bitmap_last_set_bit_spec:
  assumes "length bm = BITMAP_NUM_OF_BYTES"
  shows "bitmap_last_set_bit bm = None \<longleftrightarrow> (\<forall>j. \<not> bit_at bm j)"
    and "bitmap_last_set_bit bm = Some n \<Longrightarrow> \<exists>m. bit_at bm m \<and> (\<forall>j. bit_at bm j \<longrightarrow> j \<le> m) \<and> n = m mod 256"
  using last_set_spec [of 0 bm] assms by (auto simp: bitmap_last_set_bit_def split: option.splits)

lemma mark_indexes_ok:
  assumes "length bm = BITMAP_NUM_OF_BYTES" and "distinct is" and "\<forall>i\<in>set is. i < MAX_NUM_OF_KEYS \<and> \<not> bit_at bm i"
  shows "\<exists>bm'. mark_indexes is bm = Some (Inr bm') \<and> length bm' = BITMAP_NUM_OF_BYTES \<and>
    (\<forall>j. bit_at bm' j \<longleftrightarrow> j \<in> set is \<or> bit_at bm j)"
  using assms
proof (induction "is" arbitrary: bm)
  case (Cons i "is")
  have i: "i < 300" "i div 8 < length bm" "\<not> bit_at bm i"
    using Cons.prems(1,3) by (auto simp: MAX_NUM_OF_KEYS_def BITMAP_NUM_OF_BYTES_def)
  obtain bm1 where bm1: "bitmap_set_bit bm i = Some bm1" "length bm1 = length bm" "\<forall>j. bit_at bm1 j \<longleftrightarrow> j = i \<or> bit_at bm j"
    using bitmap_set_bit_eq [OF i(2)] by blast
  have "\<forall>j\<in>set is. j < MAX_NUM_OF_KEYS \<and> \<not> bit_at bm1 j" "distinct is"
    using Cons.prems(2,3) bm1(3) by auto
  then obtain bm' where "mark_indexes is bm1 = Some (Inr bm')" "length bm' = BITMAP_NUM_OF_BYTES"
      "\<forall>j. bit_at bm' j \<longleftrightarrow> j \<in> set is \<or> bit_at bm1 j"
    using Cons.IH [of bm1] Cons.prems(1) bm1(2) by auto
  then show ?case
    using i bm1 by (auto simp: bitmap_get_bit_eq MAX_NUM_OF_KEYS_def)
qed simp

lemma selected_keys_eq:
  assumes "length bm = BITMAP_NUM_OF_BYTES" and "i + length ks \<le> MAX_NUM_OF_KEYS"
  shows "selected_keys bm i ks = Some (map snd (filter (\<lambda>(j, _). bit_at bm j) (zip [i..<i + length ks] ks)))"
  using assms(2)
proof (induction ks arbitrary: i)
  case (Cons k ks)
  have "i div 8 < length bm" using Cons.prems assms(1) by (simp add: MAX_NUM_OF_KEYS_def BITMAP_NUM_OF_BYTES_def)
  moreover have "[i..<i + length (k # ks)] = i # [Suc i..<Suc i + length ks]"
    by (simp add: upt_rec)
  ultimately show ?case
    using Cons.IH [of "Suc i"] Cons.prems by (simp add: bitmap_get_bit_eq)
qed simp

section \<open>Verification\<close>

abbreviation signer_keys :: "bitmap \<Rightarrow> public_key list \<Rightarrow> public_key list" where
  "signer_keys bm ks \<equiv> map snd (filter (\<lambda>(j, _). bit_at bm j) (zip [0..<length ks] ks))"

text \<open>
  What a verified multi-signature says: some bit is set, the last one passes the range check as far as it is
  seen through 8 bits, and the keys of the set bits within the key list have signed. Bits behind the key list
  are ignored.
\<close>

lemma multi_signature_verify_iff:
  assumes "length (ms_bitmap ms) = BITMAP_NUM_OF_BYTES" and "length ks \<le> MAX_NUM_OF_KEYS"
  shows "multi_signature_verify vsm ms msg ks = Some (Inr ()) \<longleftrightarrow>
    (\<exists>m. bit_at (ms_bitmap ms) m \<and> (\<forall>j. bit_at (ms_bitmap ms) j \<longrightarrow> j \<le> m) \<and> m mod 256 \<le> length ks) \<and>
    vsm (ms_signature ms) msg (signer_keys (ms_bitmap ms) ks)"
proof (cases "bitmap_last_set_bit (ms_bitmap ms)")
  case None
  then show ?thesis
    using bitmap_last_set_bit_spec(1) [OF assms(1)] by (simp add: multi_signature_verify_def)
next
  case (Some n)
  obtain m where m: "bit_at (ms_bitmap ms) m" "\<forall>j. bit_at (ms_bitmap ms) j \<longrightarrow> j \<le> m" "n = m mod 256"
    using bitmap_last_set_bit_spec(2) [OF assms(1) Some] by blast
  have "(\<exists>m. bit_at (ms_bitmap ms) m \<and> (\<forall>j. bit_at (ms_bitmap ms) j \<longrightarrow> j \<le> m) \<and> m mod 256 \<le> length ks) \<longleftrightarrow> n \<le> length ks"
    using m by (metis le_antisym)
  then show ?thesis
    using Some selected_keys_eq [OF assms(1), of 0 ks] assms(2) by (auto simp: multi_signature_verify_def)
qed

lemma selected_mset:
  assumes "distinct is" and "\<forall>j. bit_at bm j \<longleftrightarrow> j \<in> set is" and "\<forall>i\<in>set is. i < length ks"
  shows "mset (signer_keys bm ks) = mset (map ((!) ks) is)"
proof -
  have zip: "zip [0..<length ks] ks = map (\<lambda>j. (j, ks ! j)) [0..<length ks]"
    by (rule nth_equalityI) auto
  have "signer_keys bm ks = map ((!) ks) (filter (bit_at bm) [0..<length ks])"
    unfolding zip by (simp add: filter_map comp_def)
  then have "mset (signer_keys bm ks) = image_mset ((!) ks) (mset (filter (bit_at bm) [0..<length ks]))"
    by (simp only: mset_map)
  also have "mset (filter (bit_at bm) [0..<length ks]) = mset is"
  proof -
    have "set (filter (bit_at bm) [0..<length ks]) = set is" using assms(2,3) by auto
    then show ?thesis using assms(1) set_eq_iff_mset_eq_distinct [of "filter (bit_at bm) [0..<length ks]" "is"] by simp
  qed
  finally show ?thesis by (simp only: mset_map)
qed

text \<open>What the code relies on: the aggregate of valid signatures of a message verifies against their keys.\<close>

definition bls_aggregates ::
  "(signature list \<Rightarrow> signature option) \<Rightarrow> (signature \<Rightarrow> 'm \<Rightarrow> public_key list \<Rightarrow> bool) \<Rightarrow>
     (public_key \<Rightarrow> 'm \<Rightarrow> signature \<Rightarrow> bool) \<Rightarrow> bool" where
  "bls_aggregates aggregate verify_same_message bls_verify \<longleftrightarrow>
     (\<forall>sigs. sigs \<noteq> [] \<longrightarrow> aggregate sigs \<noteq> None) \<and>
     (\<forall>sigs s m ks ks'. aggregate sigs = Some s \<longrightarrow> list_all2 (\<lambda>k sig. bls_verify k m sig) ks sigs \<longrightarrow> mset ks' = mset ks \<longrightarrow>
        verify_same_message s m ks')"

text \<open>
  C28. Multi-signatures are complete: valid signatures of distinct members of a list of at most 300 keys,
  paired with the positions of the members, combine to a multi-signature that verifies against the list.
\<close>

theorem multi_signature_complete:
  assumes "bls_aggregates aggregate vsm bls_verify" and "signatures \<noteq> []" and "distinct (map snd signatures)"
    and "length ks \<le> MAX_NUM_OF_KEYS" and "\<forall>(sig, i)\<in>set signatures. i < length ks \<and> bls_verify (ks ! i) msg sig"
  shows "\<exists>ms. multi_signature_new aggregate signatures = Some (Inr ms) \<and> multi_signature_verify vsm ms msg ks = Some (Inr ())"
proof -
  let ?is = "map snd signatures"
  have lt: "\<forall>i\<in>set ?is. i < length ks" using assms(5) by auto
  then have "card (set ?is) \<le> card {..<length ks}" by (intro card_mono) auto
  then have len: "length signatures \<le> MAX_NUM_OF_KEYS"
    using assms(3,4) distinct_card [OF assms(3)] by simp
  have "\<not> bit_at (replicate BITMAP_NUM_OF_BYTES 0) j" for j
    by (simp add: bit_at_def)
  then obtain bm where bm: "mark_indexes ?is (replicate BITMAP_NUM_OF_BYTES 0) = Some (Inr bm)" "length bm = BITMAP_NUM_OF_BYTES"
      "\<forall>j. bit_at bm j \<longleftrightarrow> j \<in> set ?is"
    using mark_indexes_ok [OF _ assms(3), of "replicate BITMAP_NUM_OF_BYTES 0"] lt assms(4) by fastforce
  obtain s where s: "aggregate (map fst signatures) = Some s"
    using assms(1,2) unfolding bls_aggregates_def by (metis map_is_Nil_conv option.exhaust)
  let ?ms = "\<lparr>ms_bitmap = bm, ms_signature = s\<rparr>"
  have new: "multi_signature_new aggregate signatures = Some (Inr ?ms)"
    using assms(2) len bm(1) s by (simp add: multi_signature_new_def try_opt_def)
  have "list_all2 (\<lambda>k sig. bls_verify k msg sig) (map ((!) ks) ?is) (map fst signatures)"
    using assms(5) by (auto simp: list_all2_conv_all_nth split: prod.splits dest!: nth_mem)
  then have v: "vsm s msg (signer_keys bm ks)"
    using assms(1) s selected_mset [OF assms(3) bm(3) lt] unfolding bls_aggregates_def by blast
  let ?m = "Max (set ?is)"
  have m: "?m \<in> set ?is" "\<forall>j\<in>set ?is. j \<le> ?m" using assms(2) by (auto intro!: Max_in Max_ge)
  then have "?m mod 256 \<le> length ks" using lt by (meson le_trans less_imp_le mod_less_eq_dividend)
  then have "\<exists>m. bit_at bm m \<and> (\<forall>j. bit_at bm j \<longrightarrow> j \<le> m) \<and> m mod 256 \<le> length ks"
    using m bm(3) by blast
  then have "multi_signature_verify vsm ?ms msg ks = Some (Inr ())"
    using v bm(2) assms(4) multi_signature_verify_iff [of ?ms ks vsm msg] by simp
  then show ?thesis using new by blast
qed

text \<open>Additive signatures: the signature of \<open>m\<close> by \<open>k\<close> is \<open>k * m\<close>.\<close>

definition ex_aggregate :: "signature list \<Rightarrow> signature option" where
  "ex_aggregate sigs = (if sigs = [] then None else Some (sum_list sigs))"

lemma ex_bls_aggregates:
  "bls_aggregates ex_aggregate (\<lambda>s m ks. s = sum_list (map (\<lambda>k. k * m) ks)) (\<lambda>k m sig. sig = k * m)"
proof -
  have "sum_list sigs = sum_list (map (\<lambda>k. k * m) ks')"
    if "list_all2 (\<lambda>k sig. sig = k * m) ks sigs" "mset ks' = mset ks" for sigs ks ks' and m :: nat
  proof -
    have "sigs = map (\<lambda>k. k * m) ks" using that(1) by (auto simp: list_all2_conv_all_nth intro: nth_equalityI)
    then show ?thesis using that(2) by (metis mset_map sum_mset_sum_list)
  qed
  then show ?thesis
    unfolding bls_aggregates_def ex_aggregate_def by (metis option.distinct(1) option.inject)
qed

theorem multi_signature_complete_witness:
  "\<exists>ms. multi_signature_new ex_aggregate [(35, 2), (15, 0)] = Some (Inr ms) \<and>
     multi_signature_verify (\<lambda>s m ks. s = sum_list (map (\<lambda>k. k * m) ks)) ms 5 [3, 4, 7] = Some (Inr ())"
  using multi_signature_complete [OF ex_bls_aggregates, of "[(35, 2), (15, 0)]" "[3, 4, 7]" 5]
  by (simp add: MAX_NUM_OF_KEYS_def)

text \<open>
  The conversion of a single signature sets the lowest bit of the first byte, which stands for position 7: the
  converted signature does not verify against its own key, nor against any list of fewer than seven keys.
\<close>

lemma converted_signature_rejected:
  assumes "length ks < 7"
  shows "multi_signature_verify vsm (multi_signature_from sig) msg ks = Some (Inl ''Signature index is out of range'')"
proof -
  have tz: "trailing_zeros8 1 = 0" by (simp add: trailing_zeros8_def upt_rec)
  have zeros: "last_set i (replicate n 0 @ bs) = last_set (i + n) bs" for i n bs
    by (induction n arbitrary: i) simp_all
  have "rev ((replicate BITMAP_NUM_OF_BYTES 0)[0 := 1]) = replicate 39 0 @ [1 :: 8 word]"
    by (simp add: BITMAP_NUM_OF_BYTES_def numeral_eq_Suc)
  then have "bitmap_last_set_bit (ms_bitmap (multi_signature_from sig)) = Some 7"
    by (simp add: bitmap_last_set_bit_def multi_signature_from_def zeros tz BITMAP_NUM_OF_BYTES_def)
  then show ?thesis using assms by (simp add: multi_signature_verify_def)
qed

lemma multi_signature_bytes_roundtrip:
  assumes "length (ms_bitmap ms) = BITMAP_NUM_OF_BYTES" and "raw_from_bytes (raw_bytes (ms_signature ms)) = Some (ms_signature ms)"
  shows "multi_signature_try_from raw_from_bytes (multi_signature_to_bytes raw_bytes ms) = Inr ms"
  using assms by (simp add: multi_signature_try_from_def multi_signature_to_bytes_def)

end
