(* ===== verification/Pos_Tx.thy ===== *)
theory Pos_Tx
  imports Consensus_Blocks Pos_State Multi_Bls
begin

text \<open>
  Transactions and contract events of the proof-of-stake chain: the payloads
  (\<^verbatim>\<open>transaction/mod.rs\<close>), the authenticator (\<^verbatim>\<open>transaction/authenticator.rs\<close>), the event keys
  (\<^verbatim>\<open>account_config\<close>, \<^verbatim>\<open>event.rs\<close>), the events (\<^verbatim>\<open>term_state.rs\<close>) and the
  staking events of the proof-of-work chain they are compared with (\<^verbatim>\<open>pow-types\<close>).
  The serialization (crate \<^verbatim>\<open>bcs\<close>) is an argument: a pair of an encoder and a decoder for each type.
\<close>

section \<open>Event keys\<close>

text \<open>The bytes of the salt and of the address, as a pair.\<close>

type_synonym event_key = "nat \<times> address"

definition event_key_new_from_address :: "address \<Rightarrow> nat \<Rightarrow> event_key" where
  "event_key_new_from_address addr salt = (salt, addr)"

definition pivot_chain_select_address :: address where "pivot_chain_select_address = 0x1D9"
definition election_select_address :: address where "election_select_address = 0x1DA"
definition retire_address :: address where "retire_address = 0x1DB"
definition unlock_address :: address where "unlock_address = 0x1DC"
definition register_address :: address where "register_address = 0x1DD"
definition update_voting_power_address :: address where "update_voting_power_address = 0x1DE"
definition dispute_address :: address where "dispute_address = 0x1DF"
definition config_address :: address where "config_address = 0xA550C18"

definition pivot_select_event_key :: event_key where
  "pivot_select_event_key = event_key_new_from_address pivot_chain_select_address 2"
definition election_event_key :: event_key where
  "election_event_key = event_key_new_from_address election_select_address 3"
definition retire_event_key :: event_key where
  "retire_event_key = event_key_new_from_address retire_address 4"
definition register_event_key :: event_key where
  "register_event_key = event_key_new_from_address register_address 5"
definition update_voting_power_event_key :: event_key where
  "update_voting_power_event_key = event_key_new_from_address update_voting_power_address 6"
definition unlock_event_key :: event_key where
  "unlock_event_key = event_key_new_from_address unlock_address 5"
definition dispute_event_key :: event_key where
  "dispute_event_key = event_key_new_from_address dispute_address 6"
definition new_epoch_event_key :: event_key where
  "new_epoch_event_key = event_key_new_from_address config_address 4"

lemmas event_key_defs = pivot_select_event_key_def election_event_key_def retire_event_key_def register_event_key_def
  update_voting_power_event_key_def unlock_event_key_def dispute_event_key_def new_epoch_event_key_def
  event_key_new_from_address_def pivot_chain_select_address_def election_select_address_def retire_address_def
  unlock_address_def register_address_def update_voting_power_address_def dispute_address_def config_address_def

record contract_event =
  ce_key :: event_key
  ce_data :: bytes

section \<open>Events\<close>

record retire_event =
  re_node_id :: address
  re_votes :: nat

record update_voting_power_event =
  ue_node_address :: address
  ue_voting_power :: nat

record unlock_event =
  ul_node_id :: address
  ul_unlocked :: nat

text \<open>A register event carries the node, a dispute event its address.\<close>

type_synonym register_event = node_id
type_synonym dispute_event = address

text \<open>
  The address of a staking event is a hash of the proof-of-work chain (\<^verbatim>\<open>H256\<close>). Both it and an account address
  have 32 bytes, so \<^verbatim>\<open>AccountAddress::from_bytes\<close> of it returns the same bytes and never fails.
\<close>

datatype staking_event =
    StRegister hash bytes bytes
  | StIncreaseStake hash nat
  | StRetire hash nat

definition address_from_h256 :: "hash \<Rightarrow> string + address" where
  "address_from_h256 h = Inr h"

section \<open>Payloads\<close>

record retire_payload =
  rp_node_id :: address
  rp_votes :: nat

record register_payload =
  gp_public_key :: public_key
  gp_vrf_public_key :: vrf_public_key

record update_voting_power_payload =
  up_node_address :: address
  up_voting_power :: nat

datatype conflict_signature = ConflictProposal bytes bytes | ConflictVote bytes bytes

record dispute_payload =
  dp_address :: address
  dp_bls_pub_key :: public_key
  dp_vrf_pub_key :: vrf_public_key
  dp_conflicting_votes :: conflict_signature

record change_set =
  cs_write_set :: "((address \<times> bytes) \<times> bytes option) list"
  cs_events :: "contract_event list"

datatype write_set_payload = Direct change_set | WriteSetScript address bytes

datatype transaction_payload =
    WriteSet write_set_payload
  | Script bytes
  | Module bytes
  | ScriptFunction bytes
  | Election election_payload
  | Retire retire_payload
  | Register register_payload
  | UpdateVotingPower update_voting_power_payload
  | PivotDecision pivot_block_decision
  | Dispute dispute_payload

record raw_transaction =
  rt_sender :: address
  rt_payload :: transaction_payload
  rt_expiration_timestamp_secs :: nat
  rt_chain_id :: nat

datatype transaction_authenticator =
    AuthEd25519 public_key signature
  | AuthMultiEd25519 public_key signature
  | AuthBLS public_key signature
  | AuthMultiBLS multi_bls_signature

record signed_transaction =
  st_raw_txn :: raw_transaction
  st_authenticator :: transaction_authenticator

datatype pos_transaction =
    UserTransaction signed_transaction
  | GenesisTransaction write_set_payload
  | BlockMetadata bytes

section \<open>External functions\<close>

type_synonym 'a serde = "('a \<Rightarrow> bytes) \<times> (bytes \<Rightarrow> 'a option)"

definition serde_ok :: "'a serde \<Rightarrow> bool" where
  "serde_ok s \<longleftrightarrow> (\<forall>x. snd s (fst s x) = Some x)"

record bcs_codec =
  bc_pivot :: "pivot_block_decision serde"
  bc_election :: "election_event serde"
  bc_retire :: "retire_event serde"
  bc_register :: "register_event serde"
  bc_update :: "update_voting_power_event serde"
  bc_dispute :: "dispute_event serde"
  bc_unlock :: "unlock_event serde"
  bc_epoch_state :: "epoch_state serde"
  bc_validator_set :: "validator_info list serde"
  bc_block :: "block serde"
  bc_vote :: "vote serde"

datatype tx_message = MRawTransaction raw_transaction | MPivotDecision pivot_block_decision

text \<open>
  \<open>xc_address\<close> is \<^verbatim>\<open>from_consensus_public_key\<close>; \<open>xc_vrf_to_hash\<close> is \<^verbatim>\<open>to_hash\<close> of a
  proof; \<open>xc_public_key\<close> and \<open>xc_vrf_public_key\<close> decode the bytes of a staking event.
\<close>

record externals =
  xc_bcs :: bcs_codec
  xc_crypto :: crypto
  xc_address :: "public_key \<Rightarrow> vrf_public_key \<Rightarrow> address"
  xc_vrf_to_hash :: "vrf_proof \<Rightarrow> hash option"
  xc_vrf_number :: "hash \<Rightarrow> nat \<Rightarrow> hash"
  xc_verify_ed25519 :: "public_key \<Rightarrow> tx_message \<Rightarrow> signature \<Rightarrow> bool"
  xc_verify_multi_ed25519 :: "public_key \<Rightarrow> tx_message \<Rightarrow> signature \<Rightarrow> bool"
  xc_verify_bls :: "public_key \<Rightarrow> tx_message \<Rightarrow> signature \<Rightarrow> bool"
  xc_verify_same_message :: "signature \<Rightarrow> tx_message \<Rightarrow> public_key list \<Rightarrow> bool"
  xc_public_key :: "bytes \<Rightarrow> public_key option"
  xc_vrf_public_key :: "bytes \<Rightarrow> vrf_public_key option"
  xc_hardcoded :: "nat \<rightharpoonup> validator_verifier"

section \<open>Payloads as events\<close>

definition contract_event_new :: "event_key \<Rightarrow> bytes \<Rightarrow> contract_event" where
  "contract_event_new key data = \<lparr>ce_key = key, ce_data = data\<rparr>"

text \<open>The hash of the proof is unwrapped.\<close>

definition election_to_event :: "externals \<Rightarrow> election_payload \<Rightarrow> contract_event option" where
  "election_to_event x self =
     do { vrf_output \<leftarrow> xc_vrf_to_hash x (el_vrf_proof self);
          Some (contract_event_new election_event_key (fst (bc_election (xc_bcs x))
            (election_event_new (xc_address x) (el_public_key self) (el_vrf_public_key self) vrf_output (el_target_term self)))) }"

definition retire_to_event :: "externals \<Rightarrow> retire_payload \<Rightarrow> contract_event" where
  "retire_to_event x self =
     contract_event_new retire_event_key (fst (bc_retire (xc_bcs x)) \<lparr>re_node_id = rp_node_id self, re_votes = rp_votes self\<rparr>)"

definition register_to_event :: "externals \<Rightarrow> register_payload \<Rightarrow> contract_event" where
  "register_to_event x self =
     contract_event_new register_event_key (fst (bc_register (xc_bcs x))
       (node_id_new (xc_address x) (gp_public_key self) (gp_vrf_public_key self)))"

definition update_voting_power_to_event :: "externals \<Rightarrow> update_voting_power_payload \<Rightarrow> contract_event" where
  "update_voting_power_to_event x self =
     contract_event_new update_voting_power_event_key (fst (bc_update (xc_bcs x))
       \<lparr>ue_node_address = up_node_address self, ue_voting_power = up_voting_power self\<rparr>)"

definition dispute_to_event :: "externals \<Rightarrow> dispute_payload \<Rightarrow> contract_event" where
  "dispute_to_event x self = contract_event_new dispute_event_key (fst (bc_dispute (xc_bcs x)) (dp_address self))"

definition pivot_to_event :: "externals \<Rightarrow> pivot_block_decision \<Rightarrow> contract_event" where
  "pivot_to_event x self = contract_event_new pivot_select_event_key (fst (bc_pivot (xc_bcs x)) self)"

section \<open>Comparison with the staking events\<close>

definition retire_matches_staking_event :: "externals \<Rightarrow> retire_event \<Rightarrow> staking_event \<Rightarrow> string + bool" where
  "retire_matches_staking_event x self staking_event =
     (case staking_event of
        StRetire addr_h256 _ \<Rightarrow>
          try_res (address_from_h256 addr_h256) (\<lambda>addr. Inr (re_node_id self = addr))
      | _ \<Rightarrow> Inr False)"

definition register_matches_staking_event :: "externals \<Rightarrow> register_event \<Rightarrow> staking_event \<Rightarrow> string + bool" where
  "register_matches_staking_event x self staking_event =
     (case staking_event of
        StRegister addr_h256 bls_pub_key_bytes vrf_pub_key_bytes \<Rightarrow>
          try_res (address_from_h256 addr_h256) (\<lambda>addr.
          try_res (ok_or (xc_public_key x bls_pub_key_bytes) ''invalid key'') (\<lambda>public_key.
          try_res (ok_or (xc_vrf_public_key x vrf_pub_key_bytes) ''invalid key'') (\<lambda>vrf_public_key.
          let node_id = node_id_new (xc_address x) public_key vrf_public_key in
          try_res (ensure (ni_addr node_id = addr) ''register event has unmatching address and keys'') (\<lambda>_.
          Inr (self = node_id)))))
      | _ \<Rightarrow> Inr False)"

definition update_matches_staking_event :: "externals \<Rightarrow> update_voting_power_event \<Rightarrow> staking_event \<Rightarrow> string + bool" where
  "update_matches_staking_event x self staking_event =
     (case staking_event of
        StIncreaseStake addr_h256 updated_voting_power \<Rightarrow>
          try_res (address_from_h256 addr_h256) (\<lambda>addr.
          Inr (ue_node_address self = addr \<and> ue_voting_power self = updated_voting_power))
      | _ \<Rightarrow> Inr False)"

definition from_staking_event :: "externals \<Rightarrow> staking_event \<Rightarrow> address \<Rightarrow> string + raw_transaction" where
  "from_staking_event x staking_event sender =
     try_res (case staking_event of
         StRegister addr_h256 bls_pub_key_bytes vrf_pub_key_bytes \<Rightarrow>
           try_res (address_from_h256 addr_h256) (\<lambda>addr.
           try_res (ok_or (xc_public_key x bls_pub_key_bytes) ''invalid key'') (\<lambda>public_key.
           try_res (ok_or (xc_vrf_public_key x vrf_pub_key_bytes) ''invalid key'') (\<lambda>vrf_public_key.
           let node_id = node_id_new (xc_address x) public_key vrf_public_key in
           try_res (ensure (ni_addr node_id = addr) ''register event has unmatching address and keys'') (\<lambda>_.
           Inr (Register \<lparr>gp_public_key = public_key, gp_vrf_public_key = vrf_public_key\<rparr>)))))
       | StIncreaseStake addr_h256 updated_voting_power \<Rightarrow>
           try_res (address_from_h256 addr_h256) (\<lambda>addr.
           Inr (UpdateVotingPower \<lparr>up_node_address = addr, up_voting_power = updated_voting_power\<rparr>))
       | StRetire identifier votes \<Rightarrow> Inr (Retire \<lparr>rp_node_id = identifier, rp_votes = votes\<rparr>)) (\<lambda>payload.
     Inr \<lparr>rt_sender = sender, rt_payload = payload, rt_expiration_timestamp_secs = U64_MAX, rt_chain_id = 4\<rparr>)"

section \<open>Signatures of transactions\<close>

definition authenticator_verify :: "externals \<Rightarrow> transaction_authenticator \<Rightarrow> tx_message \<Rightarrow> string + unit" where
  "authenticator_verify x self message =
     (case self of
        AuthEd25519 public_key signature \<Rightarrow> ensure (xc_verify_ed25519 x public_key message signature) ''invalid signature''
      | AuthMultiEd25519 public_key signature \<Rightarrow> ensure (xc_verify_multi_ed25519 x public_key message signature) ''invalid signature''
      | AuthBLS public_key signature \<Rightarrow> ensure (xc_verify_bls x public_key message signature) ''invalid signature''
      | AuthMultiBLS _ \<Rightarrow> Inr ())"

definition check_signature :: "externals \<Rightarrow> signed_transaction \<Rightarrow> string + signed_transaction" where
  "check_signature x self =
     try_res (case rt_payload (st_raw_txn self) of
         PivotDecision pivot_decision \<Rightarrow> authenticator_verify x (st_authenticator self) (MPivotDecision pivot_decision)
       | _ \<Rightarrow> authenticator_verify x (st_authenticator self) (MRawTransaction (st_raw_txn self))) (\<lambda>_.
     Inr self)"

end
