(* ===== verification/Pos_Vm.thy ===== *)
theory Pos_Vm
  imports Pos_Tx
begin

text \<open>
  The virtual machine of the proof-of-stake chain (\<^verbatim>\<open>executor/src/vm.rs\<close>): it turns every transaction of
  a block into contract events and leaves the state unchanged. \<open>None\<close> is a panic, \<open>Inl\<close> the
  status of a block that is refused.
\<close>

section \<open>Outputs\<close>

datatype kept_vm_status = Executed | OutOfGas | MoveAbort bytes nat | ExecutionFailure bytes nat nat | MiscellaneousError

datatype vm_status = CFX_INVALID_TX | CFX_UNEXPECTED_TX | INVALID_SIGNATURE

datatype transaction_status = Discard vm_status | Keep kept_vm_status | Retry

record transaction_output =
  to_events :: "contract_event list"
  to_gas_used :: nat
  to_status :: transaction_status

definition gen_output :: "contract_event list \<Rightarrow> transaction_output" where
  "gen_output events = \<lparr>to_events = events, to_gas_used = 0, to_status = Keep Executed\<rparr>"

section \<open>Block metadata\<close>

definition unlock_contract_events :: "externals \<Rightarrow> pos_state \<Rightarrow> contract_event list option" where
  "unlock_contract_events x self =
     map_option (map (\<lambda>(addr, votes). contract_event_new unlock_event_key
         (fst (bc_unlock (xc_bcs x)) \<lparr>ul_node_id = addr, ul_unlocked = votes\<rparr>)))
       (get_unlock_events self)"

definition process_block_metadata ::
  "externals \<Rightarrow> pos_state_config \<Rightarrow> pos_state \<Rightarrow> (vm_status + transaction_output) option" where
  "process_block_metadata x conf state =
     do { events \<leftarrow> unlock_contract_events x state;
          next_view \<leftarrow> add64 (pst_current_view state) 1;
          (term, view_in_term) \<leftarrow> get_term_view conf next_view;
          if view_in_term = 0
          then do { (validator_verifier, vrf_seed) \<leftarrow> get_committee_at term state;
                    epoch \<leftarrow> add64 term 1;
                    let validator_bytes = fst (bc_epoch_state (xc_bcs x))
                      \<lparr>es_epoch = epoch, es_verifier = validator_verifier, es_vrf_seed = vrf_seed\<rparr>;
                    Some (Inr (gen_output (events @ [contract_event_new new_epoch_event_key validator_bytes]))) }
          else Some (Inr (gen_output events)) }"

section \<open>Disputes\<close>

text \<open>The validator set whose only member is the accused node.\<close>

definition temp_verifier :: "dispute_payload \<Rightarrow> validator_verifier option" where
  "temp_verifier dispute =
     validator_verifier_new (bt_insert (dp_address dispute)
       \<lparr>vi_public_key = dp_bls_pub_key dispute, vi_vrf_public_key = Some (dp_vrf_pub_key dispute), vi_voting_power = 1\<rparr> [])"

definition verify_dispute_proposals :: "externals \<Rightarrow> dispute_payload \<Rightarrow> block \<Rightarrow> block \<Rightarrow> bool option" where
  "verify_dispute_proposals x dispute proposal1 proposal2 =
     (if b_epoch proposal1 \<noteq> b_epoch proposal2 \<or> b_round proposal1 \<noteq> b_round proposal2 then Some False
      else do {
        vv \<leftarrow> temp_verifier dispute;
        r1 \<leftarrow> validate_signature (xc_crypto x) proposal1 vv;
        if r1 \<noteq> Inr () then Some False
        else do { r2 \<leftarrow> validate_signature (xc_crypto x) proposal2 vv; Some (r2 = Inr ()) } })"

definition verify_dispute_votes :: "externals \<Rightarrow> dispute_payload \<Rightarrow> vote \<Rightarrow> vote \<Rightarrow> bool option" where
  "verify_dispute_votes x dispute vote1 vote2 =
     (let proposed1 = vd_proposed (vote_vote_data vote1); proposed2 = vd_proposed (vote_vote_data vote2) in
      if bi_epoch proposed1 \<noteq> bi_epoch proposed2 \<or> bi_round proposed1 \<noteq> bi_round proposed2 then Some False
      else do {
        vv \<leftarrow> temp_verifier dispute;
        Some (vote_verify (xc_crypto x) vote1 vv = Inr () \<and> vote_verify (xc_crypto x) vote2 vv = Inr ()) })"

definition verify_dispute :: "externals \<Rightarrow> dispute_payload \<Rightarrow> bool option" where
  "verify_dispute x dispute =
     (let computed_address = xc_address x (dp_bls_pub_key dispute) (dp_vrf_pub_key dispute) in
      if dp_address dispute \<noteq> computed_address then Some False
      else case dp_conflicting_votes dispute of
        ConflictProposal proposal_byte1 proposal_byte2 \<Rightarrow>
          (case snd (bc_block (xc_bcs x)) proposal_byte1 of
             None \<Rightarrow> Some False
           | Some proposal1 \<Rightarrow>
               (case snd (bc_block (xc_bcs x)) proposal_byte2 of
                  None \<Rightarrow> Some False
                | Some proposal2 \<Rightarrow> verify_dispute_proposals x dispute proposal1 proposal2))
      | ConflictVote vote_byte1 vote_byte2 \<Rightarrow>
          (case snd (bc_vote (xc_bcs x)) vote_byte1 of
             None \<Rightarrow> Some False
           | Some vote1 \<Rightarrow>
               (case snd (bc_vote (xc_bcs x)) vote_byte2 of
                  None \<Rightarrow> Some False
                | Some vote2 \<Rightarrow> verify_dispute_votes x dispute vote1 vote2)))"

section \<open>User transactions\<close>

definition check_signature_for_user_tx :: "externals \<Rightarrow> signed_transaction \<Rightarrow> vm_status + signed_transaction" where
  "check_signature_for_user_tx x user_txn = map_err (\<lambda>_. INVALID_SIGNATURE) (check_signature x user_txn)"

definition execute_election ::
  "externals \<Rightarrow> pos_state_config \<Rightarrow> pos_state \<Rightarrow> bool \<Rightarrow> election_payload \<Rightarrow> (vm_status + contract_event list) option" where
  "execute_election x conf state catch_up_mode self =
     try_opt (if catch_up_mode then Some (Inr ())
              else map_option (map_err (\<lambda>_. CFX_INVALID_TX))
                (validate_election (xc_address x) (cr_verify_proof (xc_crypto x)) conf self state)) (\<lambda>_.
     do { event \<leftarrow> election_to_event x self; Some (Inr [event]) })"

definition pivot_multi_verify ::
  "externals \<Rightarrow> multi_bls_signature \<Rightarrow> pivot_block_decision \<Rightarrow> public_key list \<Rightarrow> (string + unit) option" where
  "pivot_multi_verify x signature decision public_keys =
     multi_signature_verify (xc_verify_same_message x) signature (MPivotDecision decision) public_keys"

definition execute_pivot ::
  "externals \<Rightarrow> pos_state \<Rightarrow> bool \<Rightarrow> signed_transaction \<Rightarrow> pivot_block_decision \<Rightarrow> (vm_status + contract_event list) option" where
  "execute_pivot x state catch_up_mode tx self =
     try_opt (if catch_up_mode then Some (Inr ())
              else try_opt (Some (case st_authenticator tx of
                  AuthMultiBLS signature \<Rightarrow> Inr signature
                | _ \<Rightarrow> Inl CFX_INVALID_TX)) (\<lambda>signature.
                map_option (map_err (\<lambda>_. CFX_INVALID_TX))
                  (validate_pivot_decision (xc_hardcoded x) (pivot_multi_verify x) self signature state))) (\<lambda>_.
     Some (Inr [pivot_to_event x self]))"

definition execute_dispute ::
  "externals \<Rightarrow> pos_state \<Rightarrow> dispute_payload \<Rightarrow> (vm_status + contract_event list) option" where
  "execute_dispute x state self =
     try_opt (Some (map_err (\<lambda>_. CFX_INVALID_TX) (validate_dispute (dp_address self) state))) (\<lambda>_.
     do { valid \<leftarrow> verify_dispute x self;
          Some (if \<not> valid then Inl CFX_INVALID_TX else Inr [dispute_to_event x self]) })"

definition process_user_transaction ::
  "externals \<Rightarrow> pos_state_config \<Rightarrow> pos_state \<Rightarrow> bool \<Rightarrow> signed_transaction \<Rightarrow> (vm_status + transaction_output) option" where
  "process_user_transaction x conf state catch_up_mode tx =
     try_opt (case rt_payload (st_raw_txn tx) of
         WriteSet (Direct change_set) \<Rightarrow> Some (Inr (cs_events change_set))
       | Election election_payload \<Rightarrow> execute_election x conf state catch_up_mode election_payload
       | Retire retire_payload \<Rightarrow> Some (Inr [retire_to_event x retire_payload])
       | PivotDecision pivot_decision \<Rightarrow> execute_pivot x state catch_up_mode tx pivot_decision
       | Register register \<Rightarrow> Some (Inr [register_to_event x register])
       | UpdateVotingPower payload \<Rightarrow> Some (Inr [update_voting_power_to_event x payload])
       | Dispute dispute \<Rightarrow> execute_dispute x state dispute
       | _ \<Rightarrow> Some (Inl CFX_UNEXPECTED_TX)) (\<lambda>events.
     Some (Inr (gen_output events)))"

definition process_genesis_transction :: "write_set_payload \<Rightarrow> vm_status + transaction_output" where
  "process_genesis_transction change_set =
     try_res (case change_set of
         Direct change_set \<Rightarrow> Inr (cs_events change_set)
       | _ \<Rightarrow> Inl CFX_UNEXPECTED_TX) (\<lambda>events.
     Inr (gen_output events))"

section \<open>Blocks\<close>

definition vm_execute_transaction ::
  "externals \<Rightarrow> pos_state_config \<Rightarrow> pos_state \<Rightarrow> bool \<Rightarrow> pos_transaction \<Rightarrow> (vm_status + transaction_output) option" where
  "vm_execute_transaction x conf state catch_up_mode transaction =
     (case transaction of
        BlockMetadata _ \<Rightarrow> process_block_metadata x conf state
      | UserTransaction user_txn \<Rightarrow>
          try_opt (Some (check_signature_for_user_tx x user_txn)) (\<lambda>tx.
          process_user_transaction x conf state catch_up_mode tx)
      | GenesisTransaction change_set \<Rightarrow> Some (process_genesis_transction change_set))"

fun vm_execute_block ::
  "externals \<Rightarrow> pos_state_config \<Rightarrow> pos_state \<Rightarrow> bool \<Rightarrow> pos_transaction list \<Rightarrow>
     (vm_status + transaction_output list) option" where
  "vm_execute_block x conf state catch_up_mode [] = Some (Inr [])"
| "vm_execute_block x conf state catch_up_mode (transaction # transactions) =
     try_opt (vm_execute_transaction x conf state catch_up_mode transaction) (\<lambda>output.
     try_opt (vm_execute_block x conf state catch_up_mode transactions) (\<lambda>vm_outputs.
     Some (Inr (output # vm_outputs))))"

end
