(* ===== verification/Executor_Types.thy ===== *)
theory Executor_Types
  imports Pos_Vm Accumulator
begin

text \<open>
  The results of executing a block (\<^verbatim>\<open>executor-types/src/lib.rs\<close>, \<^verbatim>\<open>processed_vm_output.rs\<close>, \<^verbatim>\<open>error.rs\<close>).
  The hash functions are arguments: \<open>hs_txn_node\<close> and \<open>hs_event_node\<close> hash an inner node of the
  transaction and of an event accumulator, \<open>hs_placeholder\<close> is the hash of an empty subtree.
\<close>

datatype executor_error = BlockNotFound hash | InternalError string | SerializationError string

record transaction_info =
  ti_transaction_hash :: hash
  ti_state_root_hash :: hash
  ti_event_root_hash :: hash
  ti_gas_used :: nat
  ti_status :: kept_vm_status

record hashers =
  hs_txn_node :: "hash \<Rightarrow> hash \<Rightarrow> hash"
  hs_event_node :: "hash \<Rightarrow> hash \<Rightarrow> hash"
  hs_placeholder :: hash
  hs_event :: "contract_event \<Rightarrow> hash"
  hs_txn :: "pos_transaction \<Rightarrow> hash"
  hs_txn_info :: "transaction_info \<Rightarrow> hash"

section \<open>Executed trees\<close>

record executed_trees =
  et_transaction_accumulator :: accumulator
  et_pos_state :: pos_state

record tree_state =
  ts_num_transactions :: nat
  ts_ledger_frozen_subtree_hashes :: "hash list"
  ts_account_state_root_hash :: hash

text \<open>The roots read from the storage must be valid: an error is a panic.\<close>

definition executed_trees_new :: "hashers \<Rightarrow> hash list \<Rightarrow> nat \<Rightarrow> pos_state \<Rightarrow> executed_trees option" where
  "executed_trees_new hs frozen_subtrees_in_accumulator num_leaves_in_accumulator pos_state =
     do { r \<leftarrow> accumulator_new (hs_txn_node hs) (hs_placeholder hs) frozen_subtrees_in_accumulator num_leaves_in_accumulator;
          case r of Inl _ \<Rightarrow> None
          | Inr a \<Rightarrow> Some \<lparr>et_transaction_accumulator = a, et_pos_state = pos_state\<rparr> }"

definition executed_trees_new_empty :: "hashers \<Rightarrow> executed_trees option" where
  "executed_trees_new_empty hs = do { s \<leftarrow> pos_state_new_empty; executed_trees_new hs [] 0 s }"

definition executed_trees_new_with_pos_state :: "hashers \<Rightarrow> tree_state \<Rightarrow> pos_state \<Rightarrow> executed_trees option" where
  "executed_trees_new_with_pos_state hs tree_state pos_state =
     executed_trees_new hs (ts_ledger_frozen_subtree_hashes tree_state) (ts_num_transactions tree_state) pos_state"

definition executed_trees_from :: "hashers \<Rightarrow> tree_state \<Rightarrow> executed_trees option" where
  "executed_trees_from hs tree_state =
     do { s \<leftarrow> pos_state_new_empty;
          executed_trees_new hs (ts_ledger_frozen_subtree_hashes tree_state) (ts_num_transactions tree_state) s }"

definition et_version :: "executed_trees \<Rightarrow> nat option" where
  "et_version self =
     (let num_elements = acc_num_leaves (et_transaction_accumulator self) in
      if num_elements = 0 then None else Some (num_elements - 1))"

definition et_state_id :: "executed_trees \<Rightarrow> hash" where
  "et_state_id self = acc_root_hash (et_transaction_accumulator self)"

definition et_set_pos_state_skipped :: "bool \<Rightarrow> executed_trees \<Rightarrow> executed_trees" where
  "et_set_pos_state_skipped skipped self = self\<lparr>et_pos_state := set_skipped skipped (et_pos_state self)\<rparr>"

section \<open>Processed output\<close>

record transaction_data =
  xd_events :: "contract_event list"
  xd_status :: transaction_status
  xd_event_tree :: accumulator
  xd_gas_used :: nat
  xd_txn_info_hash :: "hash option"

record processed_vm_output =
  po_transaction_data :: "transaction_data list"
  po_executed_trees :: executed_trees
  po_epoch_state :: "epoch_state option"
  po_pivot_block :: "pivot_block_decision option"

definition po_has_reconfiguration :: "processed_vm_output \<Rightarrow> bool" where
  "po_has_reconfiguration self \<longleftrightarrow> po_epoch_state self \<noteq> None"

definition po_replace_pos_state :: "pos_state \<Rightarrow> processed_vm_output \<Rightarrow> processed_vm_output" where
  "po_replace_pos_state new_pos_state self =
     self\<lparr>po_executed_trees := (po_executed_trees self)\<lparr>et_pos_state := new_pos_state\<rparr>\<rparr>"

definition po_set_pos_state_skipped :: "processed_vm_output \<Rightarrow> processed_vm_output" where
  "po_set_pos_state_skipped self =
     self\<lparr>po_executed_trees := et_set_pos_state_skipped True (po_executed_trees self)\<rparr>"

record state_compute_result =
  sr_root_hash :: hash
  sr_frozen_subtree_roots :: "hash list"
  sr_parent_frozen_subtree_roots :: "hash list"
  sr_num_leaves :: nat
  sr_parent_num_leaves :: nat
  sr_epoch_state :: "epoch_state option"
  sr_compute_status :: "transaction_status list"
  sr_transaction_info_hashes :: "hash list"
  sr_signature :: "signature option"
  sr_pivot_decision :: "pivot_block_decision option"

text \<open>The hash of all zeros is \<open>0\<close>.\<close>

definition compute_result :: "processed_vm_output \<Rightarrow> hash list \<Rightarrow> nat \<Rightarrow> state_compute_result" where
  "compute_result self parent_frozen_subtree_roots parent_num_leaves =
     (let txn_accu = et_transaction_accumulator (po_executed_trees self) in
      \<lparr>sr_root_hash = (if parent_num_leaves = 0 then et_state_id (po_executed_trees self) else 0),
       sr_frozen_subtree_roots = acc_frozen_subtree_roots txn_accu,
       sr_parent_frozen_subtree_roots = parent_frozen_subtree_roots,
       sr_num_leaves = acc_num_leaves txn_accu,
       sr_parent_num_leaves = parent_num_leaves,
       sr_epoch_state = po_epoch_state self,
       sr_compute_status = map xd_status (po_transaction_data self),
       sr_transaction_info_hashes = List.map_filter xd_txn_info_hash (po_transaction_data self),
       sr_signature = None,
       sr_pivot_decision = po_pivot_block self\<rparr>)"

definition sr_version :: "state_compute_result \<Rightarrow> nat option" where
  "sr_version self = sub64 (max (sr_num_leaves self) 1) 1"

definition sr_extension_proof :: "state_compute_result \<Rightarrow> accumulator_extension_proof" where
  "sr_extension_proof self =
     \<lparr>ep_frozen_subtree_roots = sr_parent_frozen_subtree_roots self, ep_num_leaves = sr_parent_num_leaves self,
      ep_leaves = sr_transaction_info_hashes self\<rparr>"

end
