(* ===== verification/Speculation_Cache.thy ===== *)
theory Speculation_Cache
  imports Executor_Types
begin

text \<open>
  The speculation cache (\<^verbatim>\<open>cached-pos-ledger-db/src/speculation_cache/mod.rs\<close>): the executed blocks above the
  committed one, as a forest in which every block owns its children, and a map of weak pointers to them. A
  weak pointer is the identifier of its block; it can be upgraded as long as the block is in the forest. A
  block that is dropped removes its entry of the map and panics if it has none.
\<close>

section \<open>Blocks\<close>

datatype speculation_block =
  SpeculationBlock (sb_id: hash) (sb_transactions: "pos_transaction list") (sb_children: "speculation_block list")
    (sb_output: processed_vm_output)

fun block_ids :: "speculation_block \<Rightarrow> hash list" where
  "block_ids (SpeculationBlock i txns children output) = i # concat (map block_ids children)"

abbreviation forest_ids :: "speculation_block list \<Rightarrow> hash list" where
  "forest_ids bs \<equiv> concat (map block_ids bs)"

text \<open>The destructor runs before the destructors of the fields.\<close>

fun drop_block :: "speculation_block \<Rightarrow> hash set \<Rightarrow> hash set option"
  and drop_blocks :: "speculation_block list \<Rightarrow> hash set \<Rightarrow> hash set option" where
  "drop_block (SpeculationBlock i txns children output) block_map =
     do { assert_that (i \<in> block_map); drop_blocks children (block_map - {i}) }"
| "drop_blocks [] block_map = Some block_map"
| "drop_blocks (b # bs) block_map = do { m \<leftarrow> drop_block b block_map; drop_blocks bs m }"

text \<open>The same, where a strong pointer to the block \<open>keep\<close> is held elsewhere.\<close>

fun drop_block_except :: "hash \<Rightarrow> speculation_block \<Rightarrow> hash set \<Rightarrow> hash set option"
  and drop_blocks_except :: "hash \<Rightarrow> speculation_block list \<Rightarrow> hash set \<Rightarrow> hash set option" where
  "drop_block_except keep (SpeculationBlock i txns children output) block_map =
     (if i = keep then Some block_map
      else do { assert_that (i \<in> block_map); drop_blocks_except keep children (block_map - {i}) })"
| "drop_blocks_except keep [] block_map = Some block_map"
| "drop_blocks_except keep (b # bs) block_map =
     do { m \<leftarrow> drop_block_except keep b block_map; drop_blocks_except keep bs m }"

text \<open>Following a weak pointer, and writing through it.\<close>

fun find_block :: "hash \<Rightarrow> speculation_block list \<Rightarrow> speculation_block option" where
  "find_block k [] = None"
| "find_block k (SpeculationBlock i txns children output # bs) =
     (if i = k then Some (SpeculationBlock i txns children output)
      else case find_block k children of Some b \<Rightarrow> Some b | None \<Rightarrow> find_block k bs)"

fun modify_block :: "hash \<Rightarrow> (speculation_block \<Rightarrow> speculation_block) \<Rightarrow> speculation_block \<Rightarrow> speculation_block" where
  "modify_block k f (SpeculationBlock i txns children output) =
     (if i = k then f (SpeculationBlock i txns children output)
      else SpeculationBlock i txns (map (modify_block k f) children) output)"

definition sb_add_child :: "speculation_block \<Rightarrow> speculation_block \<Rightarrow> speculation_block" where
  "sb_add_child child self =
     SpeculationBlock (sb_id self) (sb_transactions self) (sb_children self @ [child]) (sb_output self)"

definition sb_replace :: "pos_transaction list \<Rightarrow> processed_vm_output \<Rightarrow> speculation_block \<Rightarrow> speculation_block" where
  "sb_replace transactions output self = SpeculationBlock (sb_id self) transactions [] output"

definition sb_replace_pos_state :: "pos_state \<Rightarrow> speculation_block \<Rightarrow> speculation_block" where
  "sb_replace_pos_state new_pos_state self =
     SpeculationBlock (sb_id self) (sb_transactions self) (sb_children self) (po_replace_pos_state new_pos_state (sb_output self))"

section \<open>The cache\<close>

record speculation_cache =
  sc_synced_trees :: executed_trees
  sc_committed_trees :: executed_trees
  sc_committed_txns_and_events :: "pos_transaction list \<times> contract_event list"
  sc_committed_block_id :: hash
  sc_heads :: "speculation_block list"
  sc_block_map :: "hash set"

text \<open>\<open>pre_genesis\<close> is \<^verbatim>\<open>PRE_GENESIS_BLOCK_ID\<close>.\<close>

definition cache_new :: "hashers \<Rightarrow> hash \<Rightarrow> speculation_cache option" where
  "cache_new hs pre_genesis =
     do { trees \<leftarrow> executed_trees_new_empty hs;
          Some \<lparr>sc_synced_trees = trees, sc_committed_trees = trees, sc_committed_txns_and_events = ([], []),
                sc_committed_block_id = pre_genesis, sc_heads = [], sc_block_map = {}\<rparr> }"

definition cache_new_for_db_bootstrapping ::
  "hashers \<Rightarrow> hash \<Rightarrow> tree_state \<Rightarrow> pos_state \<Rightarrow> speculation_cache option" where
  "cache_new_for_db_bootstrapping hs pre_genesis tree_state pos_state =
     do { executor_trees \<leftarrow> executed_trees_new_with_pos_state hs tree_state pos_state;
          Some \<lparr>sc_synced_trees = executor_trees, sc_committed_trees = executor_trees,
                sc_committed_txns_and_events = ([], []), sc_committed_block_id = pre_genesis, sc_heads = [],
                sc_block_map = {}\<rparr> }"

definition update_synced_trees :: "executed_trees \<Rightarrow> speculation_cache \<Rightarrow> speculation_cache" where
  "update_synced_trees new_trees self = self\<lparr>sc_synced_trees := new_trees\<rparr>"

text \<open>When the ledger info ends an epoch, the root is the genesis block of the next one.\<close>

definition update_block_tree_root ::
  "crypto \<Rightarrow> executed_trees \<Rightarrow> ledger_info \<Rightarrow> pos_transaction list \<Rightarrow> contract_event list \<Rightarrow> speculation_cache \<Rightarrow>
     speculation_cache option" where
  "update_block_tree_root cr committed_trees committed_ledger_info committed_txns reconfig_events self =
     do { (new_root_block_id, committed_trees) \<leftarrow>
            (if has_reconfiguration (li_commit_info committed_ledger_info)
             then do { b \<leftarrow> make_genesis_block_from_ledger_info cr committed_ledger_info;
                       Some (b_id b, et_set_pos_state_skipped False committed_trees) }
             else Some (bi_id (li_commit_info committed_ledger_info), committed_trees));
          Some (self\<lparr>sc_committed_block_id := new_root_block_id, sc_committed_trees := committed_trees,
                     sc_committed_txns_and_events := (committed_txns, reconfig_events),
                     sc_synced_trees := committed_trees\<rparr>) }"

record startup_info =
  si_latest_ledger_info :: ledger_info_with_signatures
  si_latest_epoch_state :: "epoch_state option"
  si_committed_tree_state :: tree_state
  si_synced_tree_state :: "tree_state option"
  si_committed_pos_state :: pos_state

definition cache_new_with_startup_info :: "crypto \<Rightarrow> hashers \<Rightarrow> hash \<Rightarrow> startup_info \<Rightarrow> speculation_cache option" where
  "cache_new_with_startup_info cr hs pre_genesis startup_info =
     do { cache \<leftarrow> cache_new hs pre_genesis;
          committed_trees \<leftarrow> executed_trees_new_with_pos_state hs (si_committed_tree_state startup_info)
            (si_committed_pos_state startup_info);
          cache \<leftarrow> update_block_tree_root cr committed_trees
            (lis_ledger_info (si_latest_ledger_info startup_info)) [] [] cache;
          case si_synced_tree_state startup_info of
            None \<Rightarrow> Some cache
          | Some synced_tree_state \<Rightarrow>
              do { trees \<leftarrow> executed_trees_from hs synced_tree_state; Some (update_synced_trees trees cache) } }"

definition cache_reset :: "speculation_cache \<Rightarrow> speculation_cache option" where
  "cache_reset self =
     do { m \<leftarrow> drop_blocks (sc_heads self) (sc_block_map self);
          Some (self\<lparr>sc_heads := [], sc_block_map := {}\<rparr>) }"

definition cache_get_block :: "hash \<Rightarrow> speculation_cache \<Rightarrow> executor_error + speculation_block" where
  "cache_get_block block_id self =
     (if block_id \<notin> sc_block_map self then Inl (BlockNotFound block_id)
      else ok_or (find_block block_id (sc_heads self)) (InternalError ''block has been deallocated''))"

text \<open>
  A new block that finds no parent is dropped, which removes the entry just inserted. A new block named as its own
  parent would become its own owner, which no forest represents: there is no result then. The identifier
  of a block is the hash of data with its parent's, so this does not happen.
\<close>

definition cache_add_block ::
  "hash \<Rightarrow> hash \<times> pos_transaction list \<times> processed_vm_output \<Rightarrow> speculation_cache \<Rightarrow>
     (speculation_cache \<times> (executor_error + unit)) option" where
  "cache_add_block parent_block_id block self =
     (let (block_id, txns, output) = block in
      if block_id \<in> sc_block_map self
      then (case find_block block_id (sc_heads self) of
              None \<Rightarrow> Some (self, Inl (InternalError ''block has been deallocated''))
            | Some old_block \<Rightarrow>
                do { m \<leftarrow> drop_blocks (sb_children old_block) (sc_block_map self);
                     Some (self\<lparr>sc_heads := map (modify_block block_id (sb_replace txns output)) (sc_heads self),
                                sc_block_map := m\<rparr>, Inr ()) })
      else
        let new_block = SpeculationBlock block_id txns [] output;
            self = self\<lparr>sc_block_map := insert block_id (sc_block_map self)\<rparr> in
        if parent_block_id = sc_committed_block_id self
        then Some (self\<lparr>sc_heads := sc_heads self @ [new_block]\<rparr>, Inr ())
        else if parent_block_id = block_id then None
        else case cache_get_block parent_block_id self of
          Inr _ \<Rightarrow> Some (self\<lparr>sc_heads := map (modify_block parent_block_id (sb_add_child new_block)) (sc_heads self)\<rparr>, Inr ())
        | Inl e \<Rightarrow> do { m \<leftarrow> drop_block new_block (sc_block_map self);
                        Some (self\<lparr>sc_block_map := m\<rparr>, Inl e) })"

text \<open>
  The committed block is held by a strong pointer while the old heads are dropped; it is dropped itself at the
  end, when its children are owned by the new heads as well.
\<close>

definition cache_prune ::
  "crypto \<Rightarrow> ledger_info \<Rightarrow> pos_transaction list \<Rightarrow> contract_event list \<Rightarrow> speculation_cache \<Rightarrow>
     (speculation_cache \<times> (executor_error + hash)) option" where
  "cache_prune cr committed_ledger_info committed_txns reconfig_events self =
     (let old_committed_root = sc_committed_block_id self in
      case cache_get_block (bi_id (li_commit_info committed_ledger_info)) self of
        Inl e \<Rightarrow> Some (self, Inl e)
      | Inr latest_committed_block \<Rightarrow>
          do { m \<leftarrow> drop_blocks_except (sb_id latest_committed_block) (sc_heads self) (sc_block_map self);
               self \<leftarrow> update_block_tree_root cr (po_executed_trees (sb_output latest_committed_block)) committed_ledger_info
                 committed_txns reconfig_events
                 (self\<lparr>sc_heads := sb_children latest_committed_block, sc_block_map := m\<rparr>);
               assert_that (sb_id latest_committed_block \<in> sc_block_map self);
               Some (self\<lparr>sc_block_map := sc_block_map self - {sb_id latest_committed_block}\<rparr>, Inr old_committed_root) })"

definition cache_replace_pos_state ::
  "hash \<Rightarrow> pos_state \<Rightarrow> speculation_cache \<Rightarrow> speculation_cache" where
  "cache_replace_pos_state block_id new_pos_state self =
     self\<lparr>sc_heads := map (modify_block block_id (sb_replace_pos_state new_pos_state)) (sc_heads self)\<rparr>"

definition cache_executed_trees :: "hash \<Rightarrow> speculation_cache \<Rightarrow> executor_error + executed_trees" where
  "cache_executed_trees block_id self =
     (if block_id = sc_committed_block_id self then Inr (sc_committed_trees self)
      else try_res (cache_get_block block_id self) (\<lambda>b. Inr (po_executed_trees (sb_output b))))"

end
