(* ===== verification/Executor.thy ===== *)
theory Executor
  imports Speculation_Cache
begin

text \<open>
  Execution of a block (\<^verbatim>\<open>executor/src/lib.rs\<close>): the events that the virtual machine emits are applied to a
  copy of the parent's state, which then moves to the next view. The proof-of-work chain is an argument.
\<close>

record pow_interface =
  pw_validate_proposal_pivot_decision :: "bytes \<Rightarrow> bytes \<Rightarrow> bool"
  pw_get_staking_events :: "nat \<Rightarrow> nat \<Rightarrow> bytes \<Rightarrow> bytes \<Rightarrow> string + staking_event list"

record exec_env =
  ev_x :: externals
  ev_conf :: pos_state_config
  ev_hs :: hashers
  ev_pow :: pow_interface
  ev_pre_genesis :: hash

section \<open>Loops over events\<close>

fun try_fold :: "('e \<Rightarrow> 's \<Rightarrow> (string + 's) option) \<Rightarrow> 'e list \<Rightarrow> 's \<Rightarrow> (string + 's) option" where
  "try_fold f [] s = Some (Inr s)"
| "try_fold f (e # es) s = try_opt (f e s) (\<lambda>s'. try_fold f es s')"

text \<open>An operation of the state with \<^verbatim>\<open>?\<close>: the copy of the state is lost when it fails.\<close>

definition run_pos :: "(pos_state \<times> (string + unit)) option \<Rightarrow> (string + pos_state) option" where
  "run_pos r = do { (s, res) \<leftarrow> r; Some (try_res res (\<lambda>_. Inr s)) }"

definition decode :: "'a serde \<Rightarrow> contract_event \<Rightarrow> string + 'a" where
  "decode s event = ok_or (snd s (ce_data event)) ''bcs error''"

definition select_event ::
  "exec_env \<Rightarrow> contract_event \<Rightarrow> pivot_block_decision option \<times> pos_state \<Rightarrow>
     (string + pivot_block_decision option \<times> pos_state) option" where
  "select_event env event st =
     (let (pivot_decision, state) = st; x = ev_x env; conf = ev_conf env in
      if ce_key event = pivot_select_event_key
      then if pivot_decision \<noteq> None then Some (Inl ''Multiple pivot decisions in one block!'')
           else Some (try_res (decode (bc_pivot (xc_bcs x)) event) (\<lambda>p. Inr (Some p, state)))
      else if ce_key event = election_event_key
      then try_opt (Some (decode (bc_election (xc_bcs x)) event)) (\<lambda>election_event.
           try_opt (run_pos (pst_new_node_elected (xc_vrf_number x) conf election_event state)) (\<lambda>state'.
           Some (Inr (pivot_decision, state'))))
      else if ce_key event = dispute_event_key
      then try_opt (Some (decode (bc_dispute (xc_bcs x)) event)) (\<lambda>node_id.
           try_opt (run_pos (forfeit_node conf node_id state)) (\<lambda>state'.
           Some (Inr (pivot_decision, state'))))
      else Some (Inr st))"

text \<open>The next event of the proof-of-work chain. An event that cannot be decoded is only logged.\<close>

definition next_staking_event ::
  "(staking_event \<Rightarrow> string + bool) \<Rightarrow> staking_event list \<Rightarrow> string + staking_event list" where
  "next_staking_event matches staking_events_iter =
     (case staking_events_iter of
        [] \<Rightarrow> Inl ''More staking transactions packed than actual pow events''
      | staking_event # rest \<Rightarrow>
          (case matches staking_event of
             Inr True \<Rightarrow> Inr rest
           | Inr False \<Rightarrow> Inl ''Packed staking transactions unmatch PoW events)''
           | Inl e \<Rightarrow> Inr rest))"

definition verified_staking_event ::
  "exec_env \<Rightarrow> contract_event \<Rightarrow> staking_event list \<times> pos_state \<Rightarrow> (string + staking_event list \<times> pos_state) option" where
  "verified_staking_event env event st =
     (let (iter, state) = st; x = ev_x env; conf = ev_conf env in
      if ce_key event = register_event_key
      then try_opt (Some (decode (bc_register (xc_bcs x)) event)) (\<lambda>register_event.
           try_opt (Some (next_staking_event (register_matches_staking_event x register_event) iter)) (\<lambda>iter'.
           try_opt (run_pos (Some (register_node register_event state))) (\<lambda>state'. Some (Inr (iter', state')))))
      else if ce_key event = update_voting_power_event_key
      then try_opt (Some (decode (bc_update (xc_bcs x)) event)) (\<lambda>e.
           try_opt (Some (next_staking_event (update_matches_staking_event x e) iter)) (\<lambda>iter'.
           try_opt (run_pos (update_voting_power conf (ue_node_address e) (ue_voting_power e) state)) (\<lambda>state'.
           Some (Inr (iter', state')))))
      else if ce_key event = retire_event_key
      then try_opt (Some (decode (bc_retire (xc_bcs x)) event)) (\<lambda>e.
           try_opt (Some (next_staking_event (retire_matches_staking_event x e) iter)) (\<lambda>iter'.
           try_opt (run_pos (retire_node conf (re_node_id e) (re_votes e) state)) (\<lambda>state'.
           Some (Inr (iter', state')))))
      else Some (Inr st))"

definition catch_up_staking_event :: "exec_env \<Rightarrow> contract_event \<Rightarrow> pos_state \<Rightarrow> (string + pos_state) option" where
  "catch_up_staking_event env event state =
     (let x = ev_x env; conf = ev_conf env in
      if ce_key event = register_event_key
      then try_opt (Some (decode (bc_register (xc_bcs x)) event)) (\<lambda>register_event.
           run_pos (Some (register_node register_event state)))
      else if ce_key event = update_voting_power_event_key
      then try_opt (Some (decode (bc_update (xc_bcs x)) event)) (\<lambda>e.
           run_pos (update_voting_power conf (ue_node_address e) (ue_voting_power e) state))
      else if ce_key event = retire_event_key
      then try_opt (Some (decode (bc_retire (xc_bcs x)) event)) (\<lambda>e.
           run_pos (retire_node conf (re_node_id e) (re_votes e) state))
      else Some (Inr state))"

section \<open>Processing the output of the virtual machine\<close>

definition process_staking ::
  "exec_env \<Rightarrow> contract_event list \<Rightarrow> bool \<Rightarrow> pivot_block_decision \<Rightarrow> pivot_block_decision \<Rightarrow> pos_state \<Rightarrow>
     (string + pos_state) option" where
  "process_staking env events catch_up_mode parent_pivot_decision pivot_decision state =
     (if \<not> catch_up_mode
      then if \<not> pw_validate_proposal_pivot_decision (ev_pow env) (pd_block_hash parent_pivot_decision) (pd_block_hash pivot_decision)
           then Some (Inl ''Invalid pivot decision for block'')
           else try_opt (Some (pw_get_staking_events (ev_pow env) (pd_height parent_pivot_decision) (pd_height pivot_decision)
                  (pd_block_hash parent_pivot_decision) (pd_block_hash pivot_decision))) (\<lambda>staking_events.
                try_opt (try_fold (verified_staking_event env) events (staking_events, state)) (\<lambda>(iter, state').
                try_opt (Some (ensure (iter = []) ''Not all PoW staking events are packed'')) (\<lambda>_.
                Some (Inr state'))))
      else try_fold (catch_up_staking_event env) events state)"

definition transaction_data_of ::
  "hashers \<Rightarrow> transaction_output \<Rightarrow> pos_transaction \<Rightarrow> transaction_data option" where
  "transaction_data_of hs vm_output txn =
     do { event_tree \<leftarrow> from_leaves (hs_event_node hs) (hs_placeholder hs) (map (hs_event hs) (to_events vm_output));
          let txn_info_hash = (case to_status vm_output of
              Keep status \<Rightarrow> Some (hs_txn_info hs \<lparr>ti_transaction_hash = hs_txn hs txn, ti_state_root_hash = 0,
                ti_event_root_hash = acc_root_hash event_tree, ti_gas_used = to_gas_used vm_output, ti_status = status\<rparr>)
            | Discard status \<Rightarrow> None
            | Retry \<Rightarrow> None);
          Some \<lparr>xd_events = to_events vm_output, xd_status = to_status vm_output, xd_event_tree = event_tree,
                xd_gas_used = to_gas_used vm_output, xd_txn_info_hash = txn_info_hash\<rparr> }"

text \<open>\<^verbatim>\<open>zip_eq\<close> panics when one of the lists ends first.\<close>

fun transaction_datas ::
  "hashers \<Rightarrow> transaction_output list \<Rightarrow> pos_transaction list \<Rightarrow> transaction_data list option" where
  "transaction_datas hs [] [] = Some []"
| "transaction_datas hs (vm_output # vm_outputs) (txn # txns) =
     do { d \<leftarrow> transaction_data_of hs vm_output txn; ds \<leftarrow> transaction_datas hs vm_outputs txns; Some (d # ds) }"
| "transaction_datas hs _ _ = None"

text \<open>The first epoch is the one of the validator set in the genesis event.\<close>

definition genesis_epoch_state ::
  "exec_env \<Rightarrow> transaction_data list \<Rightarrow> pivot_block_decision option \<Rightarrow> (string + epoch_state) option" where
  "genesis_epoch_state env txn_data pivot_decision =
     (case find (\<lambda>event. ce_key event = new_epoch_event_key) (concat (map xd_events txn_data)) of
        None \<Rightarrow> Some (Inl ''Genesis epoch event not found'')
      | Some event \<Rightarrow>
          try_opt (Some (decode (bc_validator_set (xc_bcs (ev_x env))) event)) (\<lambda>validator_set.
          do { v \<leftarrow> validator_verifier_from_set validator_set;
               Some (Inr \<lparr>es_epoch = 1, es_verifier = v,
                 es_vrf_seed = (case pivot_decision of None \<Rightarrow> [] | Some p \<Rightarrow> pd_block_hash p)\<rparr>) }))"

definition process_pivot ::
  "exec_env \<Rightarrow> contract_event list \<Rightarrow> hash \<Rightarrow> bool \<Rightarrow> pivot_block_decision \<Rightarrow> pivot_block_decision option \<times> pos_state \<Rightarrow>
     (string + pivot_block_decision option \<times> pos_state) option" where
  "process_pivot env events parent_block_id catch_up_mode parent_pivot_decision st =
     (let (pivot_decision, state) = st in
      if parent_block_id \<noteq> ev_pre_genesis env
      then case pivot_decision of
          Some pivot_decision' \<Rightarrow>
            try_opt (process_staking env events catch_up_mode parent_pivot_decision pivot_decision' state) (\<lambda>state'.
            Some (Inr (pivot_decision, state')))
        | None \<Rightarrow>
            if \<exists>event\<in>set events. ce_key event = retire_event_key \<or> ce_key event = update_voting_power_event_key
            then Some (Inl ''Should not pack staking related transactions'')
            else Some (Inr (Some parent_pivot_decision, state))
      else Some (Inr st))"

definition process_vm_outputs ::
  "exec_env \<Rightarrow> pos_transaction list \<Rightarrow> transaction_output list \<Rightarrow> executed_trees \<Rightarrow> hash \<Rightarrow> bool \<Rightarrow>
     (string + processed_vm_output) option" where
  "process_vm_outputs env transactions vm_outputs parent_trees parent_block_id catch_up_mode =
     (let parent_pivot_decision = pst_pivot_decision (et_pos_state parent_trees);
          events = concat (map to_events vm_outputs) in
      try_opt (try_fold (select_event env) events (None, et_pos_state parent_trees)) (\<lambda>st.
      try_opt (process_pivot env events parent_block_id catch_up_mode parent_pivot_decision st) (\<lambda>(pivot_decision, state).
      do { let state = (case pivot_decision of None \<Rightarrow> state | Some p \<Rightarrow> set_pivot_decision p state);
           (new_pos_state, next_epoch_state) \<leftarrow> next_view (ev_conf env) state;
           let is_genesis = (case next_epoch_state of None \<Rightarrow> False | Some es \<Rightarrow> es_epoch es = 1);
           txn_data \<leftarrow> transaction_datas (ev_hs env) vm_outputs transactions;
           try_opt (if is_genesis then map_option (map_sum id Some) (genesis_epoch_state env txn_data pivot_decision)
                    else Some (Inr next_epoch_state)) (\<lambda>next_epoch_state.
           do { accumulator \<leftarrow> acc_append (hs_txn_node (ev_hs env)) (hs_placeholder (ev_hs env))
                  (et_transaction_accumulator parent_trees) (List.map_filter xd_txn_info_hash txn_data);
                Some (Inr \<lparr>po_transaction_data = txn_data,
                  po_executed_trees = \<lparr>et_transaction_accumulator = accumulator, et_pos_state = new_pos_state\<rparr>,
                  po_epoch_state = next_epoch_state, po_pivot_block = pivot_decision\<rparr>) }) })))"

section \<open>Executing a block\<close>

definition suffix_output :: "processed_vm_output \<Rightarrow> processed_vm_output" where
  "suffix_output parent_output =
     po_set_pos_state_skipped \<lparr>po_transaction_data = [], po_executed_trees = po_executed_trees parent_output,
       po_epoch_state = po_epoch_state parent_output, po_pivot_block = po_pivot_block parent_output\<rparr>"

definition result_on :: "processed_vm_output \<Rightarrow> executed_trees \<Rightarrow> state_compute_result" where
  "result_on out parent_trees =
     (let parent_accu = et_transaction_accumulator parent_trees in
      compute_result out (acc_frozen_subtree_roots parent_accu) (acc_num_leaves parent_accu))"

text \<open>The output of a block, with the transactions it keeps.\<close>

definition execute_on_parent ::
  "exec_env \<Rightarrow> pos_transaction list \<Rightarrow> hash \<Rightarrow> bool \<Rightarrow> speculation_cache \<Rightarrow>
     (executor_error + processed_vm_output \<times> pos_transaction list \<times> state_compute_result) option" where
  "execute_on_parent env transactions parent_block_id catch_up_mode cache =
     try_opt (if parent_block_id \<noteq> sc_committed_block_id cache
              then Some (try_res (cache_get_block parent_block_id cache) (\<lambda>b.
                Inr (if po_has_reconfiguration (sb_output b) then Some (sb_output b) else None)))
              else Some (Inr None)) (\<lambda>reconfiguration.
     case reconfiguration of
       Some parent_output \<Rightarrow>
         let out = suffix_output parent_output in
         Some (Inr (out, [], result_on out (po_executed_trees parent_output)))
     | None \<Rightarrow>
         try_opt (Some (cache_executed_trees parent_block_id cache)) (\<lambda>parent_trees.
         try_opt (map_option (map_err (\<lambda>_. InternalError ''vm error''))
           (vm_execute_block (ev_x env) (ev_conf env) (et_pos_state parent_trees) catch_up_mode transactions)) (\<lambda>vm_outputs.
         try_opt (map_option (map_err InternalError)
           (process_vm_outputs env transactions vm_outputs parent_trees parent_block_id catch_up_mode)) (\<lambda>out.
         Some (Inr (out, transactions, result_on out parent_trees))))))"

definition execute_block ::
  "exec_env \<Rightarrow> hash \<times> pos_transaction list \<Rightarrow> hash \<Rightarrow> bool \<Rightarrow> speculation_cache \<Rightarrow>
     (speculation_cache \<times> (executor_error + state_compute_result)) option" where
  "execute_block env block parent_block_id catch_up_mode cache =
     (let (block_id, transactions) = block in
      do { r \<leftarrow> execute_on_parent env transactions parent_block_id catch_up_mode cache;
           case r of
             Inl e \<Rightarrow> Some (cache, Inl e)
           | Inr (out, transactions', state_compute_result) \<Rightarrow>
               do { (cache', added) \<leftarrow> cache_add_block parent_block_id (block_id, transactions', out) cache;
                    Some (cache', try_res added (\<lambda>_. Inr state_compute_result)) } })"

definition extract_reconfig_events :: "contract_event list \<Rightarrow> contract_event list" where
  "extract_reconfig_events events = filter (\<lambda>event. ce_key event = new_epoch_event_key) events"

end
