(* ===== verification/Commit.thy ===== *)
theory Commit
  imports Executor
begin

text \<open>
  Committing blocks (\<^verbatim>\<open>commit_blocks\<close> of \<^verbatim>\<open>executor/src/lib.rs\<close>): at the end of an epoch the votes in the
  certificates of its blocks are counted, members without a vote are retired and the rewards are recorded; then
  the transactions of the blocks are saved and the speculation cache is pruned. The databases are arguments: what
  they return when read, and whether a write succeeds. The writes made are returned in order.
\<close>

section \<open>Databases\<close>

text \<open>The counter of the rounds led has 32 bits.\<close>

definition U32_MAX :: nat where "U32_MAX = 4294967295"

definition add32 :: "nat \<Rightarrow> nat \<Rightarrow> nat option" where
  "add32 a b = (if a + b \<le> U32_MAX then Some (a + b) else None)"

record vote_count =
  vc_leader_count :: nat
  vc_included_vote_count :: nat
  vc_total_votes :: nat
  vc_vote_count :: nat

definition vote_count_default :: vote_count where
  "vote_count_default = \<lparr>vc_leader_count = 0, vc_included_vote_count = 0, vc_total_votes = 0, vc_vote_count = 0\<rparr>"

type_synonym vote_counts = "(address, vote_count) btree"

record reward_distribution_event =
  rd_candidates :: "(address, nat) btree"
  rd_elected :: vote_counts
  rd_view :: view

text \<open>The points a member or a candidate is rewarded with.\<close>

definition reward_points :: "pos_state_config \<Rightarrow> view \<Rightarrow> vote_count \<Rightarrow> nat option" where
  "reward_points conf view self =
     (if vc_vote_count self = 0 then Some 0
      else do { lp \<leftarrow> leader_points conf view;
                leader \<leftarrow> mul64 (vc_leader_count self) lp;
                bp \<leftarrow> bonus_vote_points conf view;
                bonus \<leftarrow> mul64 (vc_included_vote_count self) bp;
                committee \<leftarrow> mul64 (vc_total_votes self) COMMITTEE_POINTS;
                s \<leftarrow> add64 leader bonus;
                add64 s committee })"

fun committee_rewards :: "pos_state_config \<Rightarrow> view \<Rightarrow> vote_counts \<Rightarrow> (address \<times> nat) list option" where
  "committee_rewards conf view [] = Some []"
| "committee_rewards conf view ((node, c) # elected) =
     do { p \<leftarrow> reward_points conf view c; rest \<leftarrow> committee_rewards conf view elected; Some ((node, p) # rest) }"

fun participate_rewards :: "(address, nat) btree \<Rightarrow> (address \<times> nat) list option" where
  "participate_rewards [] = Some []"
| "participate_rewards ((node, cnt) # candidates) =
     do { p \<leftarrow> mul64 ELECTION_POINTS cnt; rest \<leftarrow> participate_rewards candidates; Some ((node, p) # rest) }"

definition rewards :: "pos_state_config \<Rightarrow> reward_distribution_event \<Rightarrow> (address \<times> nat) list option" where
  "rewards conf self =
     do { c \<leftarrow> committee_rewards conf (rd_view self) (rd_elected self);
          p \<leftarrow> participate_rewards (rd_candidates self);
          Some (c @ p) }"

record committed_block =
  cb_hash :: hash
  cb_miner :: "address option"
  cb_parent_hash :: hash
  cb_epoch :: nat
  cb_round :: round
  cb_pivot_decision :: pivot_block_decision
  cb_version :: nat
  cb_timestamp :: nat
  cb_view :: view
  cb_is_skipped :: bool

record transaction_to_commit =
  tc_transaction :: pos_transaction
  tc_events :: "contract_event list"
  tc_gas_used :: nat
  tc_status :: kept_vm_status

datatype db_write =
    SaveRewardEvent nat reward_distribution_event
  | SaveTransactions "transaction_to_commit list" nat ledger_info_with_signatures pos_state "committed_block list"
      "(hash \<times> ledger_info_with_signatures) list"
  | DeletePosState hash

record ledger_store =
  ld_get_ledger_block :: "hash \<Rightarrow> string + block option"
  ld_get_qc_for_block :: "hash \<Rightarrow> string + quorum_cert option"
  ld_get_epoch_ending_ledger_infos :: "nat \<Rightarrow> nat \<Rightarrow> string + ledger_info_with_signatures list"
  ld_write :: "db_write \<Rightarrow> string + unit"

section \<open>Counting votes\<close>

definition block_signers :: "block \<Rightarrow> address list" where
  "block_signers block = map fst (lis_signatures (qc_signed_ledger_info (b_quorum_cert block)))"

definition modify_count :: "(vote_count \<Rightarrow> vote_count option) \<Rightarrow> address \<Rightarrow> vote_counts \<Rightarrow> vote_counts option" where
  "modify_count f node elected = do { c \<leftarrow> map_of elected node; c' \<leftarrow> f c; Some (bt_insert node c' elected) }"

definition add_leader :: "nat \<Rightarrow> vote_count \<Rightarrow> vote_count option" where
  "add_leader included c =
     do { l \<leftarrow> add32 (vc_leader_count c) 1;
          i \<leftarrow> add64 (vc_included_vote_count c) included;
          Some (c\<lparr>vc_leader_count := l, vc_included_vote_count := i\<rparr>) }"

definition add_vote :: "validator_verifier \<Rightarrow> address \<Rightarrow> vote_count \<Rightarrow> vote_count option" where
  "add_vote vv voter c =
     do { p \<leftarrow> get_voting_power vv voter;
          v \<leftarrow> add64 (vc_vote_count c) p;
          Some (c\<lparr>vc_vote_count := v\<rparr>) }"

text \<open>The first block of an epoch has no voters: its author counts as a leader that includes no votes.\<close>

definition count_leader :: "validator_verifier \<Rightarrow> block \<Rightarrow> vote_counts \<Rightarrow> vote_counts option" where
  "count_leader vv block elected =
     (case b_author block of
        None \<Rightarrow> Some elected
      | Some author \<Rightarrow>
          if block_signers block = [] then modify_count (add_leader 0) author elected
          else do { r \<leftarrow> extra_vote_count vv (block_signers block);
                    included \<leftarrow> (case r of Inl _ \<Rightarrow> None | Inr n \<Rightarrow> Some n);
                    modify_count (add_leader included) author elected })"

fun count_voters :: "validator_verifier \<Rightarrow> address list \<Rightarrow> vote_counts \<Rightarrow> vote_counts option" where
  "count_voters vv [] elected = Some elected"
| "count_voters vv (voter # voters) elected =
     do { elected' \<leftarrow> modify_count (add_vote vv voter) voter elected; count_voters vv voters elected' }"

text \<open>
  The loop over the blocks of the epoch, back to the one whose certificate has no signatures. It has no result
  when the chain of blocks does not end.
\<close>

partial_function (option) count_votes ::
  "(hash \<Rightarrow> string + block option) \<Rightarrow> validator_verifier \<Rightarrow> hash \<Rightarrow> vote_counts \<Rightarrow> (string + vote_counts) option" where
  "count_votes get_ledger_block vv voted_block_id elected =
     (case get_ledger_block voted_block_id of
        Inl e \<Rightarrow> Some (Inl e)
      | Inr None \<Rightarrow> None
      | Inr (Some block) \<Rightarrow>
          do { elected' \<leftarrow> count_leader vv block elected;
               if block_signers block = [] then Some (Inr elected')
               else do { elected'' \<leftarrow> count_voters vv (block_signers block) elected';
                         count_votes get_ledger_block vv (b_parent_id block) elected'' } })"

text \<open>The members with a vote in an earlier epoch are taken out again.\<close>

partial_function (option) remove_voters ::
  "(hash \<Rightarrow> string + block option) \<Rightarrow> hash \<Rightarrow> address list \<Rightarrow> (string + address list) option" where
  "remove_voters get_ledger_block voted_block_id force_retired =
     (case get_ledger_block voted_block_id of
        Inl e \<Rightarrow> Some (Inl e)
      | Inr None \<Rightarrow> None
      | Inr (Some block) \<Rightarrow>
          if block_signers block = [] then Some (Inr force_retired)
          else remove_voters get_ledger_block (b_parent_id block)
            (filter (\<lambda>node. node \<notin> set (block_signers block)) force_retired))"

fun remove_epochs ::
  "(hash \<Rightarrow> string + block option) \<Rightarrow> ledger_info_with_signatures list \<Rightarrow> address list \<Rightarrow> (string + address list) option" where
  "remove_epochs get_ledger_block [] force_retired = Some (Inr force_retired)"
| "remove_epochs get_ledger_block (li # lis) force_retired =
     try_opt (remove_voters get_ledger_block (bi_id (li_commit_info (lis_ledger_info li))) force_retired) (\<lambda>force_retired'.
     remove_epochs get_ledger_block lis force_retired')"

fun force_retire_nodes :: "pos_state_config \<Rightarrow> address list \<Rightarrow> pos_state \<Rightarrow> (string + pos_state) option" where
  "force_retire_nodes conf [] state = Some (Inr state)"
| "force_retire_nodes conf (node # nodes) state =
     try_opt (run_pos (force_retire_node conf node state)) (\<lambda>state'. force_retire_nodes conf nodes state')"

definition set_total_votes :: "validator_verifier \<Rightarrow> address \<times> vote_count \<Rightarrow> address \<times> vote_count" where
  "set_total_votes vv = (\<lambda>(node, c).
     (node, if vc_vote_count c = 0 then c
            else c\<lparr>vc_total_votes := (case get_voting_power vv node of None \<Rightarrow> 0 | Some p \<Rightarrow> p)\<rparr>))"

text \<open>The state with the members retired that have not voted, and the reward event of the epoch.\<close>

definition end_epoch ::
  "ledger_store \<Rightarrow> exec_env \<Rightarrow> ledger_info \<Rightarrow> validator_verifier \<Rightarrow> pos_state \<Rightarrow>
     (string + pos_state \<times> reward_distribution_event) option" where
  "end_epoch db env li vv state =
     try_opt (count_votes (ld_get_ledger_block db) vv (bi_id (li_commit_info li))
       (map (\<lambda>node. (node, vote_count_default)) (get_ordered_account_addresses vv))) (\<lambda>elected.
     let force_retired = map fst (filter (\<lambda>(node, c). vc_vote_count c = 0) elected);
         elected = map (set_total_votes vv) elected in
     try_opt (if force_retired = [] then Some (Inr state)
              else do {
                start_epoch \<leftarrow> add64 (li_epoch li - force_retire_check_epoch_count (ev_conf env) (pst_current_view state)) 1;
                try_opt (Some (ld_get_epoch_ending_ledger_infos db start_epoch (li_epoch li))) (\<lambda>ledger_infos.
                try_opt (remove_epochs (ld_get_ledger_block db) ledger_infos force_retired) (\<lambda>force_retired.
                force_retire_nodes (ev_conf env) force_retired state)) }) (\<lambda>state.
     let (state', candidates) = next_evicted_term state in
     Some (Inr (state', \<lparr>rd_candidates = candidates, rd_elected = elected, rd_view = pst_current_view state'\<rparr>))))"

section \<open>Committing\<close>

type_synonym 'a commit_result = "(speculation_cache \<times> db_write list \<times> (executor_error + 'a)) option"

definition process_epoch_end ::
  "ledger_store \<Rightarrow> exec_env \<Rightarrow> ledger_info \<Rightarrow> pos_state \<Rightarrow> speculation_cache \<Rightarrow> pos_state commit_result" where
  "process_epoch_end db env li state cache =
     (if \<not> (li_ends_epoch li \<and> li_epoch li \<noteq> 0) then Some (cache, [], Inr state)
      else do {
        r \<leftarrow> end_epoch db env li (verifier (xc_hardcoded (ev_x env)) (pst_epoch_state (et_pos_state (sc_committed_trees cache)))) state;
        case r of
          Inl e \<Rightarrow> Some (cache, [], Inl (InternalError e))
        | Inr (state', reward_event) \<Rightarrow>
            let w = SaveRewardEvent (li_epoch li) reward_event in
            (case ld_write db w of
               Inl e \<Rightarrow> Some (cache, [], Inl (InternalError e))
             | Inr _ \<Rightarrow>
                 (case cache_get_block (bi_id (li_commit_info li)) cache of
                    Inl _ \<Rightarrow> None
                  | Inr _ \<Rightarrow> Some (cache_replace_pos_state (bi_id (li_commit_info li)) state' cache, [w], Inr state'))) })"

definition committed_block_of :: "ledger_store \<Rightarrow> speculation_block \<Rightarrow> (committed_block \<times> block) option" where
  "committed_block_of db b =
     do { lb \<leftarrow> (case ld_get_ledger_block db (sb_id b) of Inr (Some lb) \<Rightarrow> Some lb | _ \<Rightarrow> None);
          pivot \<leftarrow> po_pivot_block (sb_output b);
          version \<leftarrow> et_version (po_executed_trees (sb_output b));
          let state = et_pos_state (po_executed_trees (sb_output b));
          Some (\<lparr>cb_hash = sb_id b, cb_miner = b_author lb, cb_parent_hash = b_parent_id lb, cb_epoch = b_epoch lb,
                 cb_round = b_round lb, cb_pivot_decision = pivot, cb_version = version, cb_timestamp = b_timestamp_usecs lb,
                 cb_view = pst_current_view state, cb_is_skipped = pst_skipped state\<rparr>, lb) }"

fun committed_blocks_of :: "ledger_store \<Rightarrow> speculation_block list \<Rightarrow> (committed_block \<times> block) list option" where
  "committed_blocks_of db [] = Some []"
| "committed_blocks_of db (b # bs) =
     do { c \<leftarrow> committed_block_of db b; cs \<leftarrow> committed_blocks_of db bs; Some (c # cs) }"

text \<open>The signatures of a block are in the certificate of the next one, those of the last block in the store.\<close>

definition committed_and_signatures ::
  "ledger_store \<Rightarrow> ledger_info \<Rightarrow> speculation_block list \<Rightarrow>
     (executor_error + committed_block list \<times> (hash \<times> ledger_info_with_signatures) list) option" where
  "committed_and_signatures db li blocks =
     (if li_epoch li \<noteq> 0
      then do {
        cs \<leftarrow> committed_blocks_of db blocks;
        let signatures = map (\<lambda>(_, lb). (bi_id (certified_block (b_quorum_cert lb)), qc_signed_ledger_info (b_quorum_cert lb))) (drop 1 cs);
        assert_that (blocks \<noteq> []);
        let last_block = sb_id (last blocks);
        case ld_get_qc_for_block db last_block of
          Inl e \<Rightarrow> Some (Inl (InternalError e))
        | Inr (Some qc) \<Rightarrow> Some (Inr (map fst cs, signatures @ [(last_block, qc_signed_ledger_info qc)]))
        | Inr None \<Rightarrow> do { assert_that (li_ends_epoch li); Some (Inr (map fst cs, signatures)) } }
      else do {
        pivot \<leftarrow> bi_pivot (li_commit_info li);
        Some (Inr ([\<lparr>cb_hash = bi_id (li_commit_info li), cb_miner = None, cb_parent_hash = 0, cb_epoch = 0, cb_round = 0,
          cb_pivot_decision = pivot, cb_version = bi_version (li_commit_info li),
          cb_timestamp = bi_timestamp_usecs (li_commit_info li), cb_view = 1, cb_is_skipped = False\<rparr>], [])) })"

text \<open>The kept transactions of a block; \<^verbatim>\<open>zip_eq\<close> panics when the lists have different lengths.\<close>

fun kept_of_block :: "pos_transaction list \<Rightarrow> transaction_data list \<Rightarrow> transaction_to_commit list option" where
  "kept_of_block [] [] = Some []"
| "kept_of_block (txn # txns) (d # ds) =
     do { rest \<leftarrow> kept_of_block txns ds;
          Some (case xd_status d of
              Keep recorded_status \<Rightarrow> \<lparr>tc_transaction = txn, tc_events = xd_events d, tc_gas_used = xd_gas_used d,
                tc_status = recorded_status\<rparr> # rest
            | _ \<Rightarrow> rest) }"
| "kept_of_block _ _ = None"

fun kept_transactions :: "speculation_block list \<Rightarrow> transaction_to_commit list option" where
  "kept_transactions [] = Some []"
| "kept_transactions (b # bs) =
     do { k \<leftarrow> kept_of_block (sb_transactions b) (po_transaction_data (sb_output b)); ks \<leftarrow> kept_transactions bs; Some (k @ ks) }"

fun get_blocks :: "hash list \<Rightarrow> speculation_cache \<Rightarrow> executor_error + speculation_block list" where
  "get_blocks [] cache = Inr []"
| "get_blocks (i # is) cache = try_res (cache_get_block i cache) (\<lambda>b. try_res (get_blocks is cache) (\<lambda>bs. Inr (b # bs)))"

text \<open>The transactions to commit: those of the blocks that are not yet persistent, and the version of the first.\<close>

definition txns_to_commit_of ::
  "nat \<Rightarrow> nat \<Rightarrow> speculation_block list \<Rightarrow> (executor_error + transaction_to_commit list \<times> nat) option" where
  "txns_to_commit_of num_txns_in_li num_persistent_txns blocks =
     do { txns_to_keep \<leftarrow> kept_transactions blocks;
          if blocks = [] then Some (Inl (InternalError ''CommittableBlockBatch is empty''))
          else do {
            assert_that (num_txns_in_li = acc_num_leaves (et_transaction_accumulator (po_executed_trees (sb_output (last blocks)))));
            first_version_to_keep \<leftarrow> sub64 num_txns_in_li (length txns_to_keep);
            assert_that (first_version_to_keep \<le> num_persistent_txns);
            num_txns_to_skip \<leftarrow> sub64 num_persistent_txns first_version_to_keep;
            first_version_to_commit \<leftarrow> add64 first_version_to_keep num_txns_to_skip;
            assert_that (num_txns_to_skip \<le> length txns_to_keep);
            let txns_to_commit = drop num_txns_to_skip txns_to_keep;
            expected \<leftarrow> sub64 num_txns_in_li (length txns_to_commit);
            assert_that (first_version_to_commit = expected);
            Some (Inr (txns_to_commit, first_version_to_commit)) } }"

definition save_and_prune ::
  "ledger_store \<Rightarrow> exec_env \<Rightarrow> ledger_info_with_signatures \<Rightarrow> pos_state \<Rightarrow> transaction_to_commit list \<Rightarrow> nat \<Rightarrow>
     committed_block list \<Rightarrow> (hash \<times> ledger_info_with_signatures) list \<Rightarrow> speculation_cache \<Rightarrow>
     (pos_transaction list \<times> contract_event list) commit_result" where
  "save_and_prune db env ledger_info_with_sigs state txns_to_commit first_version committed_blocks signatures cache =
     (let li = lis_ledger_info ledger_info_with_sigs;
          w1 = SaveTransactions txns_to_commit first_version ledger_info_with_sigs state committed_blocks signatures;
          committed_txns = map tc_transaction txns_to_commit;
          reconfig_events = concat (map (\<lambda>txn. extract_reconfig_events (tc_events txn)) txns_to_commit) in
      case ld_write db w1 of
        Inl e \<Rightarrow> Some (cache, [], Inl (InternalError e))
      | Inr _ \<Rightarrow>
          do { (cache', r) \<leftarrow> cache_prune (xc_crypto (ev_x env)) li committed_txns reconfig_events cache;
               case r of
                 Inl e \<Rightarrow> Some (cache', [w1], Inl e)
               | Inr old_committed_block \<Rightarrow>
                   let w2 = DeletePosState old_committed_block in
                   (case ld_write db w2 of
                      Inl e \<Rightarrow> Some (cache', [w1], Inl (InternalError e))
                    | Inr _ \<Rightarrow> Some (cache', [w1, w2], Inr (committed_txns, reconfig_events))) })"

definition commit_state ::
  "ledger_store \<Rightarrow> exec_env \<Rightarrow> hash list \<Rightarrow> ledger_info_with_signatures \<Rightarrow> pos_state \<Rightarrow> speculation_cache \<Rightarrow>
     (pos_transaction list \<times> contract_event list) commit_result" where
  "commit_state db env blocks_to_commit ledger_info_with_sigs state cache =
     (let li = lis_ledger_info ledger_info_with_sigs; version = bi_version (li_commit_info li) in
      if U64_MAX < version + 1 then Some (cache, [], Inl (InternalError ''version + 1 overflows''))
      else
        let num_txns_in_li = version + 1;
            num_persistent_txns = acc_num_leaves (et_transaction_accumulator (sc_synced_trees cache)) in
        if num_txns_in_li < num_persistent_txns
        then Some (cache, [], Inl (InternalError ''Try to commit stale transactions''))
        else case get_blocks blocks_to_commit cache of
          Inl e \<Rightarrow> Some (cache, [], Inl e)
        | Inr blocks \<Rightarrow>
            do { r \<leftarrow> try_opt (committed_and_signatures db li blocks) (\<lambda>(committed_blocks, signatures).
                   try_opt (txns_to_commit_of num_txns_in_li num_persistent_txns blocks) (\<lambda>(txns_to_commit, first_version).
                   Some (Inr (committed_blocks, signatures, txns_to_commit, first_version))));
                 case r of
                   Inl e \<Rightarrow> Some (cache, [], Inl e)
                 | Inr (committed_blocks, signatures, txns_to_commit, first_version) \<Rightarrow>
                     save_and_prune db env ledger_info_with_sigs state txns_to_commit first_version committed_blocks signatures cache })"

definition commit_blocks ::
  "ledger_store \<Rightarrow> exec_env \<Rightarrow> hash list \<Rightarrow> ledger_info_with_signatures \<Rightarrow> speculation_cache \<Rightarrow>
     (pos_transaction list \<times> contract_event list) commit_result" where
  "commit_blocks db env blocks_to_commit ledger_info_with_sigs cache =
     (let li = lis_ledger_info ledger_info_with_sigs in
      case cache_executed_trees (bi_id (li_commit_info li)) cache of
        Inl e \<Rightarrow> Some (cache, [], Inl e)
      | Inr trees \<Rightarrow>
          do { (cache1, ws1, r) \<leftarrow> process_epoch_end db env li (et_pos_state trees) cache;
               case r of
                 Inl e \<Rightarrow> Some (cache1, ws1, Inl e)
               | Inr state \<Rightarrow>
                   do { (cache2, ws2, r2) \<leftarrow> commit_state db env blocks_to_commit ledger_info_with_sigs state cache1;
                        Some (cache2, ws1 @ ws2, r2) } })"

end
