(* ===== verification/Vm_Props.thy ===== *)
theory Vm_Props
  imports Pos_Vm Pos_Props
begin

text \<open>
  What the virtual machine accepts: disputes and pivot decisions, with the checks it does and those it does not.
\<close>

section \<open>Externals of a small chain\<close>

definition ex_codec :: bcs_codec where
  "ex_codec = \<lparr>
     bc_pivot = (\<lambda>p. pd_height p # pd_block_hash p, \<lambda>bs. case bs of h # b \<Rightarrow> Some \<lparr>pd_height = h, pd_block_hash = b\<rparr> | _ \<Rightarrow> None),
     bc_election = (\<lambda>e. [ni_public_key (ee_node_id e), ni_vrf_public_key (ee_node_id e), ni_addr (ee_node_id e), ee_vrf_output e, ee_start_term e],
       \<lambda>bs. case bs of [k, v, a, out, t] \<Rightarrow> Some \<lparr>ee_node_id = \<lparr>ni_public_key = k, ni_vrf_public_key = v, ni_addr = a\<rparr>,
         ee_vrf_output = out, ee_start_term = t\<rparr> | _ \<Rightarrow> None),
     bc_retire = (\<lambda>e. [re_node_id e, re_votes e], \<lambda>bs. case bs of [a, n] \<Rightarrow> Some \<lparr>re_node_id = a, re_votes = n\<rparr> | _ \<Rightarrow> None),
     bc_register = (\<lambda>e. [ni_public_key e, ni_vrf_public_key e, ni_addr e],
       \<lambda>bs. case bs of [k, v, a] \<Rightarrow> Some \<lparr>ni_public_key = k, ni_vrf_public_key = v, ni_addr = a\<rparr> | _ \<Rightarrow> None),
     bc_update = (\<lambda>e. [ue_node_address e, ue_voting_power e],
       \<lambda>bs. case bs of [a, n] \<Rightarrow> Some \<lparr>ue_node_address = a, ue_voting_power = n\<rparr> | _ \<Rightarrow> None),
     bc_dispute = (\<lambda>a. [a], \<lambda>bs. case bs of [a] \<Rightarrow> Some a | _ \<Rightarrow> None),
     bc_unlock = (\<lambda>e. [ul_node_id e, ul_unlocked e],
       \<lambda>bs. case bs of [a, n] \<Rightarrow> Some \<lparr>ul_node_id = a, ul_unlocked = n\<rparr> | _ \<Rightarrow> None),
     bc_epoch_state = (\<lambda>e. [es_epoch e], \<lambda>bs. None),
     bc_validator_set = (\<lambda>vs. [], \<lambda>bs. Some []),
     bc_block = (\<lambda>b. [b_round b], \<lambda>bs. None),
     bc_vote = (\<lambda>v. [], \<lambda>bs. None)\<rparr>"

text \<open>No signature verifies; an address is computed from the keys as that of the nodes of the small chain.\<close>

definition ex_externals :: externals where
  "ex_externals = \<lparr>xc_bcs = ex_codec,
     xc_crypto = \<lparr>cr_verify = (\<lambda>pk m sig. False), cr_hash_vote_data = (\<lambda>d. bi_round (vd_proposed d)), cr_hash_block_data = bd_round,
       cr_verify_proof = (\<lambda>pk seed proof. False)\<rparr>,
     xc_address = (\<lambda>pk vrf. 100 + pk), xc_vrf_to_hash = Some, xc_vrf_number = (\<lambda>h n. h + n),
     xc_verify_ed25519 = (\<lambda>pk m sig. False), xc_verify_multi_ed25519 = (\<lambda>pk m sig. False), xc_verify_bls = (\<lambda>pk m sig. False),
     xc_verify_same_message = (\<lambda>sig m ks. sig = sum_list ks), xc_public_key = (\<lambda>bs. case bs of [k] \<Rightarrow> Some k | _ \<Rightarrow> None),
     xc_vrf_public_key = (\<lambda>bs. case bs of [k] \<Rightarrow> Some k | _ \<Rightarrow> None), xc_hardcoded = Map.empty\<rparr>"

lemma ex_codec_ok:
  "serde_ok (bc_register ex_codec)" "serde_ok (bc_update ex_codec)" "serde_ok (bc_retire ex_codec)"
  "serde_ok (bc_election ex_codec)"
  by (simp_all add: serde_ok_def ex_codec_def)

section \<open>Disputes\<close>

lemma temp_verifier_eq:
  "temp_verifier d = Some \<lparr>vv_address_to_validator_info = [(dp_address d, \<lparr>vi_public_key = dp_bls_pub_key d,
       vi_vrf_public_key = Some (dp_vrf_pub_key d), vi_voting_power = 1\<rparr>)],
     vv_quorum_voting_power = 1, vv_total_voting_power = 1\<rparr>"
  by (simp add: temp_verifier_def validator_verifier_new_def sum_voting_power_def add64_def mul64_def U64_MAX_def)

definition signed_vote :: "externals \<Rightarrow> dispute_payload \<Rightarrow> vote \<Rightarrow> bool" where
  "signed_vote x d v \<longleftrightarrow> vote_author v = dp_address d \<and>
     li_consensus_data_hash (vote_ledger_info v) = cr_hash_vote_data (xc_crypto x) (vote_vote_data v) \<and>
     cr_verify (xc_crypto x) (dp_bls_pub_key d) (MLedgerInfo (vote_ledger_info v)) (vote_signature v) \<and>
     (case vote_timeout_signature v of None \<Rightarrow> True
      | Some sig \<Rightarrow> cr_verify (xc_crypto x) (dp_bls_pub_key d) (MTimeout (vote_timeout v)) sig) \<and>
     vote_data_verify (vote_vote_data v) = Inr ()"

lemma vote_verify_temp:
  assumes "temp_verifier d = Some vv"
  shows "vote_verify (xc_crypto x) v vv = Inr () \<longleftrightarrow> signed_vote x d v"
  using assms
  by (auto simp: temp_verifier_eq vote_verify_def signed_vote_def result_simps vv_verify_def get_public_key_def
      split: if_splits option.splits)

lemma verify_dispute_votes_iff:
  "verify_dispute_votes x d v1 v2 = Some (bi_epoch (vd_proposed (vote_vote_data v1)) = bi_epoch (vd_proposed (vote_vote_data v2)) \<and>
     bi_round (vd_proposed (vote_vote_data v1)) = bi_round (vd_proposed (vote_vote_data v2)) \<and>
     signed_vote x d v1 \<and> signed_vote x d v2)"
proof -
  obtain vv where vv: "temp_verifier d = Some vv" using temp_verifier_eq by blast
  show ?thesis by (auto simp: verify_dispute_votes_def vv vote_verify_temp [OF vv] Let_def)
qed

lemma verify_dispute_vote_iff:
  assumes "dp_conflicting_votes d = ConflictVote p1 p2"
  shows "verify_dispute x d = Some True \<longleftrightarrow> dp_address d = xc_address x (dp_bls_pub_key d) (dp_vrf_pub_key d) \<and>
    (\<exists>v1 v2. snd (bc_vote (xc_bcs x)) p1 = Some v1 \<and> snd (bc_vote (xc_bcs x)) p2 = Some v2 \<and>
       bi_epoch (vd_proposed (vote_vote_data v1)) = bi_epoch (vd_proposed (vote_vote_data v2)) \<and>
       bi_round (vd_proposed (vote_vote_data v1)) = bi_round (vd_proposed (vote_vote_data v2)) \<and>
       signed_vote x d v1 \<and> signed_vote x d v2)"
  by (simp add: verify_dispute_def assms verify_dispute_votes_iff Let_def split: option.split)

lemma execute_dispute_iff:
  "execute_dispute x S d = Some (Inr [dispute_to_event x d]) \<longleftrightarrow>
     (\<exists>node. pst_node_map S (dp_address d) = Some node \<and> ls_exempt_from_forfeit (nd_lock_status node) = None) \<and>
     verify_dispute x d = Some True"
  by (cases "verify_dispute x d")
    (auto simp: execute_dispute_def validate_dispute_def try_opt_def map_err_def split: option.splits)

text \<open>
  C26. A dispute with two votes is accepted if and only if the accused node is registered and not yet
  forfeited, its address belongs to the given keys, and both votes decode, propose blocks of the same epoch
  and round, and carry valid signatures of the accused. Nothing requires that the two votes differ.
\<close>

theorem vote_dispute_accepted_iff:
  "execute_dispute x S (d\<lparr>dp_conflicting_votes := ConflictVote p1 p2\<rparr>) = Some (Inr [dispute_to_event x d]) \<longleftrightarrow>
     (\<exists>node v1 v2. pst_node_map S (dp_address d) = Some node \<and> ls_exempt_from_forfeit (nd_lock_status node) = None \<and>
       dp_address d = xc_address x (dp_bls_pub_key d) (dp_vrf_pub_key d) \<and>
       snd (bc_vote (xc_bcs x)) p1 = Some v1 \<and> snd (bc_vote (xc_bcs x)) p2 = Some v2 \<and>
       bi_epoch (vd_proposed (vote_vote_data v1)) = bi_epoch (vd_proposed (vote_vote_data v2)) \<and>
       bi_round (vd_proposed (vote_vote_data v1)) = bi_round (vd_proposed (vote_vote_data v2)) \<and>
       signed_vote x d v1 \<and> signed_vote x d v2)"
proof -
  let ?d = "d\<lparr>dp_conflicting_votes := ConflictVote p1 p2\<rparr>"
  have s: "signed_vote x ?d v = signed_vote x d v" for v by (simp add: signed_vote_def split: option.split)
  have e: "dispute_to_event x ?d = dispute_to_event x d" by (simp add: dispute_to_event_def)
  show ?thesis
    using execute_dispute_iff [of x S ?d] verify_dispute_vote_iff [of ?d p1 p2 x] unfolding e s by auto
qed

text \<open>
  A single vote of an honest node, given twice, convicts it.
\<close>

lemma one_vote_convicts:
  assumes "pst_node_map S (dp_address d) = Some node" and "ls_exempt_from_forfeit (nd_lock_status node) = None"
    and "dp_address d = xc_address x (dp_bls_pub_key d) (dp_vrf_pub_key d)"
    and "snd (bc_vote (xc_bcs x)) p = Some v" and "signed_vote x d v"
    and "dp_conflicting_votes d = ConflictVote p p"
  shows "execute_dispute x S d = Some (Inr [dispute_to_event x d])"
proof -
  show ?thesis
    unfolding execute_dispute_iff verify_dispute_vote_iff [OF assms(6)] using assms(1-5) by blast
qed

text \<open>
  C39. A dispute needs no signature of the accused: a NIL block carries no signature of its own, and the
  certificate of a genesis block verifies without any. So one NIL block on a genesis certificate, given twice,
  is accepted as a dispute against every registered node that is not yet forfeited, whatever the verification of
  signatures says.
\<close>

theorem dispute_without_signature:
  assumes "pst_node_map S (dp_address d) = Some node" and "ls_exempt_from_forfeit (nd_lock_status node) = None"
    and "dp_address d = xc_address x (dp_bls_pub_key d) (dp_vrf_pub_key d)"
    and "dp_conflicting_votes d = ConflictProposal p p" and "snd (bc_block (xc_bcs x)) p = Some (block_new_nil (xc_crypto x) r qc)"
    and "certificate_for_genesis_from_ledger_info (xc_crypto x) li genesis_id = Some qc"
  shows "execute_dispute x S d = Some (Inr [dispute_to_event x d])"
proof -
  let ?b = "block_new_nil (xc_crypto x) r qc"
  obtain vv where vv: "temp_verifier d = Some vv" using temp_verifier_eq by blast
  have "quorum_cert_verify (xc_crypto x) qc vv = Some (Inr ())"
    using assms(6) by (auto simp: certificate_for_genesis_from_ledger_info_def option_bind_simps quorum_cert_verify_def
        try_opt_def try_res_def ensure_def certified_block_def parent_block_def commit_info_def qc_ledger_info_def
        block_info_new_def Let_def)
  then have "validate_signature (xc_crypto x) ?b vv = Some (Inr ())"
    by (simp add: validate_signature_def block_new_nil_def block_data_new_nil_def b_quorum_cert_def Let_def)
  then have "verify_dispute x d = Some True"
    using assms(3-5) vv by (simp add: verify_dispute_def verify_dispute_proposals_def)
  then show ?thesis unfolding execute_dispute_iff using assms(1,2) by blast
qed

lemma pos_state_new_fields:
  assumes "pos_state_new conf seed nodes committee pivot = Some S"
  shows "initial_node_map conf nodes Map.empty = Some (pst_node_map S)" and "pst_pivot_decision S = pivot"
    and "pst_node_map_hint S = Map.empty"
  using assms by (auto simp: pos_state_new_def option_bind_simps Let_def)

lemma ex_member: "\<exists>node. pst_node_map ex_genesis 101 = Some node \<and> ls_exempt_from_forfeit (nd_lock_status node) = None"
proof -
  have "pst_node_map ex_genesis = the (initial_node_map ex_conf [(ex_node 1, 20), (ex_node 2, 30)] Map.empty)"
    using pos_state_new_fields(1) [OF ex_genesis_new(1)] by simp
  then show ?thesis
    by (simp add: ex_node_def new_lock_def node_lock_status_default_def add64_def U64_MAX_def)
qed

definition ex_genesis_qc :: quorum_cert where
  "ex_genesis_qc = the (certificate_for_genesis_from_ledger_info (xc_crypto ex_externals)
     \<lparr>li_commit_info = block_info_empty, li_consensus_data_hash = 0\<rparr> 9)"

definition ex_forged :: "externals" where
  "ex_forged = ex_externals\<lparr>xc_bcs := ex_codec\<lparr>bc_block := (\<lambda>b. [], \<lambda>bs. Some (block_new_nil (xc_crypto ex_externals) 3 ex_genesis_qc))\<rparr>\<rparr>"

theorem dispute_without_signature_witness:
  "execute_dispute ex_forged ex_genesis
     \<lparr>dp_address = 101, dp_bls_pub_key = 1, dp_vrf_pub_key = 11, dp_conflicting_votes = ConflictProposal [0] [0]\<rparr> =
   Some (Inr [dispute_to_event ex_forged
     \<lparr>dp_address = 101, dp_bls_pub_key = 1, dp_vrf_pub_key = 11, dp_conflicting_votes = ConflictProposal [0] [0]\<rparr>])"
proof -
  obtain node where "pst_node_map ex_genesis 101 = Some node" "ls_exempt_from_forfeit (nd_lock_status node) = None"
    using ex_member by blast
  moreover have "certificate_for_genesis_from_ledger_info (xc_crypto ex_forged)
      \<lparr>li_commit_info = block_info_empty, li_consensus_data_hash = 0\<rparr> 9 = Some ex_genesis_qc"
    by (simp add: ex_forged_def ex_genesis_qc_def certificate_for_genesis_from_ledger_info_def li_epoch_def
        block_info_empty_def add64_def U64_MAX_def Let_def)
  ultimately show ?thesis
    by (intro dispute_without_signature [where p = "[0]" and r = 3 and qc = ex_genesis_qc])
      (simp_all add: ex_forged_def ex_externals_def)
qed

section \<open>Pivot decisions\<close>

lemma committee_keys:
  assumes "bt_ok m"
  shows "those (map (\<lambda>e. map_option vi_public_key (map_of m (fst e))) m) = Some (map (vi_public_key \<circ> snd) m)"
proof -
  have d: "distinct (map fst m)" using assms by (simp add: bt_ok_def strict_sorted_iff)
  have "those (map (\<lambda>e. map_option vi_public_key (map_of m (fst e))) xs) = Some (map (vi_public_key \<circ> snd) xs)"
    if "set xs \<subseteq> set m" for xs
    using that by (induction xs) (use d in auto)
  then show ?thesis by blast
qed


text \<open>A committee of two members, and the signature of the first alone.\<close>

definition ex_pair :: pos_state where
  "ex_pair = ex_genesis\<lparr>pst_epoch_state := \<lparr>es_epoch = 1, es_verifier = \<lparr>vv_address_to_validator_info =
       [(101, \<lparr>vi_public_key = 5, vi_vrf_public_key = None, vi_voting_power = 1\<rparr>),
        (102, \<lparr>vi_public_key = 6, vi_vrf_public_key = None, vi_voting_power = 50\<rparr>)],
       vv_quorum_voting_power = 35, vv_total_voting_power = 51\<rparr>, es_vrf_seed = []\<rparr>\<rparr>"

definition ex_single :: multi_bls_signature where
  "ex_single = \<lparr>ms_bitmap = (replicate BITMAP_NUM_OF_BYTES 0)[0 := 128], ms_signature = 5\<rparr>"

lemma ex_single_bit: "bit_at (ms_bitmap ex_single) j \<longleftrightarrow> j = 0"
proof -
  have "bit (push_bit 7 1 :: 8 word) n \<longleftrightarrow> n = 7" if "n < 8" for n
    using that by (simp only: bit_push_bit_iff bit_1_iff) auto
  moreover have "(128 :: 8 word) = push_bit 7 1" using mask_bit [of 0] by simp
  ultimately have "bit (128 :: 8 word) n \<longleftrightarrow> n = 7" if "n < 8" for n using that by metis
  then have "j < 8 \<Longrightarrow> bit (128 :: 8 word) (7 - j) \<longleftrightarrow> j = 0" by auto
  then show ?thesis
    by (cases "j < 8") (auto simp: bit_at_def ex_single_def BITMAP_NUM_OF_BYTES_def nth_list_update)
qed

definition ex_pivot_tx :: signed_transaction where
  "ex_pivot_tx = \<lparr>st_raw_txn = \<lparr>rt_sender = 101, rt_payload = PivotDecision \<lparr>pd_height = 4, pd_block_hash = [2]\<rparr>,
       rt_expiration_timestamp_secs = 0, rt_chain_id = 1\<rparr>, st_authenticator = AuthMultiBLS ex_single\<rparr>"


end
