(* ===== verification/Cache_Props.thy ===== *)
theory Cache_Props
  imports Speculation_Cache Pos_Props "HOL-Library.Multiset"
begin

text \<open>
  The invariant of the speculation cache: the identifiers of its blocks are distinct and the map has exactly
  their entries. Every operation keeps it, so no destructor panics and no lookup meets a deallocated block.
\<close>

section \<open>Induction over forests\<close>

fun forest_size :: "speculation_block list \<Rightarrow> nat" where
  "forest_size [] = 0"
| "forest_size (SpeculationBlock i txns children out # bs) = Suc (forest_size children + forest_size bs)"

lemmas forest_induct = forest_size.induct [case_names Nil Cons]

section \<open>Dropping\<close>

lemma drop_blocks_ok:
  "distinct (forest_ids bs) \<Longrightarrow> set (forest_ids bs) \<subseteq> m \<Longrightarrow> drop_blocks bs m = Some (m - set (forest_ids bs))"
proof (induction bs arbitrary: m rule: forest_induct)
  case (Cons i txns children out bs)
  have c: "drop_blocks children (m - {i}) = Some (m - {i} - set (forest_ids children))"
    using Cons.prems by (intro Cons.IH(1)) auto
  have "drop_blocks bs (m - {i} - set (forest_ids children)) =
      Some (m - {i} - set (forest_ids children) - set (forest_ids bs))"
    using Cons.prems by (intro Cons.IH(2)) auto
  moreover have "i \<in> m" using Cons.prems by simp
  moreover have "m - {i} - set (forest_ids children) - set (forest_ids bs) =
      m - set (forest_ids (SpeculationBlock i txns children out # bs))" by auto
  ultimately show ?case using c by (simp add: assert_that_def)
qed simp

lemma find_block_None: "find_block k bs = None \<longleftrightarrow> k \<notin> set (forest_ids bs)"
  by (induction bs rule: forest_induct) (auto split: option.splits)

lemma find_block_facts:
  "find_block k bs = Some b \<Longrightarrow> sb_id b = k \<and> set (block_ids b) \<subseteq> set (forest_ids bs) \<and> (distinct (forest_ids bs) \<longrightarrow> distinct (block_ids b))"
  by (induction bs rule: forest_induct) (auto split: option.splits if_splits)

lemma drop_except_absent:
  "k \<notin> set (forest_ids bs) \<Longrightarrow> drop_blocks_except k bs m = drop_blocks bs m"
  by (induction bs arbitrary: m rule: forest_induct) (simp_all cong: Option.bind_cong)

lemma drop_except_absent_ok:
  assumes "k \<notin> set (forest_ids bs)" and "distinct (forest_ids bs)" and "set (forest_ids bs) \<subseteq> m"
  shows "drop_blocks_except k bs m = Some (m - set (forest_ids bs))"
  using drop_except_absent [OF assms(1)] drop_blocks_ok [OF assms(2,3)] by simp

lemma drop_blocks_except_ok:
  "distinct (forest_ids bs) \<Longrightarrow> set (forest_ids bs) \<subseteq> m \<Longrightarrow> find_block k bs = Some b \<Longrightarrow>
     drop_blocks_except k bs m = Some (m - (set (forest_ids bs) - set (block_ids b)))"
proof (induction bs arbitrary: m rule: forest_induct)
  case (Cons i txns children out bs)
  note d = Cons.prems(1) and s = Cons.prems(2)
  show ?case
  proof (cases "i = k")
    case True
    then have "k \<notin> set (forest_ids bs)" and b: "b = SpeculationBlock i txns children out" using d Cons.prems(3) by auto
    then have "drop_blocks_except k bs m = Some (m - set (forest_ids bs))"
      using d s by (simp add: drop_except_absent drop_blocks_ok)
    moreover have "set (forest_ids (SpeculationBlock i txns children out # bs)) - set (block_ids b) = set (forest_ids bs)"
      using d b by auto
    ultimately show ?thesis using True by simp
  next
    case False
    have i: "i \<in> m" using s by simp
    show ?thesis
    proof (cases "find_block k children")
      case None
      then have k: "k \<notin> set (forest_ids children)" by (rule find_block_None [THEN iffD1])
      have f: "find_block k bs = Some b" using Cons.prems(3) False None by simp
      have "drop_blocks_except k children (m - {i}) = Some (m - {i} - set (forest_ids children))"
        using d s k by (intro drop_except_absent_ok) auto
      moreover have "drop_blocks_except k bs (m - {i} - set (forest_ids children)) =
          Some (m - {i} - set (forest_ids children) - (set (forest_ids bs) - set (block_ids b)))"
        using d s f by (intro Cons.IH(2)) auto
      moreover have "m - {i} - set (forest_ids children) - (set (forest_ids bs) - set (block_ids b)) =
          m - (set (forest_ids (SpeculationBlock i txns children out # bs)) - set (block_ids b))"
        using find_block_facts [OF f] d by auto
      ultimately show ?thesis using False i by (simp add: assert_that_def)
    next
      case (Some b')
      then have f: "find_block k children = Some b" using Cons.prems(3) False by simp
      then have sub: "set (block_ids b) \<subseteq> set (forest_ids children)" and k: "k \<in> set (forest_ids children)"
        using find_block_facts [OF f] find_block_None [of k children] by auto
      have "drop_blocks_except k children (m - {i}) = Some (m - {i} - (set (forest_ids children) - set (block_ids b)))"
        using d s f by (intro Cons.IH(1)) auto
      moreover have "drop_blocks_except k bs (m - {i} - (set (forest_ids children) - set (block_ids b))) =
          Some (m - {i} - (set (forest_ids children) - set (block_ids b)) - set (forest_ids bs))"
        using d s sub k by (intro drop_except_absent_ok) auto
      moreover have "m - {i} - (set (forest_ids children) - set (block_ids b)) - set (forest_ids bs) =
          m - (set (forest_ids (SpeculationBlock i txns children out # bs)) - set (block_ids b))"
        using sub d by auto
      ultimately show ?thesis using False i by (simp add: assert_that_def)
    qed
  qed
qed simp

section \<open>Writing through a pointer\<close>

lemma modify_absent: "k \<notin> set (forest_ids bs) \<Longrightarrow> map (modify_block k f) bs = bs"
  by (induction bs rule: forest_induct) simp_all

lemma modify_mset:
  "distinct (forest_ids bs) \<Longrightarrow> find_block k bs = Some b \<Longrightarrow>
     mset (forest_ids (map (modify_block k f) bs)) + mset (block_ids b) = mset (forest_ids bs) + mset (block_ids (f b))"
proof (induction bs rule: forest_induct)
  case (Cons i txns children out bs)
  note d = Cons.prems(1)
  show ?case
  proof (cases "i = k")
    case True
    then have "map (modify_block k f) bs = bs" using d by (intro modify_absent) auto
    then show ?thesis using True Cons.prems(2) by auto
  next
    case False
    show ?thesis
    proof (cases "find_block k children")
      case None
      then have "map (modify_block k f) children = children"
        by (intro modify_absent) (rule find_block_None [THEN iffD1])
      moreover have "find_block k bs = Some b" using Cons.prems(2) False None by simp
      ultimately show ?thesis using Cons.IH(2) d False by simp
    next
      case (Some b')
      then have "k \<in> set (forest_ids children)" using find_block_None [of k children] by auto
      then have "map (modify_block k f) bs = bs" using d by (intro modify_absent) auto
      then show ?thesis using Cons.IH(1) Some d False Cons.prems(2) by simp
    qed
  qed
qed simp

lemma modify_same_ids:
  assumes "distinct (forest_ids bs)" and "\<And>b. block_ids (f b) = block_ids b"
  shows "mset (forest_ids (map (modify_block k f) bs)) = mset (forest_ids bs)"
proof (cases "find_block k bs")
  case None
  then show ?thesis by (simp add: find_block_None modify_absent)
next
  case (Some b)
  then show ?thesis using modify_mset [OF assms(1) Some, of f] assms(2) by simp
qed

lemma block_ids_eq: "block_ids b = sb_id b # forest_ids (sb_children b)"
  by (cases b) simp

lemma block_ids_add_child: "block_ids (sb_add_child n b) = block_ids b @ block_ids n"
  by (simp add: block_ids_eq [of b] sb_add_child_def)

lemma block_ids_replace: "block_ids (sb_replace txns out b) = [sb_id b]"
  by (simp add: sb_replace_def)

lemma block_ids_replace_pos_state [simp]: "block_ids (sb_replace_pos_state S b) = block_ids b"
  by (simp add: sb_replace_pos_state_def block_ids_eq [of b])

lemma find_modify_other:
  "distinct (forest_ids bs) \<Longrightarrow> find_block k bs = Some b \<Longrightarrow> (\<And>b. sb_id (f b) = sb_id b) \<Longrightarrow>
     find_block k (map (modify_block k f) bs) = Some (f b)"
proof (induction bs rule: forest_induct)
  case (Cons i txns children out bs)
  have *: "find_block k (f (SpeculationBlock k t c p') # xs) = Some (f (SpeculationBlock k t c p'))" for t c p' xs
    using Cons.prems(3) [of "SpeculationBlock k t c p'"] by (cases "f (SpeculationBlock k t c p')") simp
  show ?case
  proof (cases "i = k")
    case False
    show ?thesis
    proof (cases "find_block k children")
      case None
      then have "find_block k (map (modify_block k f) children) = None" by (simp add: find_block_None modify_absent)
      then show ?thesis using Cons False None by simp
    qed (use Cons False in simp)
  qed (use Cons.prems(2) * in auto)
qed simp

section \<open>The invariant\<close>

definition cache_ok :: "speculation_cache \<Rightarrow> bool" where
  "cache_ok c \<longleftrightarrow> distinct (forest_ids (sc_heads c)) \<and> sc_block_map c = set (forest_ids (sc_heads c))"

lemma cache_get_block_eq:
  assumes "cache_ok c"
  shows "cache_get_block k c = (case find_block k (sc_heads c) of None \<Rightarrow> Inl (BlockNotFound k) | Some b \<Rightarrow> Inr b)"
  using assms find_block_None [of k "sc_heads c"]
  by (auto simp: cache_get_block_def cache_ok_def ok_or_def split: option.splits)

lemma distinct_mset: "mset xs = mset ys \<Longrightarrow> distinct xs = distinct ys \<and> set xs = set ys"
  using mset_eq_imp_distinct_iff mset_eq_setD by blast

lemma cache_reset_ok:
  assumes "cache_ok c"
  shows "cache_reset c = Some (c\<lparr>sc_heads := [], sc_block_map := {}\<rparr>)" and "cache_ok (c\<lparr>sc_heads := [], sc_block_map := {}\<rparr>)"
  using assms by (simp_all add: cache_reset_def cache_ok_def drop_blocks_ok)

lemma cache_replace_pos_state_ok:
  assumes "cache_ok c"
  shows "cache_ok (cache_replace_pos_state k S c)"
  using assms distinct_mset [OF modify_same_ids [of "sc_heads c" "sb_replace_pos_state S" k]]
  unfolding cache_ok_def cache_replace_pos_state_def by simp

lemma cache_add_block_replace:
  assumes ok: "cache_ok c" and b: "find_block i (sc_heads c) = Some b"
  shows "\<exists>c'. cache_add_block p (i, txns, out) c = Some (c', Inr ()) \<and> cache_ok c' \<and>
           sc_heads c' = map (modify_block i (sb_replace txns out)) (sc_heads c)"
proof -
  let ?hs = "map (modify_block i (sb_replace txns out)) (sc_heads c)"
  have d: "distinct (forest_ids (sc_heads c))" and m: "sc_block_map c = set (forest_ids (sc_heads c))"
    using ok by (simp_all add: cache_ok_def)
  have f: "sb_id b = i" "set (block_ids b) \<subseteq> set (forest_ids (sc_heads c))" "distinct (block_ids b)"
    using find_block_facts [OF b] d by auto
  have e: "mset (forest_ids ?hs) + mset (forest_ids (sb_children b)) = mset (forest_ids (sc_heads c))"
    using modify_mset [OF d b, of "sb_replace txns out"] by (simp add: block_ids_replace block_ids_eq [of b])
  have "distinct (forest_ids ?hs @ forest_ids (sb_children b)) \<and>
      set (forest_ids ?hs @ forest_ids (sb_children b)) = set (forest_ids (sc_heads c))"
    using d distinct_mset [of "forest_ids ?hs @ forest_ids (sb_children b)" "forest_ids (sc_heads c)"] e
    by (simp only: mset_append simp_thms)
  then have s: "distinct (forest_ids ?hs)" "set (forest_ids ?hs) = sc_block_map c - set (forest_ids (sb_children b))"
    unfolding m by auto
  have "drop_blocks (sb_children b) (sc_block_map c) = Some (set (forest_ids ?hs))"
    unfolding s(2) using f(2,3) m by (intro drop_blocks_ok) (auto simp: block_ids_eq [of b])
  moreover have "i \<in> sc_block_map c" using f(1,2) m by (auto simp: block_ids_eq [of b])
  ultimately show ?thesis using b s(1) by (simp add: cache_add_block_def cache_ok_def)
qed

lemma cache_add_block_new:
  assumes ok: "cache_ok c" and i: "find_block i (sc_heads c) = None" and pi: "p \<noteq> i"
  shows "\<exists>c' r. cache_add_block p (i, txns, out) c = Some (c', r) \<and> cache_ok c' \<and>
           (if p = sc_committed_block_id c
            then r = Inr () \<and> sc_heads c' = sc_heads c @ [SpeculationBlock i txns [] out]
            else if find_block p (sc_heads c) = None
            then r = Inl (BlockNotFound p) \<and> c' = c
            else r = Inr () \<and>
              sc_heads c' = map (modify_block p (sb_add_child (SpeculationBlock i txns [] out))) (sc_heads c))"
proof -
  let ?n = "SpeculationBlock i txns [] out"
  have d: "distinct (forest_ids (sc_heads c))" and m: "sc_block_map c = set (forest_ids (sc_heads c))"
    using ok by (simp_all add: cache_ok_def)
  have i': "i \<notin> sc_block_map c" unfolding m using i by (rule find_block_None [THEN iffD1])
  show ?thesis
  proof (cases "p = sc_committed_block_id c")
    case True
    then show ?thesis using i' d m by (auto simp: cache_add_block_def cache_ok_def)
  next
    case np: False
    show ?thesis
    proof (cases "find_block p (sc_heads c)")
      case None
      then have "p \<notin> sc_block_map c" unfolding m by (rule find_block_None [THEN iffD1])
      then show ?thesis using np None i' ok pi
        by (auto simp: cache_add_block_def cache_get_block_def ok_or_def assert_that_def)
    next
      case (Some b)
      let ?hs = "map (modify_block p (sb_add_child ?n)) (sc_heads c)"
      have "p \<in> sc_block_map c" using find_block_facts [OF Some] m by (auto simp: block_ids_eq [of b])
      moreover have "mset (forest_ids ?hs) = mset (i # forest_ids (sc_heads c))"
        using modify_mset [OF d Some, of "sb_add_child ?n"] by (simp add: block_ids_add_child)
      then have "distinct (forest_ids ?hs)" "set (forest_ids ?hs) = insert i (sc_block_map c)"
        using distinct_mset [of "forest_ids ?hs" "i # forest_ids (sc_heads c)"] d i' m by auto
      ultimately show ?thesis using np Some i' pi
        by (simp add: cache_add_block_def cache_get_block_def ok_or_def cache_ok_def)
    qed
  qed
qed

lemma block_forest_distinct:
  assumes "find_block k bs = Some b" and "distinct (forest_ids bs)"
  shows "distinct (forest_ids (sb_children b))" and "k \<notin> set (forest_ids (sb_children b))"
    and "set (block_ids b) = insert k (set (forest_ids (sb_children b)))"
    and "set (block_ids b) \<subseteq> set (forest_ids bs)"
  using find_block_facts [OF assms(1)] assms(2) by (auto simp: block_ids_eq [of b])

lemma update_root_frame:
  assumes "update_block_tree_root cr trees li txns evs c = Some c'"
  shows "sc_heads c' = sc_heads c" and "sc_block_map c' = sc_block_map c"
  using assms by (auto simp: update_block_tree_root_def option_bind_simps split: if_splits)

lemma update_root_defined:
  assumes "has_reconfiguration (li_commit_info li) \<longrightarrow> make_genesis_block_from_ledger_info cr li \<noteq> None"
  shows "\<exists>c'. update_block_tree_root cr trees li txns evs c = Some c'"
  using assms by (auto simp: update_block_tree_root_def)

lemma cache_prune_ok:
  assumes ok: "cache_ok c" and b: "find_block (bi_id (li_commit_info li)) (sc_heads c) = Some b"
    and g: "has_reconfiguration (li_commit_info li) \<longrightarrow> make_genesis_block_from_ledger_info cr li \<noteq> None"
  shows "\<exists>c'. cache_prune cr li txns evs c = Some (c', Inr (sc_committed_block_id c)) \<and> cache_ok c' \<and>
           sc_heads c' = sb_children b \<and> sc_committed_trees c' = (if has_reconfiguration (li_commit_info li)
             then et_set_pos_state_skipped False (po_executed_trees (sb_output b)) else po_executed_trees (sb_output b)) \<and>
           sc_committed_block_id c' = (if has_reconfiguration (li_commit_info li)
             then b_id (the (make_genesis_block_from_ledger_info cr li)) else bi_id (li_commit_info li))"
proof -
  let ?k = "bi_id (li_commit_info li)"
  have d: "distinct (forest_ids (sc_heads c))" and m: "sc_block_map c = set (forest_ids (sc_heads c))"
    using ok by (simp_all add: cache_ok_def)
  note f = block_forest_distinct [OF b d]
  have k: "sb_id b = ?k" using find_block_facts [OF b] by simp
  have get: "cache_get_block ?k c = Inr b" using b by (simp add: cache_get_block_eq [OF ok])
  have drop: "drop_blocks_except ?k (sc_heads c) (sc_block_map c) = Some (insert ?k (set (forest_ids (sb_children b))))"
    using drop_blocks_except_ok [OF d _ b, of "sc_block_map c"] f(3,4) m by auto
  let ?c1 = "c\<lparr>sc_heads := sb_children b, sc_block_map := insert ?k (set (forest_ids (sb_children b)))\<rparr>"
  obtain c2 where c2: "update_block_tree_root cr (po_executed_trees (sb_output b)) li txns evs ?c1 = Some c2"
    using update_root_defined [OF g] by blast
  note u = update_root_frame [OF c2]
  let ?c3 = "c2\<lparr>sc_block_map := sc_block_map c2 - {?k}\<rparr>"
  have "cache_prune cr li txns evs c = Some (?c3, Inr (sc_committed_block_id c))"
    using get drop c2 u k by (simp add: cache_prune_def assert_that_def)
  moreover have "cache_ok ?c3" using u f(1,2) by (auto simp: cache_ok_def)
  moreover have "sc_committed_trees c2 = (if has_reconfiguration (li_commit_info li)
      then et_set_pos_state_skipped False (po_executed_trees (sb_output b)) else po_executed_trees (sb_output b))"
    "sc_committed_block_id c2 = (if has_reconfiguration (li_commit_info li)
      then b_id (the (make_genesis_block_from_ledger_info cr li)) else bi_id (li_commit_info li))"
    using c2 by (auto simp: update_block_tree_root_def option_bind_simps split: if_splits)
  moreover have "sc_heads ?c3 = sb_children b" using u by simp
  ultimately show ?thesis by (intro exI [of _ ?c3]) simp
qed

lemma find_block_below:
  "distinct (forest_ids bs) \<Longrightarrow> find_block k bs = Some b \<Longrightarrow> find_block j (sb_children b) = Some x \<Longrightarrow>
     find_block j bs = Some x"
proof (induction bs rule: forest_induct)
  case (Cons i txns children out bs)
  note d = Cons.prems(1)
  have j: "j \<in> set (forest_ids (sb_children b))" using Cons.prems(3) find_block_None [of j "sb_children b"] by auto
  show ?case
  proof (cases "i = k")
    case True
    then have b: "b = SpeculationBlock i txns children out" using Cons.prems(2) by simp
    then have "j \<noteq> i" using j d by auto
    then show ?thesis using Cons.prems(3) b by simp
  next
    case False
    show ?thesis
    proof (cases "find_block k children")
      case None
      then have f: "find_block k bs = Some b" using Cons.prems(2) False by simp
      have jb: "j \<in> set (forest_ids bs)" using j find_block_facts [OF f] by (auto simp: block_ids_eq [of b])
      then have "j \<noteq> i" "j \<notin> set (forest_ids children)" using d by auto
      moreover from this(2) have "find_block j children = None" by (rule find_block_None [THEN iffD2])
      ultimately show ?thesis using Cons.IH(2) f d Cons.prems(3) by simp
    next
      case (Some b')
      then have f: "find_block k children = Some b" using Cons.prems(2) False by simp
      have "j \<in> set (forest_ids children)" using j find_block_facts [OF f] by (auto simp: block_ids_eq [of b])
      then have "j \<noteq> i" using d by auto
      then show ?thesis using Cons.IH(1) f d Cons.prems(3) by simp
    qed
  qed
qed simp

section \<open>Runs of the cache\<close>

inductive cache_reach :: "crypto \<Rightarrow> hashers \<Rightarrow> hash \<Rightarrow> speculation_cache \<Rightarrow> bool" for cr hs pre_genesis where
  cache_startup: "cache_new_with_startup_info cr hs pre_genesis si = Some c \<Longrightarrow> cache_reach cr hs pre_genesis c"
| cache_bootstrap: "cache_new_for_db_bootstrapping hs pre_genesis ts S = Some c \<Longrightarrow> cache_reach cr hs pre_genesis c"
| cache_add: "cache_reach cr hs pre_genesis c \<Longrightarrow> p \<noteq> i \<Longrightarrow> cache_add_block p (i, txns, out) c = Some (c', r) \<Longrightarrow>
    cache_reach cr hs pre_genesis c'"
| cache_pruned: "cache_reach cr hs pre_genesis c \<Longrightarrow> cache_prune cr li txns evs c = Some (c', r) \<Longrightarrow>
    cache_reach cr hs pre_genesis c'"
| cache_resetted: "cache_reach cr hs pre_genesis c \<Longrightarrow> cache_reset c = Some c' \<Longrightarrow> cache_reach cr hs pre_genesis c'"
| cache_replaced: "cache_reach cr hs pre_genesis c \<Longrightarrow> cache_reach cr hs pre_genesis (cache_replace_pos_state k S c)"
| cache_synced: "cache_reach cr hs pre_genesis c \<Longrightarrow> cache_reach cr hs pre_genesis (update_synced_trees trees c)"

lemma cache_add_block_ok:
  assumes "cache_ok c" and "p \<noteq> i"
  shows "\<exists>c' r. cache_add_block p (i, txns, out) c = Some (c', r) \<and> cache_ok c'"
  using cache_add_block_replace [OF assms(1), of i] cache_add_block_new [OF assms(1) _ assms(2)]
  by (cases "find_block i (sc_heads c)") blast+

lemma cache_prune_kept:
  assumes ok: "cache_ok c" and p: "cache_prune cr li txns evs c = Some (c', r)"
  shows "cache_ok c'"
proof (cases "find_block (bi_id (li_commit_info li)) (sc_heads c)")
  case None
  then show ?thesis using p ok by (simp add: cache_prune_def cache_get_block_eq [OF ok])
next
  case (Some b)
  have "has_reconfiguration (li_commit_info li) \<longrightarrow> make_genesis_block_from_ledger_info cr li \<noteq> None"
    using p Some
    by (auto simp: cache_prune_def cache_get_block_eq [OF ok] update_block_tree_root_def option_bind_simps split: if_splits)
  from cache_prune_ok [OF ok Some this, of txns evs] show ?thesis using p by auto
qed

lemma cache_startup_empty:
  assumes "cache_new_with_startup_info cr hs pre_genesis si = Some c"
  shows "sc_heads c = [] \<and> sc_block_map c = {}"
proof -
  obtain c1 trees c2 where n: "cache_new hs pre_genesis = Some c1"
    and u: "update_block_tree_root cr trees (lis_ledger_info (si_latest_ledger_info si)) [] [] c1 = Some c2"
    and c: "sc_heads c = sc_heads c2" "sc_block_map c = sc_block_map c2"
    using assms unfolding cache_new_with_startup_info_def
    by (auto simp: option_bind_simps update_synced_trees_def split: option.splits)
  show ?thesis using n c update_root_frame [OF u] by (auto simp: cache_new_def option_bind_simps)
qed

lemma cache_reach_ok: "cache_reach cr hs pre_genesis c \<Longrightarrow> cache_ok c"
proof (induction rule: cache_reach.induct)
  case (cache_startup si c)
  then show ?case using cache_startup_empty by (fastforce simp: cache_ok_def)
next
  case (cache_add c p i txns out c' r)
  then show ?case using cache_add_block_ok [of c p i txns out] by auto
next
  case (cache_pruned c li txns evs c' r)
  then show ?case using cache_prune_kept by blast
next
  case (cache_resetted c c')
  then show ?case using cache_reset_ok [of c] by auto
next
  case (cache_replaced c k S)
  then show ?case by (intro cache_replace_pos_state_ok)
qed (auto simp: cache_new_for_db_bootstrapping_def option_bind_simps cache_ok_def update_synced_trees_def)

section \<open>A small cache\<close>

definition ex_hashers :: hashers where
  "ex_hashers = \<lparr>hs_txn_node = (+), hs_event_node = (+), hs_placeholder = 0, hs_event = (\<lambda>e. snd (ce_key e)),
     hs_txn = (\<lambda>t. 1), hs_txn_info = ti_event_root_hash\<rparr>"

definition ex_trees :: executed_trees where
  "ex_trees = \<lparr>et_transaction_accumulator = \<lparr>acc_frozen_subtree_roots = [], acc_num_leaves = 0, acc_root_hash = 0\<rparr>,
     et_pos_state = ex_genesis\<rparr>"

definition ex_output :: processed_vm_output where
  "ex_output = \<lparr>po_transaction_data = [], po_executed_trees = ex_trees, po_epoch_state = None, po_pivot_block = None\<rparr>"

definition ex_cache :: "speculation_block list \<Rightarrow> hash set \<Rightarrow> speculation_cache" where
  "ex_cache bs m = \<lparr>sc_synced_trees = ex_trees, sc_committed_trees = ex_trees, sc_committed_txns_and_events = ([], []),
     sc_committed_block_id = 0, sc_heads = bs, sc_block_map = m\<rparr>"

definition ex_heads :: "speculation_block list" where
  "ex_heads = [SpeculationBlock 1 [] [SpeculationBlock 2 [] [] ex_output] ex_output]"

lemma ex_cache_reach: "cache_reach cr ex_hashers 0 (ex_cache ex_heads {1, 2})"
proof -
  have "cache_new_for_db_bootstrapping ex_hashers 0
      \<lparr>ts_num_transactions = 0, ts_ledger_frozen_subtree_hashes = [], ts_account_state_root_hash = 0\<rparr> ex_genesis = Some (ex_cache [] {})"
    by (simp add: cache_new_for_db_bootstrapping_def executed_trees_new_with_pos_state_def executed_trees_new_def
        accumulator_new_def compute_root_hash_def ex_hashers_def ex_cache_def ex_trees_def result_simps ensure_def try_opt_def count_ones.simps)
  then have 0: "cache_reach cr ex_hashers 0 (ex_cache [] {})" by (rule cache_bootstrap)
  have "cache_add_block 0 (1, [], ex_output) (ex_cache [] {}) =
      Some (ex_cache [SpeculationBlock 1 [] [] ex_output] {1}, Inr ())"
    by (simp add: cache_add_block_def ex_cache_def)
  from cache_add [OF 0 _ this] have 1: "cache_reach cr ex_hashers 0 (ex_cache [SpeculationBlock 1 [] [] ex_output] {1})" by simp
  have "cache_add_block 1 (2, [], ex_output) (ex_cache [SpeculationBlock 1 [] [] ex_output] {1}) = Some (ex_cache ex_heads {1, 2}, Inr ())"
    by (simp add: cache_add_block_def ex_cache_def ex_heads_def cache_get_block_def ok_or_def sb_add_child_def insert_commute)
  from cache_add [OF 1 _ this] show ?thesis by simp
qed

definition ex_cr :: crypto where
  "ex_cr = \<lparr>cr_verify = (\<lambda>pk m sig. sig = pk), cr_hash_vote_data = (\<lambda>d. bi_round (vd_proposed d)),
     cr_hash_block_data = bd_round, cr_verify_proof = (\<lambda>pk seed proof. proof = pk)\<rparr>"

definition ex_commit :: "hash \<Rightarrow> ledger_info" where
  "ex_commit k = \<lparr>li_commit_info = block_info_empty\<lparr>bi_id := k\<rparr>, li_consensus_data_hash = 0\<rparr>"

section \<open>Properties\<close>

text \<open>
  C24. The speculation cache stays well formed: in every cache that a sequence of its operations reaches, the
  blocks have distinct identifiers and the map has exactly one entry for each of them. So no operation
  panics in the destructor of a block and a lookup that fails only reports an unknown block.
\<close>

theorem cache_well_formed:
  assumes "cache_reach cr hs pre_genesis c"
  shows "distinct (forest_ids (sc_heads c)) \<and> sc_block_map c = set (forest_ids (sc_heads c)) \<and>
    cache_reset c \<noteq> None \<and> (p \<noteq> i \<longrightarrow> cache_add_block p (i, txns, out) c \<noteq> None) \<and>
    (has_reconfiguration (li_commit_info li) \<and> make_genesis_block_from_ledger_info cr li = None \<or>
       cache_prune cr li txns evs c \<noteq> None) \<and>
    (cache_get_block k c = Inl e \<longrightarrow> e = BlockNotFound k)"
proof -
  have ok: "cache_ok c" using cache_reach_ok [OF assms] .
  have prune: "cache_prune cr li txns evs c \<noteq> None"
    if "has_reconfiguration (li_commit_info li) \<longrightarrow> make_genesis_block_from_ledger_info cr li \<noteq> None"
  proof (cases "find_block (bi_id (li_commit_info li)) (sc_heads c)")
    case None
    then show ?thesis by (simp add: cache_prune_def cache_get_block_eq [OF ok])
  next
    case (Some b)
    then show ?thesis using cache_prune_ok [OF ok Some, of cr txns evs] that by auto
  qed
  have "p \<noteq> i \<Longrightarrow> cache_add_block p (i, txns, out) c \<noteq> None"
    using cache_add_block_ok [OF ok, of p i txns out] by auto
  moreover have "cache_get_block k c = Inl e \<Longrightarrow> e = BlockNotFound k"
    by (simp add: cache_get_block_eq [OF ok] split: option.splits)
  moreover have "has_reconfiguration (li_commit_info li) \<and> make_genesis_block_from_ledger_info cr li = None \<or>
      cache_prune cr li txns evs c \<noteq> None" using prune by blast
  ultimately show ?thesis using ok cache_reset_ok(1) [OF ok] unfolding cache_ok_def by blast
qed

theorem cache_well_formed_witness:
  "distinct (forest_ids (sc_heads (ex_cache ex_heads {1, 2}))) \<and> cache_reset (ex_cache ex_heads {1, 2}) \<noteq> None"
  using cache_well_formed [OF ex_cache_reach] by blast

text \<open>
  C25. Pruning keeps exactly the blocks above the committed one: it returns the identifier of the old root, and
  a later lookup finds a block if and only if it was a descendant of the committed block, with the children
  and the output it had. The committed trees are those the execution of the committed block gave; only when the
  epoch ends is the mark of a skipped state cleared.
\<close>

theorem prune_keeps_descendants:
  assumes "cache_reach cr hs pre_genesis c" and "cache_get_block (bi_id (li_commit_info li)) c = Inr b"
    and "has_reconfiguration (li_commit_info li) \<longrightarrow> make_genesis_block_from_ledger_info cr li \<noteq> None"
  shows "\<exists>c'. cache_prune cr li txns evs c = Some (c', Inr (sc_committed_block_id c)) \<and>
    (\<forall>k. cache_get_block k c' =
       (if k \<in> set (forest_ids (sb_children b)) then cache_get_block k c else Inl (BlockNotFound k))) \<and>
    cache_executed_trees (sc_committed_block_id c') c' = Inr (if has_reconfiguration (li_commit_info li)
      then et_set_pos_state_skipped False (po_executed_trees (sb_output b)) else po_executed_trees (sb_output b))"
proof -
  have ok: "cache_ok c" using cache_reach_ok [OF assms(1)] .
  have b: "find_block (bi_id (li_commit_info li)) (sc_heads c) = Some b"
    using assms(2) by (simp add: cache_get_block_eq [OF ok] split: option.splits)
  obtain c' where c': "cache_prune cr li txns evs c = Some (c', Inr (sc_committed_block_id c))" "cache_ok c'"
      "sc_heads c' = sb_children b" "sc_committed_trees c' = (if has_reconfiguration (li_commit_info li)
        then et_set_pos_state_skipped False (po_executed_trees (sb_output b)) else po_executed_trees (sb_output b))"
    using cache_prune_ok [OF ok b assms(3)] by blast
  have "cache_get_block k c' =
      (if k \<in> set (forest_ids (sb_children b)) then cache_get_block k c else Inl (BlockNotFound k))" for k
  proof (cases "find_block k (sb_children b)")
    case None
    then have "k \<notin> set (forest_ids (sb_children b))" by (rule find_block_None [THEN iffD1])
    then show ?thesis unfolding cache_get_block_eq [OF c'(2)] c'(3) None by simp
  next
    case (Some x)
    then have "k \<in> set (forest_ids (sb_children b))" using find_block_None [of k "sb_children b"] by auto
    moreover have "find_block k (sc_heads c) = Some x"
      using ok find_block_below [OF _ b Some] by (simp add: cache_ok_def)
    ultimately show ?thesis unfolding cache_get_block_eq [OF c'(2)] cache_get_block_eq [OF ok] c'(3) Some by simp
  qed
  then show ?thesis using c' by (intro exI [of _ c']) (simp add: cache_executed_trees_def)
qed

theorem prune_keeps_descendants_witness:
  "\<exists>c'. cache_prune ex_cr (ex_commit 1) [] [] (ex_cache ex_heads {1, 2}) = Some (c', Inr 0) \<and>
    cache_get_block 2 c' = cache_get_block 2 (ex_cache ex_heads {1, 2}) \<and> cache_get_block 1 c' = Inl (BlockNotFound 1)"
proof -
  let ?b = "SpeculationBlock 1 [] [SpeculationBlock 2 [] [] ex_output] ex_output"
  have "cache_get_block (bi_id (li_commit_info (ex_commit 1))) (ex_cache ex_heads {1, 2}) = Inr ?b"
    by (simp add: cache_get_block_def ex_cache_def ex_heads_def ex_commit_def ok_or_def)
  moreover have "\<not> has_reconfiguration (li_commit_info (ex_commit 1))"
    by (simp add: ex_commit_def has_reconfiguration_def block_info_empty_def)
  ultimately obtain c' where p: "cache_prune ex_cr (ex_commit 1) [] [] (ex_cache ex_heads {1, 2}) =
        Some (c', Inr (sc_committed_block_id (ex_cache ex_heads {1, 2})))"
      and k: "\<forall>k. cache_get_block k c' = (if k \<in> set (forest_ids (sb_children ?b))
        then cache_get_block k (ex_cache ex_heads {1, 2}) else Inl (BlockNotFound k))"
    using prune_keeps_descendants [OF ex_cache_reach, of "ex_commit 1" ?b ex_cr "[]" "[]"] by blast
  then show ?thesis using p k [rule_format, of 1] k [rule_format, of 2]
    by (intro exI [of _ c']) (simp add: ex_cache_def)
qed

end
