(* ===== verification/Executor_Props.thy ===== *)
theory Executor_Props
  imports Executor Vm_Props Cache_Props
begin

text \<open>
  Executing blocks: every state the executor computes is one that the state machine of the proof-of-stake state
  reaches, and the staking transactions of a block are those of the proof-of-work chain.
\<close>

section \<open>Chains\<close>

definition chain_ok :: "pos_state_config \<Rightarrow> nat \<Rightarrow> view \<Rightarrow> nat \<Rightarrow> pos_state \<Rightarrow> bool" where
  "chain_ok conf C V B S0 \<longleftrightarrow> pos_config_ok conf C V \<and> B \<le> U64_MAX \<and>
     (\<exists>nodes committee seed pivot. genesis_ok C B nodes committee \<and> pos_state_new conf seed nodes committee pivot = Some S0)"

lemma chain_inv:
  assumes "chain_ok conf C V B S0" and "pos_reach vn conf V B S0 S m"
  shows "pos_inv conf C V m S" and "m \<le> U64_MAX"
  using assms pos_reach_inv [OF assms(2)] unfolding chain_ok_def by blast+

lemma chain_step:
  assumes "chain_ok conf C V B S0" and "pos_reach vn conf V B S0 S m" and "op_allowed V op S" and "m + op_minted op \<le> U64_MAX"
  obtains S' where "pos_step vn conf op S = Some S'" and "pos_reach vn conf V B S0 S' (m + op_minted op)"
  using pos_step_ok [OF chain_inv(1) [OF assms(1,2)] _ assms(4,3), of vn] reach_step [OF assms(2-4)] assms(1)
  unfolding chain_ok_def by blast

text \<open>What the events of a block leave unchanged, as far as elections look at it.\<close>

definition same_term :: "pos_state \<Rightarrow> pos_state \<Rightarrow> bool" where
  "same_term S S' \<longleftrightarrow> dom (pst_node_map S) \<subseteq> dom (pst_node_map S') \<and> pst_current_view S' = pst_current_view S \<and>
     electing_term_number (pst_term_list S') = electing_term_number (pst_term_list S)"

lemma same_term_refl [simp]: "same_term S S"
  by (simp add: same_term_def)

lemma same_term_trans: "same_term S S' \<Longrightarrow> same_term S' S'' \<Longrightarrow> same_term S S''"
  by (auto simp: same_term_def)

lemma on_lock_status_same:
  assumes "on_lock_status f msg a S = Some (S', r)"
  shows "same_term S S'"
  using assms by (auto simp: on_lock_status_def same_term_def option_bind_simps hinted_record split: option.splits)

lemma new_node_elected_same:
  assumes "pst_new_node_elected vn conf e S = Some (S', r)"
  shows "same_term S S'"
  using assms
  by (auto simp: pst_new_node_elected_def tl_new_node_elected_def same_term_def option_bind_simps Let_def
      electing_term_number_def start_term_def split: if_splits)

lemma register_node_same: "same_term S (fst (register_node i S))"
  by (auto simp: register_node_def same_term_def)

lemmas lock_op_defs = update_voting_power_def retire_node_def force_retire_node_def forfeit_node_def

section \<open>Events of the virtual machine\<close>

text \<open>Transactions other than write sets.\<close>

definition plain_txn :: "pos_transaction \<Rightarrow> bool" where
  "plain_txn t = (case t of
       UserTransaction u \<Rightarrow> (case rt_payload (st_raw_txn u) of WriteSet _ \<Rightarrow> False | _ \<Rightarrow> True)
     | GenesisTransaction _ \<Rightarrow> False
     | BlockMetadata _ \<Rightarrow> True)"

definition election_allowed :: "externals \<Rightarrow> view \<Rightarrow> pos_state \<Rightarrow> contract_event \<Rightarrow> bool" where
  "election_allowed x V S ev \<longleftrightarrow> (ce_key ev = election_event_key \<longrightarrow>
     (\<exists>e. snd (bc_election (xc_bcs x)) (ce_data ev) = Some e \<and> op_allowed V (DoElect e) S))"

lemma election_allowed_other:
  "ce_key ev \<noteq> election_event_key \<Longrightarrow> election_allowed x V S ev"
  by (simp add: election_allowed_def)

lemma election_allowed_same:
  assumes "election_allowed x V S ev" and "same_term S S'"
  shows "election_allowed x V S' ev"
  using assms unfolding election_allowed_def same_term_def op_allowed.simps by (metis subsetD)

lemma validated_election:
  assumes "validate_election addr_of vv conf tx S = Some (Inr ())"
  shows "addr_of (el_public_key tx) (el_vrf_public_key tx) \<in> dom (pst_node_map S)"
    and "el_target_term tx = start_term (pst_term_list S) + tl_electing_index (pst_term_list S)"
  using assms
  by (auto simp: validate_election_def node_id_new_def Let_def option_bind_simps u64_simps assert_that_def
      split: option.splits if_splits)

lemma executed_election:
  assumes "execute_election x conf S False p = Some (Inr evs)" and "serde_ok (bc_election (xc_bcs x))"
    and "electing_term_number (pst_term_list S) \<noteq> None" and "ev \<in> set evs"
  shows "election_allowed x V S ev"
proof -
  have v: "validate_election (xc_address x) (cr_verify_proof (xc_crypto x)) conf p S = Some (Inr ())"
    and e: "\<exists>event. election_to_event x p = Some event \<and> evs = [event]"
    using assms(1) by (auto simp: execute_election_def result_simps option_bind_simps)
  have "electing_term_number (pst_term_list S) = Some (el_target_term p)"
    using assms(3) validated_election(2) [OF v] by (auto simp: electing_term_number_def add64_def split: if_splits)
  then show ?thesis
    using e assms(2,4) validated_election(1) [OF v]
    by (auto simp: election_to_event_def option_bind_simps contract_event_new_def election_allowed_def serde_ok_def
        election_event_new_def node_id_new_def)
qed

lemma unlock_events_keys:
  assumes "unlock_contract_events x S = Some evs" and "ev \<in> set evs"
  shows "ce_key ev = unlock_event_key"
  using assms by (auto simp: unlock_contract_events_def contract_event_new_def)

lemma vm_transaction_events:
  assumes "vm_execute_transaction x conf S False t = Some (Inr out)" and "plain_txn t" and "serde_ok (bc_election (xc_bcs x))"
    and "electing_term_number (pst_term_list S) \<noteq> None" and "ev \<in> set (to_events out)"
  shows "election_allowed x V S ev"
proof (cases t)
  case (BlockMetadata m)
  then have "ce_key ev = unlock_event_key \<or> ce_key ev = new_epoch_event_key"
    using assms(1,5) unlock_events_keys [of x S _ ev]
    by (auto simp: vm_execute_transaction_def process_block_metadata_def option_bind_simps gen_output_def
        contract_event_new_def Let_def split: if_splits)
  then show ?thesis by (intro election_allowed_other) (auto simp: event_key_defs)
next
  case (UserTransaction u)
  have p: "process_user_transaction x conf S False u = Some (Inr out)"
    using assms(1) UserTransaction
    by (auto simp: vm_execute_transaction_def check_signature_for_user_tx_def check_signature_def result_simps)
  show ?thesis
  proof (cases "rt_payload (st_raw_txn u)")
    case (Election q)
    then obtain evs where "execute_election x conf S False q = Some (Inr evs)" "to_events out = evs"
      using p by (auto simp: process_user_transaction_def result_simps gen_output_def)
    then show ?thesis using executed_election [OF _ assms(3,4)] assms(5) by blast
  qed (use p assms(2,5) UserTransaction in \<open>auto simp: process_user_transaction_def plain_txn_def result_simps gen_output_def
      execute_pivot_def execute_dispute_def option_bind_simps retire_to_event_def register_to_event_def
      update_voting_power_to_event_def dispute_to_event_def pivot_to_event_def contract_event_new_def event_key_defs
      intro!: election_allowed_other split: if_splits\<close>)
qed (use assms(2) in \<open>simp add: plain_txn_def\<close>)

lemma vm_block_events:
  assumes "vm_execute_block x conf S False txns = Some (Inr outs)" and "\<forall>t\<in>set txns. plain_txn t"
    and "serde_ok (bc_election (xc_bcs x))" and "electing_term_number (pst_term_list S) \<noteq> None"
  shows "length outs = length txns \<and> (\<forall>out\<in>set outs. \<forall>ev\<in>set (to_events out). election_allowed x V S ev)"
  using assms(1,2)
proof (induction txns arbitrary: outs)
  case (Cons t txns)
  then obtain out outs' where "vm_execute_transaction x conf S False t = Some (Inr out)" "outs = out # outs'"
      "vm_execute_block x conf S False txns = Some (Inr outs')"
    by (auto simp: result_simps)
  then show ?case using Cons vm_transaction_events [OF _ _ assms(3,4)] by auto
qed simp

section \<open>Loops over events\<close>

lemma run_pos_eq: "run_pos (Some (S, r)) = Some (try_res r (\<lambda>_. Inr S))"
  by (simp add: run_pos_def)

text \<open>One event of the first loop is a step of the state machine, or is refused.\<close>

lemma select_event_step:
  assumes c: "chain_ok (ev_conf env) C V B S0" and r: "pos_reach (xc_vrf_number (ev_x env)) (ev_conf env) V B S0 S m"
    and e: "election_allowed (ev_x env) V S ev"
  shows "\<exists>res. select_event env ev (p, S) = Some res \<and> (\<forall>p' S'. res = Inr (p', S') \<longrightarrow>
    pos_reach (xc_vrf_number (ev_x env)) (ev_conf env) V B S0 S' m \<and> same_term S S')"
proof -
  let ?x = "ev_x env" and ?conf = "ev_conf env"
  have m: "m \<le> U64_MAX" using chain_inv(2) [OF c r] .
  show ?thesis
  proof (cases "ce_key ev = election_event_key")
    case True
    then obtain ee where ee: "snd (bc_election (xc_bcs ?x)) (ce_data ev) = Some ee" "op_allowed V (DoElect ee) S"
      using e unfolding election_allowed_def by blast
    obtain S' where s: "pos_step (xc_vrf_number ?x) ?conf (DoElect ee) S = Some S'"
        "pos_reach (xc_vrf_number ?x) ?conf V B S0 S' m"
      using chain_step [OF c r ee(2)] m by auto
    then obtain res where n: "pst_new_node_elected (xc_vrf_number ?x) ?conf ee S = Some (S', res)" by auto
    have "ce_key ev \<noteq> pivot_select_event_key" using True by (simp add: event_key_defs)
    then have "select_event env ev (p, S) = Some (try_res res (\<lambda>_. Inr (p, S')))"
      using True ee(1) n by (cases res) (simp_all add: select_event_def decode_def ok_or_def run_pos_eq Let_def)
    then show ?thesis using s(2) new_node_elected_same [OF n] by (cases res) auto
  next
    case ne: False
    show ?thesis
    proof (cases "ce_key ev = dispute_event_key")
      case True
      have k: "ce_key ev \<noteq> pivot_select_event_key" "ce_key ev \<noteq> election_event_key" using True by (simp_all add: event_key_defs)
      show ?thesis
      proof (cases "snd (bc_dispute (xc_bcs ?x)) (ce_data ev)")
        case None
        then show ?thesis using True k by (simp add: select_event_def decode_def ok_or_def Let_def)
      next
        case (Some a)
        obtain S' where s: "pos_step (xc_vrf_number ?x) ?conf (DoForfeit a) S = Some S'"
            "pos_reach (xc_vrf_number ?x) ?conf V B S0 S' m"
          using chain_step [OF c r, of "DoForfeit a"] m by auto
        then obtain res where n: "forfeit_node ?conf a S = Some (S', res)" by auto
        then have "select_event env ev (p, S) = Some (try_res res (\<lambda>_. Inr (p, S')))"
          using True k Some by (cases res) (simp_all add: select_event_def decode_def ok_or_def run_pos_eq Let_def)
        then show ?thesis using s(2) on_lock_status_same [OF n [unfolded forfeit_node_def]] by (cases res) auto
      qed
    qed (use ne r in \<open>auto simp: select_event_def decode_def ok_or_def Let_def split: option.splits\<close>)
  qed
qed

lemma select_events_steps:
  assumes c: "chain_ok (ev_conf env) C V B S0" and "pos_reach (xc_vrf_number (ev_x env)) (ev_conf env) V B S0 S m"
    and "\<forall>ev\<in>set evs. election_allowed (ev_x env) V S ev"
  shows "\<exists>res. try_fold (select_event env) evs (p, S) = Some res \<and> (\<forall>p' S'. res = Inr (p', S') \<longrightarrow>
    pos_reach (xc_vrf_number (ev_x env)) (ev_conf env) V B S0 S' m \<and> same_term S S')"
  using assms(2,3)
proof (induction evs arbitrary: p S)
  case (Cons ev evs)
  obtain res where res: "select_event env ev (p, S) = Some res" "\<forall>p' S'. res = Inr (p', S') \<longrightarrow>
      pos_reach (xc_vrf_number (ev_x env)) (ev_conf env) V B S0 S' m \<and> same_term S S'"
    using select_event_step [OF c Cons.prems(1)] Cons.prems(2) by (meson list.set_intros(1))
  show ?case
  proof (cases res)
    case (Inr st)
    obtain p' S' where st: "st = (p', S')" by fastforce
    then have s: "pos_reach (xc_vrf_number (ev_x env)) (ev_conf env) V B S0 S' m" "same_term S S'"
      using res(2) Inr by auto
    have "\<forall>ev\<in>set evs. election_allowed (ev_x env) V S' ev"
      using Cons.prems(2) election_allowed_same [OF _ s(2)] by auto
    from Cons.IH [OF s(1) this, of p'] show ?thesis
      using res(1) Inr st same_term_trans [OF s(2)] by fastforce
  qed (use res(1) in simp)
qed simp

text \<open>The stake that the events of a block add.\<close>

definition event_minted :: "externals \<Rightarrow> contract_event \<Rightarrow> nat" where
  "event_minted x ev = (if ce_key ev = update_voting_power_event_key
     then case snd (bc_update (xc_bcs x)) (ce_data ev) of None \<Rightarrow> 0 | Some e \<Rightarrow> ue_voting_power e else 0)"

definition events_minted :: "externals \<Rightarrow> contract_event list \<Rightarrow> nat" where
  "events_minted x evs = sum_list (map (event_minted x) evs)"

lemma run_op:
  assumes c: "chain_ok conf C V B S0" and r: "pos_reach vn conf V B S0 S m" and "op_allowed V op S" and "m + op_minted op \<le> U64_MAX"
    and p: "pos_step vn conf op S = map_option fst q" and same: "\<And>S' res. q = Some (S', res) \<Longrightarrow> same_term S S'"
  shows "\<exists>res. run_pos q = Some res \<and> (\<forall>S'. res = Inr S' \<longrightarrow>
    pos_reach vn conf V B S0 S' (m + op_minted op) \<and> same_term S S')"
proof -
  obtain S' where s: "pos_step vn conf op S = Some S'" "pos_reach vn conf V B S0 S' (m + op_minted op)"
    using chain_step [OF assms(1-4)] by blast
  then obtain res where q: "q = Some (S', res)" using p by auto
  then show ?thesis using s(2) same [OF q] by (cases res) (auto simp: run_pos_eq)
qed

definition staking_keys :: "event_key set" where
  "staking_keys = {register_event_key, update_voting_power_event_key, retire_event_key}"

text \<open>The operation a staking event stands for, and the comparison of the event with one of the other chain.\<close>

definition staking_op :: "externals \<Rightarrow> contract_event \<Rightarrow> pos_op option" where
  "staking_op x ev =
     (if ce_key ev = register_event_key then map_option DoRegister (snd (bc_register (xc_bcs x)) (ce_data ev))
      else if ce_key ev = update_voting_power_event_key
      then map_option (\<lambda>e. DoIncrease (ue_node_address e) (ue_voting_power e)) (snd (bc_update (xc_bcs x)) (ce_data ev))
      else if ce_key ev = retire_event_key
      then map_option (\<lambda>e. DoRetire (re_node_id e) (re_votes e)) (snd (bc_retire (xc_bcs x)) (ce_data ev))
      else None)"

definition staking_match :: "externals \<Rightarrow> contract_event \<Rightarrow> staking_event \<Rightarrow> string + bool" where
  "staking_match x ev se =
     (if ce_key ev = register_event_key
      then case snd (bc_register (xc_bcs x)) (ce_data ev) of None \<Rightarrow> Inr False | Some e \<Rightarrow> register_matches_staking_event x e se
      else if ce_key ev = update_voting_power_event_key
      then case snd (bc_update (xc_bcs x)) (ce_data ev) of None \<Rightarrow> Inr False | Some e \<Rightarrow> update_matches_staking_event x e se
      else case snd (bc_retire (xc_bcs x)) (ce_data ev) of None \<Rightarrow> Inr False | Some e \<Rightarrow> retire_matches_staking_event x e se)"

definition op_result :: "pos_state_config \<Rightarrow> pos_op \<Rightarrow> pos_state \<Rightarrow> (string + pos_state) option" where
  "op_result conf op S =
     (case op of
        DoRegister i \<Rightarrow> run_pos (Some (register_node i S))
      | DoIncrease a n \<Rightarrow> run_pos (update_voting_power conf a n S)
      | DoRetire a n \<Rightarrow> run_pos (retire_node conf a n S)
      | _ \<Rightarrow> Some (Inr S))"

text \<open>The two loops over staking events, over these operations.\<close>

lemma verified_staking_eq:
  "verified_staking_event env ev (iter, S) =
     (if ce_key ev \<notin> staking_keys then Some (Inr (iter, S))
      else case staking_op (ev_x env) ev of
        None \<Rightarrow> Some (Inl ''bcs error'')
      | Some op \<Rightarrow> try_opt (Some (next_staking_event (staking_match (ev_x env) ev) iter)) (\<lambda>iter'.
          try_opt (op_result (ev_conf env) op S) (\<lambda>S'. Some (Inr (iter', S')))))"
proof -
  have k: "register_event_key \<noteq> update_voting_power_event_key" "register_event_key \<noteq> retire_event_key"
      "update_voting_power_event_key \<noteq> retire_event_key"
    by (simp_all add: event_key_defs)
  show ?thesis
    by (simp add: verified_staking_event_def staking_keys_def staking_op_def staking_match_def [abs_def] op_result_def decode_def
        ok_or_def Let_def k k [symmetric] split: option.split)
qed

lemma catch_up_staking_eq:
  "catch_up_staking_event env ev S =
     (if ce_key ev \<notin> staking_keys then Some (Inr S)
      else case staking_op (ev_x env) ev of None \<Rightarrow> Some (Inl ''bcs error'') | Some op \<Rightarrow> op_result (ev_conf env) op S)"
proof -
  have k: "register_event_key \<noteq> update_voting_power_event_key" "register_event_key \<noteq> retire_event_key"
      "update_voting_power_event_key \<noteq> retire_event_key"
    by (simp_all add: event_key_defs)
  show ?thesis
    by (simp add: catch_up_staking_event_def staking_keys_def staking_op_def op_result_def decode_def
        ok_or_def Let_def k k [symmetric] split: option.split)
qed

lemma op_result_step:
  assumes c: "chain_ok conf C V B S0" and r: "pos_reach vn conf V B S0 S m"
    and op: "staking_op x ev = Some op" and B: "m + event_minted x ev \<le> U64_MAX"
  shows "\<exists>res. op_result conf op S = Some res \<and> (\<forall>S'. res = Inr S' \<longrightarrow>
    pos_reach vn conf V B S0 S' (m + event_minted x ev) \<and> same_term S S')"
proof -
  have mint: "op_minted op = event_minted x ev"
    using op by (auto simp: staking_op_def event_minted_def event_key_defs split: if_splits)
  note run = run_op [OF c r _ B [folded mint], unfolded mint]
  show ?thesis
    using op run [of "Some (register_node _ S)"] run [of "update_voting_power conf _ _ S"] run [of "retire_node conf _ _ S"]
      register_node_same on_lock_status_same mint
    by (auto simp: staking_op_def op_result_def lock_op_defs split: if_splits) (metis fst_conv register_node_same)+
qed

lemma event_minted_other: "ce_key ev \<notin> staking_keys \<Longrightarrow> event_minted x ev = 0"
  by (simp add: event_minted_def staking_keys_def)

lemma verified_steps:
  assumes c: "chain_ok (ev_conf env) C V B S0" and "pos_reach vn (ev_conf env) V B S0 S m"
    and "m + events_minted (ev_x env) evs \<le> U64_MAX"
  shows "\<exists>res. try_fold (verified_staking_event env) evs (iter, S) = Some res \<and> (\<forall>iter' S'. res = Inr (iter', S') \<longrightarrow>
    pos_reach vn (ev_conf env) V B S0 S' (m + events_minted (ev_x env) evs) \<and> same_term S S')"
  using assms(2,3)
proof (induction evs arbitrary: iter S m)
  case (Cons ev evs)
  let ?x = "ev_x env" and ?conf = "ev_conf env"
  have mint: "events_minted ?x (ev # evs) = event_minted ?x ev + events_minted ?x evs" by (simp add: events_minted_def)
  have "\<exists>res. verified_staking_event env ev (iter, S) = Some res \<and> (\<forall>iter' S'. res = Inr (iter', S') \<longrightarrow>
      pos_reach vn ?conf V B S0 S' (m + event_minted ?x ev) \<and> same_term S S')"
  proof (cases "ce_key ev \<in> staking_keys")
    case k: True
    show ?thesis
    proof (cases "staking_op ?x ev")
      case (Some op)
      obtain res where res: "op_result ?conf op S = Some res" "\<forall>S'. res = Inr S' \<longrightarrow>
          pos_reach vn ?conf V B S0 S' (m + event_minted ?x ev) \<and> same_term S S'"
        using op_result_step [OF c Cons.prems(1) Some] Cons.prems(2) mint by auto
      then show ?thesis
        using k Some by (cases "next_staking_event (staking_match ?x ev) iter"; cases res) (auto simp: verified_staking_eq)
    qed (use k in \<open>simp add: verified_staking_eq\<close>)
  qed (use Cons.prems(1) in \<open>auto simp: verified_staking_eq event_minted_other\<close>)
  then obtain res where res: "verified_staking_event env ev (iter, S) = Some res" "\<forall>iter' S'. res = Inr (iter', S') \<longrightarrow>
      pos_reach vn ?conf V B S0 S' (m + event_minted ?x ev) \<and> same_term S S'" by blast
  show ?case
  proof (cases res)
    case (Inr st)
    obtain iter' S' where st: "st = (iter', S')" by fastforce
    then have s: "pos_reach vn ?conf V B S0 S' (m + event_minted ?x ev)" "same_term S S'" using res(2) Inr by auto
    have "m + event_minted ?x ev + events_minted ?x evs \<le> U64_MAX" using Cons.prems(2) mint by simp
    from Cons.IH [OF s(1) this, of iter'] show ?thesis
      using res(1) Inr st same_term_trans [OF s(2)] mint by (fastforce simp: add.assoc)
  qed (use res(1) in simp)
qed (simp add: events_minted_def)

lemma staking_steps:
  assumes c: "chain_ok (ev_conf env) C V B S0" and r: "pos_reach vn (ev_conf env) V B S0 S m"
    and B: "m + events_minted (ev_x env) evs \<le> U64_MAX"
  shows "\<exists>res. process_staking env evs False pp q S = Some res \<and> (\<forall>S'. res = Inr S' \<longrightarrow>
    pos_reach vn (ev_conf env) V B S0 S' (m + events_minted (ev_x env) evs) \<and> same_term S S')"
proof (cases "pw_get_staking_events (ev_pow env) (pd_height pp) (pd_height q) (pd_block_hash pp) (pd_block_hash q)")
  case (Inr ses)
  obtain res where f: "try_fold (verified_staking_event env) evs (ses, S) = Some res"
      and res: "\<forall>iter' S'. res = Inr (iter', S') \<longrightarrow> pos_reach vn (ev_conf env) V B S0 S' (m + events_minted (ev_x env) evs) \<and> same_term S S'"
    using verified_steps [OF c r B, of ses] by blast
  show ?thesis
  proof (cases res)
    case r: (Inr st)
    obtain iter' S' where "st = (iter', S')" by fastforce
    then show ?thesis using res r Inr f by (simp add: process_staking_def ensure_def)
  qed (use Inr f in \<open>simp add: process_staking_def\<close>)
qed (simp add: process_staking_def)

lemma pivot_steps:
  assumes c: "chain_ok (ev_conf env) C V B S0" and r: "pos_reach vn (ev_conf env) V B S0 S m"
    and B: "m + events_minted (ev_x env) evs \<le> U64_MAX"
  shows "\<exists>res. process_pivot env evs pid False pp (p, S) = Some res \<and> (\<forall>p' S'. res = Inr (p', S') \<longrightarrow>
    (\<exists>m'\<le>m + events_minted (ev_x env) evs. pos_reach vn (ev_conf env) V B S0 S' m') \<and> same_term S S')"
proof (cases "pid \<noteq> ev_pre_genesis env \<and> p \<noteq> None")
  case True
  then obtain q where q: "p = Some q" by blast
  obtain res where res: "process_staking env evs False pp q S = Some res" "\<forall>S'. res = Inr S' \<longrightarrow>
      pos_reach vn (ev_conf env) V B S0 S' (m + events_minted (ev_x env) evs) \<and> same_term S S'"
    using staking_steps [OF c r B] by blast
  show ?thesis
  proof (cases res)
    case (Inr S')
    have "process_pivot env evs pid False pp (p, S) = Some (Inr (p, S'))"
      using True q res(1) Inr by (simp add: process_pivot_def)
    moreover have "pos_reach vn (ev_conf env) V B S0 S' (m + events_minted (ev_x env) evs)" "same_term S S'"
      using res(2) Inr by auto
    ultimately show ?thesis by auto
  qed (use True q res(1) in \<open>simp add: process_pivot_def\<close>)
next
  case False
  moreover have "\<exists>m'\<le>m + events_minted (ev_x env) evs. pos_reach vn (ev_conf env) V B S0 S m'"
    using r le_add1 by blast
  ultimately show ?thesis by (auto simp: process_pivot_def)
qed

section \<open>Blocks\<close>

lemma from_leaves_eq: "length xs \<le> U64_MAX \<Longrightarrow> from_leaves h ph xs = Some (acc_of h ph xs)"
  using acc_append_eq [of "[]" xs h ph] by (simp add: from_leaves_def accumulator_default_eq)

lemma transaction_datas_defined:
  assumes "length outs = length txns" and "\<forall>out\<in>set outs. length (to_events out) \<le> U64_MAX"
  shows "\<exists>ds. transaction_datas hs outs txns = Some ds \<and> length ds = length txns"
  using assms
proof (induction outs txns rule: list_induct2)
  case (Cons out outs txn txns)
  then show ?case by (auto simp: transaction_data_of_def from_leaves_eq)
qed simp

lemma length_map_filter: "length (List.map_filter f xs) \<le> length xs"
  by (simp add: List.map_filter_def)

lemma next_view_after_genesis:
  assumes c: "chain_ok conf C V B S0" and r: "pos_reach vn conf V B S0 S m" and v: "0 < pst_current_view S" "pst_current_view S < V"
  obtains S' e where "next_view conf S = Some (S', e)" and "pos_reach vn conf V B S0 S' m"
    and "pst_current_view S' = Suc (pst_current_view S)" and "\<forall>es. e = Some es \<longrightarrow> es_epoch es \<noteq> 1"
proof -
  have inv: "pos_inv conf C V m S" and m: "m \<le> U64_MAX" using chain_inv [OF c r] by auto
  obtain S' e where n: "next_view conf S = Some (S', e)" "pst_current_view S' = Suc (pst_current_view S)"
      "case e of None \<Rightarrow> pst_epoch_state S' = pst_epoch_state S
       | Some es \<Rightarrow> pst_epoch_state S' = es \<and> es_epoch es = Suc (es_epoch (pst_epoch_state S))"
    using next_view_ok [OF inv _ v(2) m] c unfolding chain_ok_def by blast
  have "es_epoch (pst_epoch_state S) \<noteq> 0" using inv v(1) by (auto simp: pos_inv_def epoch_number_def)
  then have "\<forall>es. e = Some es \<longrightarrow> es_epoch es \<noteq> 1" using n(3) by auto
  moreover have "pos_reach vn conf V B S0 S' m"
    using reach_step [OF r, of DoNextView S'] n(1) v(2) m by simp
  ultimately show thesis using that n(1,2) by blast
qed

lemma block_output:
  assumes c: "chain_ok (ev_conf env) C V B S0" and "0 < pst_current_view S2" and "pst_current_view S2 < V"
    and "try_fold (select_event env) (concat (map to_events outs)) (None, S) = Some (Inr st)"
    and "process_pivot env (concat (map to_events outs)) pid False (pst_pivot_decision S) st = Some (Inr (p2, S2))"
    and r: "pos_reach vn (ev_conf env) V B S0 S2 m"
    and "length outs = length txns" and "\<forall>out\<in>set outs. length (to_events out) \<le> U64_MAX" and "length leaves + length txns \<le> U64_MAX"
  shows "\<exists>out. process_vm_outputs env txns outs \<lparr>et_transaction_accumulator =
      acc_of (hs_txn_node (ev_hs env)) (hs_placeholder (ev_hs env)) leaves, et_pos_state = S\<rparr> pid False = Some (Inr out) \<and>
    pos_reach vn (ev_conf env) V B S0 (et_pos_state (po_executed_trees out)) m \<and>
    pst_current_view (et_pos_state (po_executed_trees out)) = Suc (pst_current_view S2) \<and>
    (\<exists>hashes. length hashes \<le> length txns \<and> et_transaction_accumulator (po_executed_trees out) =
       acc_of (hs_txn_node (ev_hs env)) (hs_placeholder (ev_hs env)) (leaves @ hashes))"
proof -
  let ?S3 = "case p2 of None \<Rightarrow> S2 | Some p \<Rightarrow> set_pivot_decision p S2"
  have s3: "pos_reach vn (ev_conf env) V B S0 ?S3 m" "pst_current_view ?S3 = pst_current_view S2"
    using r reach_step [OF r, of "DoPivot _"] chain_inv(2) [OF c r] by (auto simp: set_pivot_decision_def split: option.split)
  obtain S4 e where n: "next_view (ev_conf env) ?S3 = Some (S4, e)" "pos_reach vn (ev_conf env) V B S0 S4 m"
      "pst_current_view S4 = Suc (pst_current_view S2)" "\<forall>es. e = Some es \<longrightarrow> es_epoch es \<noteq> 1"
    using next_view_after_genesis [OF c s3(1)] assms(2,3) unfolding s3(2) by blast
  obtain ds where ds: "transaction_datas (ev_hs env) outs txns = Some ds" "length ds = length txns"
    using transaction_datas_defined [OF assms(7,8)] by blast
  let ?hs = "List.map_filter xd_txn_info_hash ds"
  have l: "length leaves + length ?hs \<le> U64_MAX" "length ?hs \<le> length txns"
    using length_map_filter [of xd_txn_info_hash ds] ds(2) assms(9) by auto
  have "\<not> (case e of None \<Rightarrow> False | Some es \<Rightarrow> es_epoch es = 1)" using n(4) by (simp split: option.split)
  then show ?thesis
    using assms(4,5) n(1,2,3) ds(1) acc_append_eq [OF l(1)] l(2) by (auto simp: process_vm_outputs_def Let_def)
qed


text \<open>The small chain, one view after its genesis.\<close>

definition ex_env :: exec_env where
  "ex_env = \<lparr>ev_x = ex_externals, ev_conf = ex_conf, ev_hs = ex_hashers,
     ev_pow = \<lparr>pw_validate_proposal_pivot_decision = (\<lambda>p q. True),
       pw_get_staking_events = (\<lambda>h h' p q. Inr [StRegister 107 [7] [8]])\<rparr>, ev_pre_genesis = 0\<rparr>"

lemma ex_env_fields [simp]:
  "ev_x ex_env = ex_externals" "ev_conf ex_env = ex_conf" "ev_hs ex_env = ex_hashers" "ev_pre_genesis ex_env = 0"
  "xc_bcs ex_externals = ex_codec"
  by (simp_all add: ex_env_def ex_externals_def)

lemma ex_chain_ok: "chain_ok ex_conf 50 1000 30 ex_genesis"
  using ex_config_ok ex_genesis_ok ex_genesis_new(1) unfolding chain_ok_def by (auto simp: U64_MAX_def)

lemma ex_first:
  obtains S where "pos_reach (xc_vrf_number ex_externals) ex_conf 1000 30 ex_genesis S 30" and "pst_current_view S = 1"
    and "pst_node_map S 107 = None"
proof -
  have v: "pst_current_view ex_genesis = 0" using ex_genesis_new(3) .
  have "pst_node_map ex_genesis = the (initial_node_map ex_conf [(ex_node 1, 20), (ex_node 2, 30)] Map.empty)"
    using pos_state_new_fields(1) [OF ex_genesis_new(1)] by simp
  then have n: "pst_node_map ex_genesis 107 = None"
    by (simp add: ex_node_def new_lock_def node_lock_status_default_def add64_def U64_MAX_def)
  have h: "pst_node_map_hint ex_genesis = Map.empty"
    using pos_state_new_fields(3) [OF ex_genesis_new(1)] .
  obtain S where s: "pos_step (xc_vrf_number ex_externals) ex_conf DoNextView ex_genesis = Some S"
      "pos_reach (xc_vrf_number ex_externals) ex_conf 1000 30 ex_genesis S 30"
    using chain_step [OF ex_chain_ok reach_init, of DoNextView] v by (auto simp: U64_MAX_def)
  have "pst_current_view S = 1 \<and> pst_node_map S = pst_node_map ex_genesis"
    using s(1) v h by (auto simp: next_view_def next_view_epoch_def option_bind_simps u64_simps)
  then show thesis using that s(2) n by auto
qed

definition ex_register_tx :: pos_transaction where
  "ex_register_tx = UserTransaction \<lparr>st_raw_txn = \<lparr>rt_sender = 101, rt_payload = Register \<lparr>gp_public_key = 7, gp_vrf_public_key = 8\<rparr>,
     rt_expiration_timestamp_secs = 0, rt_chain_id = 4\<rparr>, st_authenticator = AuthMultiBLS ex_single\<rparr>"

lemma ex_register_output:
  "vm_execute_block ex_externals ex_conf S False [ex_register_tx] =
     Some (Inr [gen_output [register_to_event ex_externals \<lparr>gp_public_key = 7, gp_vrf_public_key = 8\<rparr>]])"
  by (simp add: ex_register_tx_def vm_execute_transaction_def check_signature_for_user_tx_def check_signature_def
      authenticator_verify_def map_err_def process_user_transaction_def)


section \<open>Staking events\<close>

lemma next_staking_event_Inr:
  "next_staking_event matches iter = Inr iter' \<longleftrightarrow> (\<exists>se. iter = se # iter' \<and> matches se \<noteq> Inr False)"
  by (auto simp: next_staking_event_def split: list.splits sum.splits bool.splits)

lemma verified_fold_match:
  assumes "try_fold (verified_staking_event env) evs (iter, S) = Some (Inr (iter', S'))"
  shows "\<exists>used. iter = used @ iter' \<and>
    list_all2 (\<lambda>ev se. staking_match (ev_x env) ev se \<noteq> Inr False) (filter (\<lambda>ev. ce_key ev \<in> staking_keys) evs) used"
  using assms
proof (induction evs arbitrary: iter S)
  case (Cons ev evs)
  then obtain i S1 where v: "verified_staking_event env ev (iter, S) = Some (Inr (i, S1))"
      "try_fold (verified_staking_event env) evs (i, S1) = Some (Inr (iter', S'))"
    by (auto simp: result_simps)
  from Cons.IH [OF v(2)] obtain used where u: "i = used @ iter'"
      "list_all2 (\<lambda>ev se. staking_match (ev_x env) ev se \<noteq> Inr False) (filter (\<lambda>ev. ce_key ev \<in> staking_keys) evs) used" by blast
  show ?case
  proof (cases "ce_key ev \<in> staking_keys")
    case True
    then obtain se where "iter = se # i" "staking_match (ev_x env) ev se \<noteq> Inr False"
      using v(1) by (auto simp: verified_staking_eq result_simps next_staking_event_Inr split: option.splits)
    then show ?thesis using True u by (intro exI [of _ "se # used"]) simp
  qed (use v(1) u in \<open>auto simp: verified_staking_eq\<close>)
qed simp

lemma selected_pivot:
  assumes "try_fold (select_event env) evs (p, S) = Some (Inr (p', S'))"
  shows "p' \<noteq> None \<longleftrightarrow> p \<noteq> None \<or> (\<exists>ev\<in>set evs. ce_key ev = pivot_select_event_key)"
  using assms
proof (induction evs arbitrary: p S)
  case (Cons ev evs)
  then obtain p1 S1 where v: "select_event env ev (p, S) = Some (Inr (p1, S1))"
      "try_fold (select_event env) evs (p1, S1) = Some (Inr (p', S'))"
    by (auto simp: result_simps)
  have "p1 \<noteq> None \<longleftrightarrow> p \<noteq> None \<or> ce_key ev = pivot_select_event_key"
    using v(1) by (auto simp: select_event_def result_simps Let_def split: if_splits)
  then show ?case using Cons.IH [OF v(2)] by auto
qed simp


definition ex_pivot :: pivot_block_decision where
  "ex_pivot = \<lparr>pd_height = 4, pd_block_hash = [2]\<rparr>"

definition ex_outs :: "transaction_output list" where
  "ex_outs = [gen_output [pivot_to_event ex_externals ex_pivot],
     gen_output [register_to_event ex_externals \<lparr>gp_public_key = 7, gp_vrf_public_key = 8\<rparr>]]"

lemma ex_block:
  obtains S out where "process_vm_outputs ex_env [ex_register_tx, ex_register_tx] ex_outs
    \<lparr>et_transaction_accumulator = acc_of (hs_txn_node ex_hashers) (hs_placeholder ex_hashers) [], et_pos_state = S\<rparr> 5 False = Some (Inr out)"
proof -
  obtain S where S: "pos_reach (xc_vrf_number ex_externals) ex_conf 1000 30 ex_genesis S 30" "pst_current_view S = 1"
      "pst_node_map S 107 = None"
    by (rule ex_first)
  let ?n = "\<lparr>ni_public_key = 7, ni_vrf_public_key = 8, ni_addr = 107\<rparr>" and ?evs = "concat (map to_events ex_outs)"
  have evs: "?evs = [\<lparr>ce_key = (2, 0x1D9), ce_data = [4, 2]\<rparr>, \<lparr>ce_key = (5, 0x1DD), ce_data = [7, 8, 107]\<rparr>]"
    by (simp add: ex_outs_def gen_output_def pivot_to_event_def register_to_event_def contract_event_new_def event_key_defs
        ex_codec_def ex_pivot_def node_id_new_def ex_externals_def)
  have f: "try_fold (select_event ex_env) ?evs (None, S) = Some (Inr (Some ex_pivot, S))"
    unfolding evs by (simp add: select_event_def event_key_defs decode_def ok_or_def ex_codec_def ex_pivot_def)
  have g: "process_pivot ex_env ?evs 5 False (pst_pivot_decision S) (Some ex_pivot, S) =
      Some (Inr (Some ex_pivot, fst (register_node ?n S)))"
    unfolding evs using S(3)
    by (simp add: process_pivot_def process_staking_def ex_env_def verified_staking_event_def event_key_defs decode_def ok_or_def
        ex_codec_def ex_externals_def next_staking_event_def register_matches_staking_event_def address_from_h256_def node_id_new_def
        ensure_def run_pos_def register_node_def)
  have r: "pos_reach (xc_vrf_number ex_externals) (ev_conf ex_env) 1000 30 ex_genesis (fst (register_node ?n S)) 30"
    using reach_step [OF S(1), of "DoRegister ?n"] by (simp add: U64_MAX_def)
  have v: "pst_current_view (fst (register_node ?n S)) = 1" using S(2) by (simp add: register_node_def)
  have "\<exists>out. process_vm_outputs ex_env [ex_register_tx, ex_register_tx] ex_outs
      \<lparr>et_transaction_accumulator = acc_of (hs_txn_node (ev_hs ex_env)) (hs_placeholder (ev_hs ex_env)) [], et_pos_state = S\<rparr> 5 False = Some (Inr out)"
    using block_output [where txns = "[ex_register_tx, ex_register_tx]" and leaves = "[]", OF _ _ _ f g r] ex_chain_ok v
    by (force simp: ex_outs_def gen_output_def U64_MAX_def)
  then show thesis using that by auto
qed


lemmas staking_event_simps = contract_event_new_def staking_keys_def staking_match_def staking_op_def serde_ok_def
  event_key_defs node_id_new_def address_from_h256_def

text \<open>
  C14. Packing what the proof-of-work chain reports is accepted: the transaction built from one of its staking
  events passes the virtual machine, and the event it emits compares equal with the staking event and stands for
  the operation it describes.
\<close>

theorem staking_roundtrip:
  assumes "serde_ok (bc_register (xc_bcs x))" and "serde_ok (bc_update (xc_bcs x))" and "serde_ok (bc_retire (xc_bcs x))"
    and "from_staking_event x se sender = Inr raw"
  shows "\<exists>ev. process_user_transaction x conf S cu \<lparr>st_raw_txn = raw, st_authenticator = auth\<rparr> = Some (Inr (gen_output [ev])) \<and>
    ce_key ev \<in> staking_keys \<and> staking_match x ev se = Inr True \<and>
    (case se of
       StRegister h bls vrf \<Rightarrow> \<exists>k v. xc_public_key x bls = Some k \<and> xc_vrf_public_key x vrf = Some v \<and> xc_address x k v = h \<and>
         staking_op x ev = Some (DoRegister (node_id_new (xc_address x) k v))
     | StIncreaseStake h n \<Rightarrow> staking_op x ev = Some (DoIncrease h n)
     | StRetire h n \<Rightarrow> staking_op x ev = Some (DoRetire h n))"
proof (cases se)
  case (StRegister h bls vrf)
  then obtain k v where k: "xc_public_key x bls = Some k" "xc_vrf_public_key x vrf = Some v" "xc_address x k v = h"
      "rt_payload raw = Register \<lparr>gp_public_key = k, gp_vrf_public_key = v\<rparr>"
    using assms(4) by (auto simp: from_staking_event_def address_from_h256_def node_id_new_def result_simps Let_def)
  then show ?thesis using StRegister assms(1)
    by (intro exI [of _ "register_to_event x \<lparr>gp_public_key = k, gp_vrf_public_key = v\<rparr>"])
      (simp add: process_user_transaction_def register_to_event_def staking_event_simps register_matches_staking_event_def ok_or_def ensure_def)
next
  case (StIncreaseStake h n)
  then have "rt_payload raw = UpdateVotingPower \<lparr>up_node_address = h, up_voting_power = n\<rparr>"
    using assms(4) by (auto simp: from_staking_event_def address_from_h256_def)
  then show ?thesis using StIncreaseStake assms(2)
    by (intro exI [of _ "update_voting_power_to_event x \<lparr>up_node_address = h, up_voting_power = n\<rparr>"])
      (simp add: process_user_transaction_def update_voting_power_to_event_def staking_event_simps update_matches_staking_event_def)
next
  case (StRetire h n)
  then have "rt_payload raw = Retire \<lparr>rp_node_id = h, rp_votes = n\<rparr>"
    using assms(4) by (auto simp: from_staking_event_def)
  then show ?thesis using StRetire assms(3)
    by (intro exI [of _ "retire_to_event x \<lparr>rp_node_id = h, rp_votes = n\<rparr>"])
      (simp add: process_user_transaction_def retire_to_event_def staking_event_simps retire_matches_staking_event_def)
qed

theorem staking_roundtrip_witness:
  "\<exists>raw ev. from_staking_event ex_externals (StRegister 107 [7] [8]) 101 = Inr raw \<and>
     process_user_transaction ex_externals ex_conf ex_genesis False \<lparr>st_raw_txn = raw, st_authenticator = AuthMultiBLS ex_single\<rparr> =
       Some (Inr (gen_output [ev])) \<and>
     staking_match ex_externals ev (StRegister 107 [7] [8]) = Inr True"
proof -
  have b: "xc_bcs ex_externals = ex_codec" by (simp add: ex_externals_def)
  let ?raw = "\<lparr>rt_sender = 101, rt_payload = Register \<lparr>gp_public_key = 7, gp_vrf_public_key = 8\<rparr>,
    rt_expiration_timestamp_secs = U64_MAX, rt_chain_id = 4\<rparr>"
  have "from_staking_event ex_externals (StRegister 107 [7] [8]) 101 = Inr ?raw"
    by (simp add: from_staking_event_def address_from_h256_def ex_externals_def ok_or_def ensure_def node_id_new_def)
  then show ?thesis
    using staking_roundtrip [of ex_externals "StRegister 107 [7] [8]" 101 ?raw ex_conf ex_genesis False "AuthMultiBLS ex_single"]
      ex_codec_ok b by auto
qed

text \<open>
  C40. A write set forges events: a transaction with a write set passes the check of signatures with any multi-signature,
  and its events are taken over as they are. With the election of a node that is not registered, the virtual machine
  accepts the block and processing its output panics.
\<close>

theorem forged_election_panics:
  assumes "serde_ok (bc_election (xc_bcs (ev_x env)))" and "pst_node_map (et_pos_state trees) (ni_addr (ee_node_id e)) = None"
    and "txn = UserTransaction \<lparr>st_raw_txn = raw\<lparr>rt_payload := WriteSet (Direct \<lparr>cs_write_set = [],
        cs_events = [contract_event_new election_event_key (fst (bc_election (xc_bcs (ev_x env))) e)]\<rparr>)\<rparr>,
      st_authenticator = AuthMultiBLS ms\<rparr>"
  shows "\<exists>outs. vm_execute_block (ev_x env) (ev_conf env) (et_pos_state trees) False [txn] = Some (Inr outs) \<and>
    process_vm_outputs env [txn] outs trees pid False = None"
proof -
  let ?ev = "contract_event_new election_event_key (fst (bc_election (xc_bcs (ev_x env))) e)"
  have v: "vm_execute_block (ev_x env) (ev_conf env) (et_pos_state trees) False [txn] = Some (Inr [gen_output [?ev]])"
    by (simp add: assms(3) vm_execute_transaction_def check_signature_for_user_tx_def check_signature_def authenticator_verify_def
        map_err_def process_user_transaction_def)
  have "select_event env ?ev (None, et_pos_state trees) = None"
    using assms(1,2) by (simp add: select_event_def contract_event_new_def event_key_defs decode_def ok_or_def serde_ok_def
        run_pos_def pst_new_node_elected_def Let_def)
  then have "process_vm_outputs env [txn] [gen_output [?ev]] trees pid False = None"
    by (simp add: process_vm_outputs_def gen_output_def Let_def)
  then show ?thesis using v by blast
qed

theorem forged_election_panics_witness:
  "\<exists>txn outs. vm_execute_block ex_externals ex_conf ex_genesis False [txn] = Some (Inr outs) \<and>
     process_vm_outputs ex_env [txn] outs ex_trees 5 False = None"
proof -
  obtain node where "pst_node_map ex_genesis = the (initial_node_map ex_conf [(ex_node 1, 20), (ex_node 2, 30)] Map.empty)"
    using pos_state_new_fields(1) [OF ex_genesis_new(1)] by simp
  then have n: "pst_node_map (et_pos_state ex_trees) 107 = None"
    by (simp add: ex_trees_def ex_node_def new_lock_def node_lock_status_default_def add64_def U64_MAX_def)
  show ?thesis
    using forged_election_panics [of ex_env ex_trees "\<lparr>ee_node_id = ex_node 7, ee_vrf_output = 3, ee_start_term = 6\<rparr>" _
        "\<lparr>rt_sender = 1, rt_payload = Script [], rt_expiration_timestamp_secs = 0, rt_chain_id = 4\<rparr>" ex_single 5]
      n ex_codec_ok(4) by (simp add: ex_node_def ex_trees_def) blast
qed

end
