(* ===== verification/Commit_Props.thy ===== *)
theory Commit_Props
  imports Commit Executor_Props
begin

text \<open>
  The end of an epoch: which members of the committee are retired because they are silent, and what the
  rewards of the epoch are computed from.
\<close>

section \<open>Tables of counts\<close>

definition table :: "(address \<Rightarrow> 'v) \<Rightarrow> address list \<Rightarrow> (address, 'v) btree" where
  "table F ks = map (\<lambda>a. (a, F a)) ks"

lemma bt_insert_table:
  "sorted_wrt (<) ks \<Longrightarrow> a \<in> set ks \<Longrightarrow> bt_insert a c (table F ks) = table (F(a := c)) ks"
proof (induction ks)
  case (Cons k ks)
  then show ?case by (cases "a = k") (auto simp: table_def dest: less_asym)
qed simp

lemma map_of_table: "a \<in> set ks \<Longrightarrow> map_of (table F ks) a = Some (F a)"
  by (induction ks) (auto simp: table_def)

lemma modify_count_table:
  assumes "sorted_wrt (<) ks" and "a \<in> set ks" and "f (F a) = Some c"
  shows "modify_count f a (table F ks) = Some (table (F(a := c)) ks)"
  using assms by (simp add: modify_count_def map_of_table bt_insert_table)

section \<open>What a member has done\<close>

definition extra_of :: "validator_verifier \<Rightarrow> block \<Rightarrow> nat" where
  "extra_of vv b = (if block_signers b = [] then 0
     else sum_list (map (power_of vv) (block_signers b)) - vv_quorum_voting_power vv)"

definition counted :: "validator_verifier \<Rightarrow> block list \<Rightarrow> address \<Rightarrow> vote_count" where
  "counted vv bs a = \<lparr>
     vc_leader_count = length (filter (\<lambda>b. b_author b = Some a) bs),
     vc_included_vote_count = sum_list (map (extra_of vv) (filter (\<lambda>b. b_author b = Some a) bs)),
     vc_total_votes = 0,
     vc_vote_count = length (filter (\<lambda>b. a \<in> set (block_signers b)) bs) * power_of vv a\<rparr>"

text \<open>The author and the signers are members, and the signers are a quorum where there are any.\<close>

definition counted_block :: "validator_verifier \<Rightarrow> block \<Rightarrow> bool" where
  "counted_block vv b \<longleftrightarrow> (\<forall>a. b_author b = Some a \<longrightarrow> a \<in> validators vv) \<and> distinct (block_signers b) \<and>
     set (block_signers b) \<subseteq> validators vv \<and>
     (block_signers b = [] \<or> vv_quorum_voting_power vv \<le> sum_list (map (power_of vv) (block_signers b)))"

text \<open>A finite chain of blocks, from the last one of an epoch to the first, whose certificate has no signatures.\<close>

fun epoch_chain :: "(hash \<Rightarrow> string + block option) \<Rightarrow> hash \<Rightarrow> block list \<Rightarrow> bool" where
  "epoch_chain get i [] = False"
| "epoch_chain get i (b # bs) \<longleftrightarrow> get i = Inr (Some b) \<and>
     (if block_signers b = [] then bs = [] else epoch_chain get (b_parent_id b) bs)"

section \<open>Counting\<close>

lemma extra_loop:
  assumes "set xs \<subseteq> validators vv" and "acc + sum_list (map (power_of vv) xs) \<le> U64_MAX"
  shows "extra_vote_count_loop vv acc xs = Some (Inr (acc + sum_list (map (power_of vv) xs)))"
  using assms
proof (induction xs arbitrary: acc)
  case (Cons x xs)
  then show ?case by (simp add: get_voting_power_known add64_def add.assoc)
qed simp

lemma member_power:
  assumes "verifier_ok vv" and "a \<in> validators vv"
  shows "power_of vv a \<le> vv_total_voting_power vv"
  using power_le_total [OF assms(1), of "[a]"] assms(2) by simp

lemma signers_power:
  assumes "verifier_ok vv" and "counted_block vv b"
  shows "sum_list (map (power_of vv) (block_signers b)) \<le> vv_total_voting_power vv"
  using assms power_le_total [OF assms(1)] by (simp add: counted_block_def)

lemma count_leader_table:
  assumes ok: "verifier_ok vv" and b: "counted_block vv b" and ks: "sorted_wrt (<) ks" "set ks = validators vv"
    and F: "\<forall>a\<in>set ks. vc_leader_count (F a) < U32_MAX \<and> vc_included_vote_count (F a) + vv_total_voting_power vv \<le> U64_MAX"
  shows "count_leader vv b (table F ks) = Some (table (\<lambda>a. if b_author b = Some a
    then (F a)\<lparr>vc_leader_count := vc_leader_count (F a) + 1,
      vc_included_vote_count := vc_included_vote_count (F a) + extra_of vv b\<rparr> else F a) ks)"
proof (cases "b_author b")
  case (Some a)
  let ?c = "(F a)\<lparr>vc_leader_count := vc_leader_count (F a) + 1, vc_included_vote_count := vc_included_vote_count (F a) + extra_of vv b\<rparr>"
  have a: "a \<in> set ks" using b Some ks(2) by (simp add: counted_block_def)
  have t: "sum_list (map (power_of vv) (block_signers b)) \<le> vv_total_voting_power vv" using signers_power [OF ok b] .
  then have e: "extra_of vv b \<le> vv_total_voting_power vv" by (auto simp: extra_of_def)
  have F': "add_leader (extra_of vv b) (F a) = Some ?c"
    using F a e by (auto simp: add_leader_def add32_def add64_def)
  have "count_leader vv b (table F ks) = modify_count (add_leader (extra_of vv b)) a (table F ks)"
  proof (cases "block_signers b = []")
    case False
    have "vv_total_voting_power vv \<le> U64_MAX" using ok by (simp add: verifier_ok_def)
    then have "extra_vote_count vv (block_signers b) = Some (Inr (extra_of vv b))"
      using b t False extra_loop [of "block_signers b" vv 0]
      by (auto simp: extra_vote_count_def counted_block_def extra_of_def ok_or_def sub64_def)
    then show ?thesis using Some False by (simp add: count_leader_def)
  qed (simp add: count_leader_def Some extra_of_def)
  also have "\<dots> = Some (table (F(a := ?c)) ks)" using F' by (rule modify_count_table [where F = F, OF ks(1) a])
  also have "F(a := ?c) = (\<lambda>a. if b_author b = Some a then (F a)\<lparr>vc_leader_count := vc_leader_count (F a) + 1,
      vc_included_vote_count := vc_included_vote_count (F a) + extra_of vv b\<rparr> else F a)"
    using Some by (auto simp: fun_eq_iff)
  finally show ?thesis .
qed (simp add: count_leader_def)

lemma count_voters_table:
  assumes ks: "sorted_wrt (<) ks" "set ks = validators vv" and "distinct xs" and "set xs \<subseteq> validators vv"
    and "\<forall>a\<in>set xs. vc_vote_count (F a) + power_of vv a \<le> U64_MAX"
  shows "count_voters vv xs (table F ks) = Some (table (\<lambda>a. if a \<in> set xs
    then (F a)\<lparr>vc_vote_count := vc_vote_count (F a) + power_of vv a\<rparr> else F a) ks)"
  using assms(3-5)
proof (induction xs arbitrary: F)
  case (Cons x xs)
  let ?F = "F(x := (F x)\<lparr>vc_vote_count := vc_vote_count (F x) + power_of vv x\<rparr>)"
  have "add_vote vv x (F x) = Some ((F x)\<lparr>vc_vote_count := vc_vote_count (F x) + power_of vv x\<rparr>)"
    using Cons.prems by (simp add: add_vote_def get_voting_power_known add64_def)
  then have 1: "modify_count (add_vote vv x) x (table F ks) = Some (table ?F ks)"
    using Cons.prems ks by (intro modify_count_table) auto
  have 2: "count_voters vv xs (table ?F ks) = Some (table (\<lambda>a. if a \<in> set xs
      then (?F a)\<lparr>vc_vote_count := vc_vote_count (?F a) + power_of vv a\<rparr> else ?F a) ks)"
    using Cons.prems by (intro Cons.IH) auto
  have 3: "(\<lambda>a. if a \<in> set xs then (?F a)\<lparr>vc_vote_count := vc_vote_count (?F a) + power_of vv a\<rparr> else ?F a) =
      (\<lambda>a. if a \<in> set (x # xs) then (F a)\<lparr>vc_vote_count := vc_vote_count (F a) + power_of vv a\<rparr> else F a)"
    using Cons.prems(1) by (auto simp: fun_eq_iff)
  show ?case using 2 unfolding count_voters.simps 1 3 by (simp only: Option.bind.simps)
qed simp

lemma counted_snoc:
  "counted vv (bs @ [b]) a =
     (let c = counted vv bs a;
          c = (if b_author b = Some a then c\<lparr>vc_leader_count := vc_leader_count c + 1,
            vc_included_vote_count := vc_included_vote_count c + extra_of vv b\<rparr> else c) in
      if a \<in> set (block_signers b) then c\<lparr>vc_vote_count := vc_vote_count c + power_of vv a\<rparr> else c)"
  by (simp add: counted_def Let_def)

text \<open>The counters stay within their widths.\<close>

lemma counted_bounds:
  assumes ok: "verifier_ok vv" and a: "a \<in> validators vv" and bs: "\<forall>b\<in>set bs. counted_block vv b"
  shows "vc_leader_count (counted vv bs a) \<le> length bs"
    and "vc_included_vote_count (counted vv bs a) \<le> length bs * vv_total_voting_power vv"
    and "vc_vote_count (counted vv bs a) \<le> length bs * vv_total_voting_power vv"
proof -
  let ?f = "filter (\<lambda>b. b_author b = Some a) bs"
  show "vc_leader_count (counted vv bs a) \<le> length bs" by (simp add: counted_def)
  have "extra_of vv b \<le> vv_total_voting_power vv" if "b \<in> set ?f" for b
    using signers_power [OF ok, of b] bs that by (auto simp: extra_of_def)
  then have "sum_list (map (extra_of vv) ?f) \<le> length ?f * vv_total_voting_power vv"
    using sum_list_mono [of ?f "extra_of vv" "\<lambda>_. vv_total_voting_power vv"] by (simp add: sum_list_triv)
  also have "\<dots> \<le> length bs * vv_total_voting_power vv" by simp
  finally show "vc_included_vote_count (counted vv bs a) \<le> length bs * vv_total_voting_power vv" by (simp add: counted_def)
  show "vc_vote_count (counted vv bs a) \<le> length bs * vv_total_voting_power vv"
    using member_power [OF ok a] by (simp add: counted_def mult_le_mono)
qed

lemma count_block_table:
  assumes ok: "verifier_ok vv" and ks: "sorted_wrt (<) ks" "set ks = validators vv"
    and bs: "\<forall>b\<in>set (bs @ [b]). counted_block vv b"
    and n: "length (bs @ [b]) \<le> U32_MAX" "length (bs @ [b]) * vv_total_voting_power vv \<le> U64_MAX"
  shows "\<exists>m. count_leader vv b (table (counted vv bs) ks) = Some m \<and>
    count_voters vv (block_signers b) m = Some (table (counted vv (bs @ [b])) ks)"
proof -
  let ?F = "\<lambda>a. if b_author b = Some a then (counted vv bs a)\<lparr>vc_leader_count := vc_leader_count (counted vv bs a) + 1,
    vc_included_vote_count := vc_included_vote_count (counted vv bs a) + extra_of vv b\<rparr> else counted vv bs a"
  have bd: "vc_leader_count (counted vv bs a) < U32_MAX" "vc_included_vote_count (counted vv bs a) + vv_total_voting_power vv \<le> U64_MAX"
      "vc_vote_count (counted vv bs a) + power_of vv a \<le> U64_MAX" if "a \<in> validators vv" for a
    using counted_bounds [OF ok that, of bs] bs n member_power [OF ok that] by auto
  have 1: "count_leader vv b (table (counted vv bs) ks) = Some (table ?F ks)"
    using bs bd ks(2) by (intro count_leader_table [OF ok _ ks]) auto
  have 2: "count_voters vv (block_signers b) (table ?F ks) = Some (table (\<lambda>a. if a \<in> set (block_signers b)
      then (?F a)\<lparr>vc_vote_count := vc_vote_count (?F a) + power_of vv a\<rparr> else ?F a) ks)"
    using bs bd by (intro count_voters_table [OF ks]) (auto simp: counted_block_def)
  have 3: "(\<lambda>a. if a \<in> set (block_signers b) then (?F a)\<lparr>vc_vote_count := vc_vote_count (?F a) + power_of vv a\<rparr> else ?F a) =
      counted vv (bs @ [b])"
    by (rule ext) (simp add: counted_snoc Let_def)
  show ?thesis using 1 2 unfolding 3 by blast
qed

lemma count_votes_chain:
  assumes ok: "verifier_ok vv" and ks: "sorted_wrt (<) ks" "set ks = validators vv"
    and "epoch_chain get i bs" and "\<forall>b\<in>set (pre @ bs). counted_block vv b"
    and "length (pre @ bs) \<le> U32_MAX" and "length (pre @ bs) * vv_total_voting_power vv \<le> U64_MAX"
  shows "count_votes get vv i (table (counted vv pre) ks) = Some (Inr (table (counted vv (pre @ bs)) ks))"
  using assms(4-7)
proof (induction bs arbitrary: i pre)
  case (Cons b bs)
  have "length (pre @ [b]) * vv_total_voting_power vv \<le> length (pre @ b # bs) * vv_total_voting_power vv"
    by (intro mult_le_mono1) simp
  then have l: "length (pre @ [b]) * vv_total_voting_power vv \<le> U64_MAX" using Cons.prems(4) by (rule le_trans)
  obtain m where m: "count_leader vv b (table (counted vv pre) ks) = Some m"
      "count_voters vv (block_signers b) m = Some (table (counted vv (pre @ [b])) ks)"
    using count_block_table [OF ok ks _ _ l] Cons.prems(2,3) by auto
  have g: "get i = Inr (Some b)" using Cons.prems(1) by simp
  show ?case
  proof (cases "block_signers b = []")
    case True
    then show ?thesis using g m Cons.prems(1) by (subst count_votes.simps) simp
  next
    case False
    have "count_votes get vv (b_parent_id b) (table (counted vv (pre @ [b])) ks) = Some (Inr (table (counted vv ((pre @ [b]) @ bs)) ks))"
      using Cons.prems False by (intro Cons.IH) auto
    then show ?thesis using g m False by (subst count_votes.simps) simp
  qed
qed simp

section \<open>Retiring the silent members\<close>

lemma remove_voters_chain:
  "epoch_chain get i bs \<Longrightarrow> remove_voters get i xs = Some (Inr (filter (\<lambda>a. \<forall>b\<in>set bs. a \<notin> set (block_signers b)) xs))"
proof (induction bs arbitrary: i xs)
  case (Cons b bs)
  show ?case
  proof (cases "block_signers b = []")
    case False
    then show ?thesis using Cons.prems Cons.IH [of "b_parent_id b"]
      by (subst remove_voters.simps) (simp add: conj_commute)
  qed (use Cons.prems in \<open>subst remove_voters.simps; simp\<close>)
qed simp

lemma remove_epochs_chains:
  "list_all2 (\<lambda>li bs. epoch_chain get (bi_id (li_commit_info (lis_ledger_info li))) bs) lis bss \<Longrightarrow>
     remove_epochs get lis xs = Some (Inr (filter (\<lambda>a. \<forall>b\<in>set (concat bss). a \<notin> set (block_signers b)) xs))"
proof (induction lis bss arbitrary: xs rule: list_all2_induct)
  case (Cons li lis bs bss)
  then show ?case by (simp add: remove_voters_chain ball_Un conj_commute)
qed simp

lemma force_retire_nodes_ok:
  assumes c: "chain_ok conf C V B S0" and "pos_reach vn conf V B S0 S m" and "set xs \<subseteq> dom (pst_node_map S)"
  shows "\<exists>S'. force_retire_nodes conf xs S = Some (Inr S') \<and> pos_reach vn conf V B S0 S' m"
  using assms(2,3)
proof (induction xs arbitrary: S)
  case (Cons x xs)
  obtain S1 where s: "pos_step vn conf (DoForceRetire x) S = Some S1" "pos_reach vn conf V B S0 S1 m"
    using chain_step [OF c Cons.prems(1), of "DoForceRetire x"] chain_inv(2) [OF c Cons.prems(1)] by auto
  then obtain r where r: "force_retire_node conf x S = Some (S1, r)" by auto
  then have "r = Inr ()" using Cons.prems(2)
    by (auto simp: force_retire_node_def on_lock_status_def option_bind_simps split: option.splits)
  moreover have "set xs \<subseteq> dom (pst_node_map S1)"
    using Cons.prems(2) on_lock_status_same [OF r [unfolded force_retire_node_def]] by (auto simp: same_term_def)
  ultimately show ?case using Cons.IH [OF s(2)] r by (simp add: run_pos_eq)
qed simp

lemma ordered_members:
  assumes "verifier_ok vv"
  shows "sorted_wrt (<) (get_ordered_account_addresses vv)" and "set (get_ordered_account_addresses vv) = validators vv"
  using assms by (auto simp: verifier_ok_def bt_ok_def get_ordered_account_addresses_def validators_def)

lemma initial_counts: "map (\<lambda>node. (node, vote_count_default)) ks = table (counted vv []) ks"
  by (simp add: table_def counted_def vote_count_default_def)

lemma silent_table:
  assumes "\<forall>a\<in>set ks. 0 < power_of vv a"
  shows "map fst (filter (\<lambda>(node, c). vc_vote_count c = 0) (table (counted vv bs) ks)) =
    filter (\<lambda>a. \<forall>b\<in>set bs. a \<notin> set (block_signers b)) ks"
  using assms by (induction ks) (auto simp: table_def counted_def filter_empty_conv)

text \<open>The record of a member in the reward event.\<close>

definition reward_record :: "validator_verifier \<Rightarrow> block list \<Rightarrow> address \<Rightarrow> vote_count" where
  "reward_record vv bs a = (counted vv bs a)\<lparr>vc_total_votes :=
     (if \<forall>b\<in>set bs. a \<notin> set (block_signers b) then 0 else power_of vv a)\<rparr>"

lemma total_votes_table:
  assumes "\<forall>a\<in>set ks. 0 < power_of vv a" and "set ks \<subseteq> validators vv"
  shows "map (set_total_votes vv) (table (counted vv bs) ks) = table (reward_record vv bs) ks"
  using assms
  by (induction ks) (auto simp: table_def set_total_votes_def reward_record_def counted_def get_voting_power_known filter_empty_conv)

text \<open>A member without a vote in the epoch gets no points, however many blocks it led.\<close>

lemma silent_member_unrewarded:
  assumes "\<forall>b\<in>set bs. a \<notin> set (block_signers b)"
  shows "reward_points conf view (reward_record vv bs a) = Some 0"
  using assms by (simp add: reward_points_def reward_record_def counted_def filter_empty_conv)

text \<open>
  C16. The end of an epoch retires exactly the silent members: when the blocks of the epoch and of the epochs checked
  with it form finite chains back to their first blocks, counting the votes returns, the members of the committee
  that are retired are those that signed no certificate of any of these blocks, and the state stays one the
  chain reaches. The reward event has, for every member, the blocks it led, the votes above the quorum it
  included, and its power for every certificate of the epoch it signed.
\<close>

theorem silent_members_retired:
  assumes "verifier_ok vv" and "\<forall>a\<in>validators vv. 0 < power_of vv a" and "\<forall>b\<in>set bs. counted_block vv b"
    and "epoch_chain (ld_get_ledger_block db) (bi_id (li_commit_info li)) bs"
    and "length bs \<le> U32_MAX" and "length bs * vv_total_voting_power vv \<le> U64_MAX" and "li_epoch li < U64_MAX"
    and "ld_get_epoch_ending_ledger_infos db
      (li_epoch li - force_retire_check_epoch_count (ev_conf env) (pst_current_view S) + 1) (li_epoch li) = Inr lis"
    and "list_all2 (\<lambda>l bs. epoch_chain (ld_get_ledger_block db) (bi_id (li_commit_info (lis_ledger_info l))) bs) lis bss"
    and "chain_ok (ev_conf env) C V B S0" and "pos_reach vn (ev_conf env) V B S0 S m" and "validators vv \<subseteq> dom (pst_node_map S)"
  shows "\<exists>retired S' reward. set retired = {a \<in> validators vv. \<forall>b\<in>set (bs @ concat bss). a \<notin> set (block_signers b)} \<and>
    force_retire_nodes (ev_conf env) retired S = Some (Inr S') \<and> pos_reach vn (ev_conf env) V B S0 (fst (next_evicted_term S')) m \<and>
    end_epoch db env li vv S = Some (Inr (fst (next_evicted_term S'), reward)) \<and>
    rd_elected reward = table (reward_record vv bs) (get_ordered_account_addresses vv)"
proof -
  let ?ks = "get_ordered_account_addresses vv" and ?conf = "ev_conf env" and ?get = "ld_get_ledger_block db"
  note ks = ordered_members [OF assms(1)]
  let ?silent = "filter (\<lambda>a. \<forall>b\<in>set bs. a \<notin> set (block_signers b)) ?ks"
  let ?retired = "filter (\<lambda>a. \<forall>b\<in>set (concat bss). a \<notin> set (block_signers b)) ?silent"
  have cv: "count_votes ?get vv (bi_id (li_commit_info li)) (map (\<lambda>node. (node, vote_count_default)) ?ks) =
      Some (Inr (table (counted vv bs) ?ks))"
    unfolding initial_counts [of ?ks vv] using count_votes_chain [OF assms(1) ks assms(4), of "[]"] assms(3,5,6) by simp
  have sub: "set ?retired \<subseteq> dom (pst_node_map S)" unfolding set_filter ks(2) using assms(12) by blast
  obtain S' where s: "force_retire_nodes ?conf ?retired S = Some (Inr S')" "pos_reach vn ?conf V B S0 S' m"
    using force_retire_nodes_ok [OF assms(10,11) sub] by blast
  let ?r = "\<lparr>rd_candidates = snd (next_evicted_term S'), rd_elected = table (reward_record vv bs) ?ks,
    rd_view = pst_current_view (fst (next_evicted_term S'))\<rparr>"
  have p: "\<forall>a\<in>set ?ks. 0 < power_of vv a" using assms(2) ks(2) by simp
  have "add64 (li_epoch li - force_retire_check_epoch_count ?conf (pst_current_view S)) 1 =
      Some (li_epoch li - force_retire_check_epoch_count ?conf (pst_current_view S) + 1)"
    using assms(7) by (simp add: add64_def)
  then have st: "(if ?silent = [] then Some (Inr S) else do {
      start_epoch \<leftarrow> add64 (li_epoch li - force_retire_check_epoch_count ?conf (pst_current_view S)) 1;
      try_opt (Some (ld_get_epoch_ending_ledger_infos db start_epoch (li_epoch li))) (\<lambda>ledger_infos.
      try_opt (remove_epochs ?get ledger_infos ?silent) (\<lambda>force_retired. force_retire_nodes ?conf force_retired S)) }) = Some (Inr S')"
    using s(1) assms(8) remove_epochs_chains [OF assms(9), of ?silent] by (cases "?silent = []") simp_all
  have "end_epoch db env li vv S = Some (Inr (fst (next_evicted_term S'), ?r))"
    unfolding end_epoch_def cv Let_def try_opt_simps silent_table [OF p] st
    using total_votes_table [OF p] ks(2) by (simp add: split_def)
  moreover have "pos_reach vn ?conf V B S0 (fst (next_evicted_term S')) m"
    using reach_step [OF s(2), of DoEvict] chain_inv(2) [OF assms(10) s(2)] by simp
  moreover have "set ?retired = {a \<in> validators vv. \<forall>b\<in>set (bs @ concat bss). a \<notin> set (block_signers b)}"
    using ks(2) by auto
  ultimately show ?thesis using s(1) by (intro exI [of _ ?retired] exI [of _ S'] exI [of _ ?r]) simp
qed

text \<open>An epoch of two blocks: the second one has a certificate signed by the first of two members.\<close>

definition ex_pair_vv :: validator_verifier where
  "ex_pair_vv = \<lparr>vv_address_to_validator_info =
      [(101, \<lparr>vi_public_key = 1, vi_vrf_public_key = None, vi_voting_power = 5\<rparr>),
       (102, \<lparr>vi_public_key = 2, vi_vrf_public_key = None, vi_voting_power = 1\<rparr>)],
    vv_quorum_voting_power = 5, vv_total_voting_power = 6\<rparr>"

definition ex_qc :: "hash \<Rightarrow> (address, signature) btree \<Rightarrow> quorum_cert" where
  "ex_qc i sigs = \<lparr>qc_vote_data = \<lparr>vd_proposed = block_info_empty\<lparr>bi_id := i\<rparr>, vd_parent = block_info_empty\<rparr>,
     qc_signed_ledger_info = \<lparr>lis_ledger_info = ex_commit i, lis_signatures = sigs\<rparr>\<rparr>"

definition ex_block1 :: block where "ex_block1 = block_new_nil ex_cr 1 (ex_qc 0 [])"
definition ex_block2 :: block where "ex_block2 = block_new_nil ex_cr 2 (ex_qc 1 [(101, 7)])"

definition ex_db :: ledger_store where
  "ex_db = \<lparr>ld_get_ledger_block = (\<lambda>i. Inr (if i = 1 then Some ex_block1 else if i = 2 then Some ex_block2 else None)),
     ld_get_qc_for_block = (\<lambda>i. Inr None), ld_get_epoch_ending_ledger_infos = (\<lambda>a b. Inr []), ld_write = (\<lambda>w. Inr ())\<rparr>"

lemma ex_block_simps [simp]:
  "block_signers ex_block1 = []" "block_signers ex_block2 = [101]" "b_author ex_block1 = None" "b_author ex_block2 = None"
  "b_parent_id ex_block2 = 1"
  by (simp_all add: block_signers_def ex_block1_def ex_block2_def block_new_nil_def block_data_new_nil_def ex_qc_def
      b_quorum_cert_def b_author_def bd_author_def b_parent_id_def certified_block_def Let_def)

lemma ex_pair_simps [simp]: "validators ex_pair_vv = {101, 102}" "power_of ex_pair_vv 101 = 5" "power_of ex_pair_vv 102 = 1"
  by (auto simp: validators_def ex_pair_vv_def power_of_def get_voting_power_def)

lemma ex_pair_ok: "verifier_ok ex_pair_vv"
  by (simp add: verifier_ok_def ex_pair_vv_def bt_ok_def U64_MAX_def)

theorem silent_members_retired_witness:
  "\<exists>retired S' reward. set retired = {102} \<and> force_retire_nodes ex_conf retired ex_genesis = Some (Inr S') \<and>
     end_epoch ex_db ex_env (ex_commit 2) ex_pair_vv ex_genesis = Some (Inr (fst (next_evicted_term S'), reward))"
proof -
  have "pst_node_map ex_genesis = the (initial_node_map ex_conf [(ex_node 1, 20), (ex_node 2, 30)] Map.empty)"
    using pos_state_new_fields(1) [OF ex_genesis_new(1)] by simp
  then have d: "validators ex_pair_vv \<subseteq> dom (pst_node_map ex_genesis)"
    by (simp add: ex_node_def new_lock_def node_lock_status_default_def add64_def U64_MAX_def)
  have ch: "epoch_chain (ld_get_ledger_block ex_db) (bi_id (li_commit_info (ex_commit 2))) [ex_block2, ex_block1]"
    by (simp add: ex_db_def ex_commit_def)
  have cb: "\<forall>b\<in>set [ex_block2, ex_block1]. counted_block ex_pair_vv b"
    by (simp add: counted_block_def) (simp add: ex_pair_vv_def)
  have t: "vv_total_voting_power ex_pair_vv = 6" "li_epoch (ex_commit 2) = 0"
    by (simp_all add: ex_pair_vv_def li_epoch_def ex_commit_def block_info_empty_def)
  have "{a \<in> validators ex_pair_vv. \<forall>b\<in>set ([ex_block2, ex_block1] @ concat []). a \<notin> set (block_signers b)} = {102}" by auto
  then show ?thesis
    using silent_members_retired [OF ex_pair_ok _ cb ch, where env = ex_env and S = ex_genesis and lis = "[]" and bss = "[]", OF _ _ _ _ _ _ _ reach_init d]
      ex_chain_ok t by (force simp: ex_db_def U32_MAX_def U64_MAX_def)
qed

end
