(* ===== verification/Pending_Votes.thy ===== *)
theory Pending_Votes
  imports Consensus_Blocks
begin

text \<open>
  The votes of one round (\<^verbatim>\<open>cfxcore/core/src/pos/consensus/pending_votes.rs\<close>): they are collected per
  ledger info until a quorum certificate can be formed, and per author until a timeout certificate can be
  formed. The digest of a ledger info is the function \<open>hash_li\<close>, an argument; the order in which a
  \<^verbatim>\<open>HashMap\<close> enumerates its values is not specified and is the argument \<open>values\<close>.
  The invariant below is that of a collection into which only verified votes have been inserted.
\<close>

section \<open>The collection\<close>

datatype vote_reception_result =
  VoteAdded nat
| DuplicateVote
| EquivocateVote vote vote
| NewQuorumCertificate quorum_cert
| NewTimeoutCertificate timeout_certificate
| ErrorAddingVote verify_error
| UnexpectedRound round round

record pending_votes =
  pv_li_digest_to_votes :: "hash \<rightharpoonup> ledger_info_with_signatures"
  pv_maybe_partial_tc :: "timeout_certificate option"
  pv_author_to_vote :: "address \<rightharpoonup> vote"

definition pending_votes_new :: pending_votes where
  "pending_votes_new = \<lparr>pv_li_digest_to_votes = Map.empty, pv_maybe_partial_tc = None, pv_author_to_vote = Map.empty\<rparr>"

text \<open>A vote of an author that is new: no vote of the author, or the same vote with a first timeout signature.\<close>

definition vote_received :: "(ledger_info \<Rightarrow> hash) \<Rightarrow> pending_votes \<Rightarrow> vote \<Rightarrow> bool" where
  "vote_received hash_li self vote =
     (case pv_author_to_vote self (vote_author vote) of
        Some previously_seen_vote \<Rightarrow>
          hash_li (vote_ledger_info vote) = hash_li (vote_ledger_info previously_seen_vote) \<and>
          \<not> (is_timeout vote \<and> \<not> is_timeout previously_seen_vote)
      | None \<Rightarrow> False)"

text \<open>The votes for a digest, with the signature of a further vote.\<close>

definition add_to_digest :: "(ledger_info \<Rightarrow> hash) \<Rightarrow> pending_votes \<Rightarrow> vote \<Rightarrow> ledger_info_with_signatures" where
  "add_to_digest hash_li self vote =
     lis_add_signature
       (case pv_li_digest_to_votes self (hash_li (vote_ledger_info vote)) of
          Some li_with_sig \<Rightarrow> li_with_sig
        | None \<Rightarrow> \<lparr>lis_ledger_info = vote_ledger_info vote, lis_signatures = []\<rparr>)
       (vote_author vote) (vote_signature vote)"

text \<open>The timeout certificate under construction, with a further timeout signature.\<close>

definition add_to_tc :: "pending_votes \<Rightarrow> vote \<Rightarrow> signature \<Rightarrow> timeout_certificate" where
  "add_to_tc self vote timeout_signature =
     tc_add_signature (case pv_maybe_partial_tc self of Some tc \<Rightarrow> tc | None \<Rightarrow> tc_new (vote_timeout vote))
       (vote_author vote) timeout_signature"

text \<open>Steps 4 and 5 of \<^verbatim>\<open>insert_vote\<close>: there is no quorum certificate yet.\<close>

definition insert_timeout_vote ::
  "pending_votes \<Rightarrow> vote \<Rightarrow> validator_verifier \<Rightarrow> nat \<Rightarrow> (pending_votes \<times> vote_reception_result) option" where
  "insert_timeout_vote self vote validator_verifier voting_power =
     (case vote_timeout_signature vote of
        None \<Rightarrow> Some (self, VoteAdded voting_power)
      | Some timeout_signature \<Rightarrow>
          let partial_tc = add_to_tc self vote timeout_signature;
              self = self\<lparr>pv_maybe_partial_tc := Some partial_tc\<rparr> in
          (case check_voting_power validator_verifier (map fst (tc_signatures partial_tc)) of
             None \<Rightarrow> None
           | Some (Inr _) \<Rightarrow> Some (self, NewTimeoutCertificate partial_tc)
           | Some (Inl (TooLittleVotingPower _ _)) \<Rightarrow> Some (self, VoteAdded voting_power)
           | Some (Inl error) \<Rightarrow> Some (self, ErrorAddingVote error)))"

text \<open>Steps 2 to 5: a vote that is neither a duplicate nor equivocates.\<close>

definition insert_new_vote ::
  "(ledger_info \<Rightarrow> hash) \<Rightarrow> pending_votes \<Rightarrow> vote \<Rightarrow> validator_verifier \<Rightarrow>
     (pending_votes \<times> vote_reception_result) option" where
  "insert_new_vote hash_li self vote validator_verifier =
     (let li_with_sig = add_to_digest hash_li self vote;
          self = self\<lparr>pv_author_to_vote := (pv_author_to_vote self)(vote_author vote \<mapsto> vote),
            pv_li_digest_to_votes := (pv_li_digest_to_votes self)(hash_li (vote_ledger_info vote) \<mapsto> li_with_sig)\<rparr> in
      case check_voting_power validator_verifier (map fst (lis_signatures li_with_sig)) of
        None \<Rightarrow> None
      | Some (Inr _) \<Rightarrow> Some (self, NewQuorumCertificate
          \<lparr>qc_vote_data = vote_vote_data vote, qc_signed_ledger_info = li_with_sig\<rparr>)
      | Some (Inl (TooLittleVotingPower voting_power _)) \<Rightarrow> insert_timeout_vote self vote validator_verifier voting_power
      | Some (Inl error) \<Rightarrow> Some (self, ErrorAddingVote error))"

definition insert_vote ::
  "(ledger_info \<Rightarrow> hash) \<Rightarrow> pending_votes \<Rightarrow> vote \<Rightarrow> validator_verifier \<Rightarrow>
     (pending_votes \<times> vote_reception_result) option" where
  "insert_vote hash_li self vote validator_verifier =
     (case pv_author_to_vote self (vote_author vote) of
        Some previously_seen_vote \<Rightarrow>
          if hash_li (vote_ledger_info vote) = hash_li (vote_ledger_info previously_seen_vote)
          then if \<not> (is_timeout vote \<and> \<not> is_timeout previously_seen_vote) then Some (self, DuplicateVote)
               else insert_new_vote hash_li self vote validator_verifier
          else Some (self, EquivocateVote vote previously_seen_vote)
      | None \<Rightarrow> insert_new_vote hash_li self vote validator_verifier)"

text \<open>
  The certificate of the round, asked for at the end of the round. The first ledger info with enough voting
  power is taken; \<^verbatim>\<open>is_ok\<close> treats every error alike.
\<close>

fun find_quorum ::
  "pending_votes \<Rightarrow> validator_verifier \<Rightarrow> ledger_info_with_signatures list \<Rightarrow> vote_reception_result option option" where
  "find_quorum self validator_verifier [] = Some None"
| "find_quorum self validator_verifier (ledger_info # rest) =
     (case check_voting_power validator_verifier (map fst (lis_signatures ledger_info)) of
        None \<Rightarrow> None
      | Some (Inl _) \<Rightarrow> find_quorum self validator_verifier rest
      | Some (Inr _) \<Rightarrow>
          (case lis_signatures ledger_info of
             [] \<Rightarrow> None
           | (author, _) # _ \<Rightarrow>
               do { vote \<leftarrow> pv_author_to_vote self author;
                    Some (Some (NewQuorumCertificate
                      \<lparr>qc_vote_data = vote_vote_data vote, qc_signed_ledger_info = ledger_info\<rparr>)) }))"

definition get_certificate ::
  "((hash \<rightharpoonup> ledger_info_with_signatures) \<Rightarrow> ledger_info_with_signatures list) \<Rightarrow> pending_votes \<Rightarrow> validator_verifier \<Rightarrow>
     vote_reception_result option" where
  "get_certificate values self validator_verifier =
     do { found \<leftarrow> find_quorum self validator_verifier (values (pv_li_digest_to_votes self));
          case found of
            Some result \<Rightarrow> Some result
          | None \<Rightarrow>
              (case pv_maybe_partial_tc self of
                 None \<Rightarrow> Some DuplicateVote
               | Some partial_tc \<Rightarrow>
                   do { checked \<leftarrow> check_voting_power validator_verifier (map fst (tc_signatures partial_tc));
                        Some (case checked of
                            Inr _ \<Rightarrow> NewTimeoutCertificate partial_tc
                          | Inl _ \<Rightarrow> DuplicateVote) }) }"

section \<open>Collections of verified votes\<close>

text \<open>A verified vote for the round \<open>t\<close> (an epoch and a round).\<close>

definition verified_vote :: "crypto \<Rightarrow> validator_verifier \<Rightarrow> timeout \<Rightarrow> vote \<Rightarrow> bool" where
  "verified_vote cr vv t v \<longleftrightarrow> vote_verify cr v vv = Inr () \<and> vote_timeout v = t"

definition signatures_valid :: "crypto \<Rightarrow> validator_verifier \<Rightarrow> signed_message \<Rightarrow> (address, signature) btree \<Rightarrow> bool" where
  "signatures_valid cr vv m sigs \<longleftrightarrow> bt_ok sigs \<and> sigs \<noteq> [] \<and>
     (\<forall>(a, sig)\<in>set sigs. \<exists>pk. get_public_key vv a = Some pk \<and> cr_verify cr pk m sig)"

abbreviation signers :: "(address, signature) btree \<Rightarrow> address set" where
  "signers sigs \<equiv> fst ` set sigs"

definition digest_ok ::
  "crypto \<Rightarrow> (ledger_info \<Rightarrow> hash) \<Rightarrow> validator_verifier \<Rightarrow> pending_votes \<Rightarrow> hash \<Rightarrow> ledger_info_with_signatures \<Rightarrow> bool" where
  "digest_ok cr hash_li vv pv d lis \<longleftrightarrow>
     signatures_valid cr vv (MLedgerInfo (lis_ledger_info lis)) (lis_signatures lis) \<and>
     hash_li (lis_ledger_info lis) = d \<and>
     (\<forall>a\<in>signers (lis_signatures lis). \<exists>v. pv_author_to_vote pv a = Some v \<and> vote_ledger_info v = lis_ledger_info lis)"

definition author_ok ::
  "crypto \<Rightarrow> (ledger_info \<Rightarrow> hash) \<Rightarrow> ledger_info set \<Rightarrow> validator_verifier \<Rightarrow> timeout \<Rightarrow> pending_votes \<Rightarrow> address \<Rightarrow> vote \<Rightarrow> bool" where
  "author_ok cr hash_li L vv t pv a v \<longleftrightarrow>
     vote_author v = a \<and> verified_vote cr vv t v \<and> vote_ledger_info v \<in> L \<and>
     (\<exists>lis. pv_li_digest_to_votes pv (hash_li (vote_ledger_info v)) = Some lis \<and> a \<in> signers (lis_signatures lis))"

definition pending_ok ::
  "crypto \<Rightarrow> (ledger_info \<Rightarrow> hash) \<Rightarrow> ledger_info set \<Rightarrow> validator_verifier \<Rightarrow> timeout \<Rightarrow> pending_votes \<Rightarrow> bool" where
  "pending_ok cr hash_li L vv t pv \<longleftrightarrow> finite (dom (pv_li_digest_to_votes pv)) \<and>
     (\<forall>d lis. pv_li_digest_to_votes pv d = Some lis \<longrightarrow> digest_ok cr hash_li vv pv d lis) \<and>
     (\<forall>tc. pv_maybe_partial_tc pv = Some tc \<longrightarrow>
        tc_timeout tc = t \<and> signatures_valid cr vv (MTimeout t) (tc_signatures tc)) \<and>
     (\<forall>a v. pv_author_to_vote pv a = Some v \<longrightarrow> author_ok cr hash_li L vv t pv a v)"

lemma pending_ok_new [simp]: "pending_ok cr hash_li L vv t pending_votes_new"
  by (simp add: pending_ok_def pending_votes_new_def)

lemma pending_okD:
  assumes "pending_ok cr hash_li L vv t pv"
  shows "pv_li_digest_to_votes pv d = Some lis \<Longrightarrow> digest_ok cr hash_li vv pv d lis"
    and "pv_maybe_partial_tc pv = Some tc \<Longrightarrow> tc_timeout tc = t \<and> signatures_valid cr vv (MTimeout t) (tc_signatures tc)"
    and "pv_author_to_vote pv a = Some v \<Longrightarrow> author_ok cr hash_li L vv t pv a v"
  using assms by (simp_all add: pending_ok_def)

lemma vote_verify_iff:
  "vote_verify cr v vv = Inr () \<longleftrightarrow>
     li_consensus_data_hash (vote_ledger_info v) = cr_hash_vote_data cr (vote_vote_data v) \<and>
     (\<exists>pk. get_public_key vv (vote_author v) = Some pk \<and> cr_verify cr pk (MLedgerInfo (vote_ledger_info v)) (vote_signature v) \<and>
        (\<forall>sig. vote_timeout_signature v = Some sig \<longrightarrow> cr_verify cr pk (MTimeout (vote_timeout v)) sig)) \<and>
     vote_data_verify (vote_vote_data v) = Inr ()"
  by (auto simp: vote_verify_def result_simps vv_verify_iff split: option.splits)

lemma signatures_valid_insert:
  assumes "signatures_valid cr vv m sigs \<or> sigs = []" and "get_public_key vv a = Some pk" and "cr_verify cr pk m sig"
  shows "signatures_valid cr vv m (bt_or_insert a sig sigs)"
proof -
  have ok: "bt_ok sigs"
    using assms(1) by (auto simp: signatures_valid_def)
  have "bt_or_insert a sig sigs \<noteq> []"
    using bt_keys_or_insert [of a sig sigs] by auto
  moreover have "\<exists>pk. get_public_key vv b = Some pk \<and> cr_verify cr pk m sg"
    if "(b, sg) \<in> set (bt_or_insert a sig sigs)" for b sg
  proof -
    have "map_of (bt_or_insert a sig sigs) b = Some sg"
      using that ok by (intro map_of_is_SomeI bt_ok_distinct bt_ok_or_insert)
    then have "map_of sigs b = Some sg \<or> b = a \<and> sg = sig"
      by (auto simp: bt_simps split: if_splits option.splits)
    then show ?thesis
      using assms by (auto simp: signatures_valid_def dest: map_of_SomeD)
  qed
  ultimately show ?thesis
    using ok by (auto simp: signatures_valid_def bt_simps)
qed

lemma signatures_valid_known:
  "signatures_valid cr vv m sigs \<Longrightarrow> signers sigs \<subseteq> validators vv"
  by (auto simp: signatures_valid_def get_public_key_known)

lemma check_signers:
  assumes "verifier_ok vv" and "signatures_valid cr vv m sigs"
  shows "check_voting_power vv (map fst sigs) = Some
    (if sum (power_of vv) (signers sigs) < vv_quorum_voting_power vv
     then Inl (TooLittleVotingPower (sum (power_of vv) (signers sigs)) (vv_quorum_voting_power vv)) else Inr ())"
proof -
  have "distinct (map fst sigs)"
    using assms(2) by (simp add: signatures_valid_def bt_ok_distinct)
  then show ?thesis
    using check_voting_power_eq [OF assms(1)] signatures_valid_known [OF assms(2)]
    by (simp add: sum_list_distinct_conv_sum_set flip: map_map)
qed

lemma signatures_valid_quorum:
  assumes "signatures_valid cr vv m sigs" and "vv_quorum_voting_power vv \<le> sum (power_of vv) (signers sigs)"
  shows "signed_by_quorum cr vv m sigs"
  using assms by (simp add: signatures_valid_def signed_by_quorum_def)

section \<open>Inserting a vote\<close>

text \<open>The digest of the ledger infos \<open>L\<close> that are voted for has no collisions.\<close>

lemma digest_ledger_info:
  assumes "pending_ok cr hash_li L vv t pv" and "inj_on hash_li L" and "li \<in> L"
    and "pv_li_digest_to_votes pv (hash_li li) = Some lis"
  shows "lis_ledger_info lis = li"
proof -
  have lis: "digest_ok cr hash_li vv pv (hash_li li) lis"
    using assms(1,4) by (simp add: pending_ok_def)
  then obtain a where "a \<in> signers (lis_signatures lis)"
    by (cases "lis_signatures lis") (auto simp: digest_ok_def signatures_valid_def)
  with lis obtain v where "pv_author_to_vote pv a = Some v" "vote_ledger_info v = lis_ledger_info lis"
    by (auto simp: digest_ok_def)
  then have "lis_ledger_info lis \<in> L"
    using pending_okD(3) [OF assms(1)] by (metis author_ok_def)
  then show ?thesis
    using lis assms(2,3) by (auto simp: digest_ok_def dest: inj_onD)
qed

lemma add_to_digest_ok:
  assumes "pending_ok cr hash_li L vv t pv" and "inj_on hash_li L" and "vote_ledger_info v \<in> L"
    and "verified_vote cr vv t v"
  defines "lis \<equiv> add_to_digest hash_li pv v"
  shows "lis_ledger_info lis = vote_ledger_info v"
    and "signatures_valid cr vv (MLedgerInfo (vote_ledger_info v)) (lis_signatures lis)"
    and "signers (lis_signatures lis) = insert (vote_author v)
      (case pv_li_digest_to_votes pv (hash_li (vote_ledger_info v)) of None \<Rightarrow> {} | Some old \<Rightarrow> signers (lis_signatures old))"
proof -
  obtain pk where pk: "get_public_key vv (vote_author v) = Some pk"
    "cr_verify cr pk (MLedgerInfo (vote_ledger_info v)) (vote_signature v)"
    using assms(4) by (auto simp: verified_vote_def vote_verify_iff)
  show "lis_ledger_info lis = vote_ledger_info v"
    using digest_ledger_info [OF assms(1-3)]
    by (auto simp: lis_def add_to_digest_def lis_add_signature_def split: option.split)
  show "signatures_valid cr vv (MLedgerInfo (vote_ledger_info v)) (lis_signatures lis)"
  proof (cases "pv_li_digest_to_votes pv (hash_li (vote_ledger_info v))")
    case None
    then show ?thesis
      using signatures_valid_insert [of _ _ _ "[]", OF _ pk] by (simp add: lis_def add_to_digest_def lis_add_signature_def)
  next
    case (Some old)
    then have "signatures_valid cr vv (MLedgerInfo (vote_ledger_info v)) (lis_signatures old)"
      using pending_okD(1) [OF assms(1) Some] digest_ledger_info [OF assms(1-3) Some] by (simp add: digest_ok_def)
    then show ?thesis
      using signatures_valid_insert [OF _ pk] Some by (simp add: lis_def add_to_digest_def lis_add_signature_def)
  qed
  show "signers (lis_signatures lis) = insert (vote_author v)
      (case pv_li_digest_to_votes pv (hash_li (vote_ledger_info v)) of None \<Rightarrow> {} | Some old \<Rightarrow> signers (lis_signatures old))"
    by (simp add: lis_def add_to_digest_def lis_add_signature_def bt_simps split: option.split)
qed

text \<open>A vote that is not in conflict with a previous vote of its author.\<close>

definition no_conflict :: "pending_votes \<Rightarrow> vote \<Rightarrow> bool" where
  "no_conflict pv v \<longleftrightarrow>
     (\<forall>w. pv_author_to_vote pv (vote_author v) = Some w \<longrightarrow> vote_ledger_info w = vote_ledger_info v)"

definition with_vote :: "(ledger_info \<Rightarrow> hash) \<Rightarrow> pending_votes \<Rightarrow> vote \<Rightarrow> pending_votes" where
  "with_vote hash_li pv v = pv\<lparr>pv_author_to_vote := (pv_author_to_vote pv)(vote_author v \<mapsto> v),
     pv_li_digest_to_votes := (pv_li_digest_to_votes pv)(hash_li (vote_ledger_info v) \<mapsto> add_to_digest hash_li pv v)\<rparr>"

lemma with_vote_ok:
  assumes "pending_ok cr hash_li L vv t pv" and "inj_on hash_li L" and "vote_ledger_info v \<in> L"
    and "verified_vote cr vv t v" and "no_conflict pv v"
  shows "pending_ok cr hash_li L vv t (with_vote hash_li pv v)"
  unfolding pending_ok_def
proof (intro conjI allI impI)
  note new = add_to_digest_ok [OF assms(1-4)]
  fix d lis
  assume d: "pv_li_digest_to_votes (with_vote hash_li pv v) d = Some lis"
  show "digest_ok cr hash_li vv (with_vote hash_li pv v) d lis"
  proof (cases "d = hash_li (vote_ledger_info v)")
    case True
    then have "lis = add_to_digest hash_li pv v"
      using d by (simp add: with_vote_def)
    moreover have "\<exists>w. pv_author_to_vote pv a = Some w \<and> vote_ledger_info w = vote_ledger_info v"
      if "pv_li_digest_to_votes pv d = Some old" "a \<in> signers (lis_signatures old)" for a old
    proof -
      have "digest_ok cr hash_li vv pv d old"
        using assms(1) that(1) by (simp add: pending_ok_def)
      then show ?thesis
        using that digest_ledger_info [OF assms(1-3)] True by (auto simp: digest_ok_def)
    qed
    ultimately show ?thesis
      using True new by (auto simp: digest_ok_def with_vote_def split: option.splits)
  next
    case False
    then have "digest_ok cr hash_li vv pv d lis"
      using assms(1) d by (simp add: pending_ok_def with_vote_def)
    then show ?thesis
      using False assms(5) by (fastforce simp: digest_ok_def with_vote_def no_conflict_def)
  qed
next
  fix a w
  assume w: "pv_author_to_vote (with_vote hash_li pv v) a = Some w"
  note new = add_to_digest_ok [OF assms(1-4)]
  show "author_ok cr hash_li L vv t (with_vote hash_li pv v) a w"
  proof (cases "a = vote_author v")
    case True
    then show ?thesis
      using w new(3) assms(3,4) by (auto simp: author_ok_def with_vote_def)
  next
    case False
    then have w': "author_ok cr hash_li L vv t pv a w"
      using assms(1) w by (simp add: pending_ok_def with_vote_def)
    then obtain lis where "pv_li_digest_to_votes pv (hash_li (vote_ledger_info w)) = Some lis" "a \<in> signers (lis_signatures lis)"
      by (auto simp: author_ok_def)
    then show ?thesis
      using w' new(3) unfolding author_ok_def with_vote_def
      by (cases "hash_li (vote_ledger_info w) = hash_li (vote_ledger_info v)") simp_all
  qed
qed (use assms(1) in \<open>auto simp: pending_ok_def with_vote_def\<close>)

lemma add_to_tc_ok:
  assumes "pending_ok cr hash_li L vv t pv" and "verified_vote cr vv t v" and "vote_timeout_signature v = Some sig"
  shows "tc_timeout (add_to_tc pv v sig) = t"
    and "signatures_valid cr vv (MTimeout t) (tc_signatures (add_to_tc pv v sig))"
    and "signers (tc_signatures (add_to_tc pv v sig)) = insert (vote_author v)
      (case pv_maybe_partial_tc pv of None \<Rightarrow> {} | Some tc \<Rightarrow> signers (tc_signatures tc))"
proof -
  obtain pk where pk: "get_public_key vv (vote_author v) = Some pk" "cr_verify cr pk (MTimeout t) sig"
    using assms(2,3) by (auto simp: verified_vote_def vote_verify_iff)
  show "tc_timeout (add_to_tc pv v sig) = t"
    using assms(1,2) by (auto simp: add_to_tc_def tc_add_signature_def tc_new_def pending_ok_def verified_vote_def split: option.split)
  show "signatures_valid cr vv (MTimeout t) (tc_signatures (add_to_tc pv v sig))"
    using assms(1) signatures_valid_insert [OF _ pk]
    by (auto simp: add_to_tc_def tc_add_signature_def tc_new_def pending_ok_def split: option.split)
  show "signers (tc_signatures (add_to_tc pv v sig)) = insert (vote_author v)
      (case pv_maybe_partial_tc pv of None \<Rightarrow> {} | Some tc \<Rightarrow> signers (tc_signatures tc))"
    by (auto simp: add_to_tc_def tc_add_signature_def tc_new_def bt_simps split: option.split)
qed

text \<open>The certificates that are formed verify, and are for the round of the votes.\<close>

definition result_ok :: "crypto \<Rightarrow> validator_verifier \<Rightarrow> timeout \<Rightarrow> vote_reception_result \<Rightarrow> bool" where
  "result_ok cr vv t res \<longleftrightarrow>
     (case res of
        NewQuorumCertificate qc \<Rightarrow> quorum_cert_verify cr qc vv = Some (Inr ()) \<and>
          \<lparr>to_epoch = bi_epoch (certified_block qc), to_round = bi_round (certified_block qc)\<rparr> = t
      | NewTimeoutCertificate tc \<Rightarrow> tc_verify cr tc vv = Some (Inr ()) \<and> tc_timeout tc = t
      | ErrorAddingVote _ \<Rightarrow> False
      | _ \<Rightarrow> True)"

lemma quorum_certificate_ok:
  assumes "verifier_ok vv" and "verified_vote cr vv t v"
    and "signatures_valid cr vv (MLedgerInfo (vote_ledger_info v)) (lis_signatures lis)"
    and "lis_ledger_info lis = vote_ledger_info v"
    and "vv_quorum_voting_power vv \<le> sum (power_of vv) (signers (lis_signatures lis))"
  shows "result_ok cr vv t (NewQuorumCertificate \<lparr>qc_vote_data = vote_vote_data v, qc_signed_ledger_info = lis\<rparr>)"
proof -
  let ?qc = "\<lparr>qc_vote_data = vote_vote_data v, qc_signed_ledger_info = lis\<rparr>"
  have "vote_data_verify (vote_vote_data v) = Inr ()"
    "li_consensus_data_hash (vote_ledger_info v) = cr_hash_vote_data cr (vote_vote_data v)"
    using assms(2) by (simp_all add: verified_vote_def vote_verify_iff)
  then have "qc_valid cr vv ?qc"
    using signatures_valid_quorum [OF assms(3,5)] assms(4)
    by (auto simp: qc_valid_def qc_ledger_info_def certified_block_def vote_data_verify_iff)
  then show ?thesis
    using quorum_cert_verify_iff [OF assms(1), of ?qc cr] assms(2,3)
    by (simp add: result_ok_def signatures_valid_def verified_vote_def vote_timeout_def certified_block_def)
qed

lemma timeout_certificate_ok:
  assumes "verifier_ok vv" and "signatures_valid cr vv (MTimeout t) (tc_signatures tc)" and "tc_timeout tc = t"
    and "vv_quorum_voting_power vv \<le> sum (power_of vv) (signers (tc_signatures tc))"
  shows "result_ok cr vv t (NewTimeoutCertificate tc)"
  using tc_verify_iff [OF assms(1), of tc cr] signatures_valid_quorum [OF assms(2,4)] assms(2,3)
  by (simp add: result_ok_def signatures_valid_def)

text \<open>Collections that have not given a certificate yet.\<close>

abbreviation below_quorum :: "validator_verifier \<Rightarrow> (address, signature) btree \<Rightarrow> bool" where
  "below_quorum vv sigs \<equiv> sum (power_of vv) (signers sigs) < vv_quorum_voting_power vv"

definition qc_open :: "(ledger_info \<Rightarrow> hash) \<Rightarrow> validator_verifier \<Rightarrow> ledger_info \<Rightarrow> pending_votes \<Rightarrow> bool" where
  "qc_open hash_li vv li pv \<longleftrightarrow>
     (\<forall>lis. pv_li_digest_to_votes pv (hash_li li) = Some lis \<longrightarrow> below_quorum vv (lis_signatures lis))"

definition tc_open :: "validator_verifier \<Rightarrow> pending_votes \<Rightarrow> bool" where
  "tc_open vv pv \<longleftrightarrow>
     (\<forall>tc. pv_maybe_partial_tc pv = Some tc \<longrightarrow> below_quorum vv (tc_signatures tc)) \<and>
     (\<forall>a v. pv_author_to_vote pv a = Some v \<and> is_timeout v \<longrightarrow>
        (\<exists>tc. pv_maybe_partial_tc pv = Some tc \<and> a \<in> signers (tc_signatures tc)))"

text \<open>What the collection records of the authors: the first vote, or the first timeout vote of the same ledger info.\<close>

definition accept :: "(address \<rightharpoonup> vote) \<Rightarrow> vote \<Rightarrow> (address \<rightharpoonup> vote)" where
  "accept m v =
     (case m (vote_author v) of
        None \<Rightarrow> m(vote_author v \<mapsto> v)
      | Some w \<Rightarrow>
          if vote_ledger_info v = vote_ledger_info w \<and> is_timeout v \<and> \<not> is_timeout w then m(vote_author v \<mapsto> v) else m)"

definition certifies :: "ledger_info \<Rightarrow> vote_reception_result \<Rightarrow> bool" where
  "certifies li res \<longleftrightarrow> (case res of NewQuorumCertificate qc \<Rightarrow> qc_ledger_info qc = li | _ \<Rightarrow> False)"

lemma certifies_iff: "certifies li res \<longleftrightarrow> (\<exists>qc. res = NewQuorumCertificate qc \<and> qc_ledger_info qc = li)"
  by (cases res) (simp_all add: certifies_def)

definition is_certificate :: "vote_reception_result \<Rightarrow> bool" where
  "is_certificate res \<longleftrightarrow> (case res of NewQuorumCertificate _ \<Rightarrow> True | NewTimeoutCertificate _ \<Rightarrow> True | _ \<Rightarrow> False)"

definition insert_outcome ::
  "crypto \<Rightarrow> (ledger_info \<Rightarrow> hash) \<Rightarrow> ledger_info set \<Rightarrow> validator_verifier \<Rightarrow> timeout \<Rightarrow> (address \<rightharpoonup> vote) \<Rightarrow> pending_votes \<Rightarrow>
     pending_votes \<Rightarrow> vote_reception_result \<Rightarrow> bool" where
  "insert_outcome cr hash_li L vv t m pv pv' res \<longleftrightarrow>
     pending_ok cr hash_li L vv t pv' \<and> result_ok cr vv t res \<and> pv_author_to_vote pv' = m \<and>
     (\<forall>li\<in>L. qc_open hash_li vv li pv \<and> \<not> certifies li res \<longrightarrow> qc_open hash_li vv li pv') \<and>
     (tc_open vv pv \<and> \<not> is_certificate res \<longrightarrow> tc_open vv pv')"

lemma insert_timeout_vote_outcome:
  assumes "verifier_ok vv" and "pending_ok cr hash_li L vv t pv" and "verified_vote cr vv t v"
  shows "\<exists>pv' res. insert_timeout_vote pv v vv p = Some (pv', res) \<and> pending_ok cr hash_li L vv t pv' \<and> result_ok cr vv t res \<and>
    pv_author_to_vote pv' = pv_author_to_vote pv \<and> pv_li_digest_to_votes pv' = pv_li_digest_to_votes pv \<and>
    (\<not> is_timeout v \<longrightarrow> pv' = pv) \<and> (\<forall>li. \<not> certifies li res) \<and>
    (is_timeout v \<longrightarrow> (\<exists>tc. pv_maybe_partial_tc pv' = Some tc \<and> (\<not> is_certificate res \<longrightarrow> below_quorum vv (tc_signatures tc)) \<and>
       signers (tc_signatures tc) = insert (vote_author v)
         (case pv_maybe_partial_tc pv of None \<Rightarrow> {} | Some tc \<Rightarrow> signers (tc_signatures tc))))"
proof (cases "vote_timeout_signature v")
  case None
  then show ?thesis
    using assms(2) by (simp add: insert_timeout_vote_def result_ok_def is_timeout_def certifies_def)
next
  case (Some sig)
  let ?tc = "add_to_tc pv v sig" and ?pv = "pv\<lparr>pv_maybe_partial_tc := Some (add_to_tc pv v sig)\<rparr>"
  note tc = add_to_tc_ok [OF assms(2,3) Some]
  have ok: "pending_ok cr hash_li L vv t ?pv"
    using assms(2) tc(1,2) by (simp add: pending_ok_def digest_ok_def author_ok_def)
  show ?thesis
  proof (cases "below_quorum vv (tc_signatures ?tc)")
    case True
    then show ?thesis
      using Some ok tc(3) check_signers [OF assms(1) tc(2)]
      by (simp add: insert_timeout_vote_def result_ok_def is_timeout_def certifies_def)
  next
    case False
    then show ?thesis
      using Some ok tc(3) check_signers [OF assms(1) tc(2)] timeout_certificate_ok [OF assms(1) tc(2,1)]
      by (simp add: insert_timeout_vote_def is_timeout_def certifies_def is_certificate_def Let_def)
  qed
qed

lemma qc_open_with_vote:
  assumes "pending_ok cr hash_li L vv t pv" and "inj_on hash_li L" and "vote_ledger_info v \<in> L"
    and "li \<in> L" and "qc_open hash_li vv li pv"
    and "li = vote_ledger_info v \<Longrightarrow> below_quorum vv (lis_signatures (add_to_digest hash_li pv v))"
    and "pv_li_digest_to_votes pv' = pv_li_digest_to_votes (with_vote hash_li pv v)"
  shows "qc_open hash_li vv li pv'"
proof (cases "li = vote_ledger_info v")
  case False
  then have "hash_li li \<noteq> hash_li (vote_ledger_info v)"
    using assms(2-4) by (auto dest: inj_onD)
  then show ?thesis
    using assms(5,7) by (simp add: qc_open_def with_vote_def)
qed (use assms(6,7) in \<open>simp add: qc_open_def with_vote_def\<close>)

lemma tc_open_with_vote:
  assumes "tc_open vv pv" and "pv_author_to_vote pv' = (pv_author_to_vote pv)(vote_author v \<mapsto> v)"
    and "\<not> is_timeout v \<Longrightarrow> pv_maybe_partial_tc pv' = pv_maybe_partial_tc pv"
    and "is_timeout v \<Longrightarrow> pv_maybe_partial_tc pv' = Some tc \<and> below_quorum vv (tc_signatures tc) \<and>
      signers (tc_signatures tc) = insert (vote_author v)
        (case pv_maybe_partial_tc pv of None \<Rightarrow> {} | Some tc \<Rightarrow> signers (tc_signatures tc))"
  shows "tc_open vv pv'"
proof (cases "is_timeout v")
  case True
  have "a \<in> signers (tc_signatures tc)" if w: "pv_author_to_vote pv' a = Some w" "is_timeout w" for a w
  proof (cases "a = vote_author v")
    case False
    then obtain tc' where "pv_maybe_partial_tc pv = Some tc'" "a \<in> signers (tc_signatures tc')"
      using assms(1,2) w by (fastforce simp: tc_open_def)
    then show ?thesis
      using assms(4) [OF True] by simp
  qed (use assms(4) [OF True] in simp)
  moreover have "pv_maybe_partial_tc pv' = Some tc" "below_quorum vv (tc_signatures tc)"
    using assms(4) [OF True] by blast+
  ultimately show ?thesis
    by (simp add: tc_open_def)
next
  case False
  then show ?thesis
    using assms(1-3) by (simp add: tc_open_def)
qed

lemma insert_new_vote_outcome:
  assumes "verifier_ok vv" and "pending_ok cr hash_li L vv t pv" and "inj_on hash_li L" and "vote_ledger_info v \<in> L"
    and "verified_vote cr vv t v" and "no_conflict pv v"
  shows "\<exists>pv' res. insert_new_vote hash_li pv v vv = Some (pv', res) \<and>
    insert_outcome cr hash_li L vv t ((pv_author_to_vote pv)(vote_author v \<mapsto> v)) pv pv' res"
proof -
  let ?lis = "add_to_digest hash_li pv v" and ?pv = "with_vote hash_li pv v"
  note lis = add_to_digest_ok [OF assms(2-5)] and ok = with_vote_ok [OF assms(2-6)]
  note check = check_signers [OF assms(1) lis(2)]
  note qc = qc_open_with_vote [OF assms(2-4)] and tc = tc_open_with_vote [of vv pv _ v]
  have authors: "pv_author_to_vote ?pv = (pv_author_to_vote pv)(vote_author v \<mapsto> v)"
    "pv_maybe_partial_tc ?pv = pv_maybe_partial_tc pv"
    by (simp_all add: with_vote_def)
  show ?thesis
  proof (cases "below_quorum vv (lis_signatures ?lis)")
    case False
    let ?res = "NewQuorumCertificate \<lparr>qc_vote_data = vote_vote_data v, qc_signed_ledger_info = ?lis\<rparr>"
    have "insert_new_vote hash_li pv v vv = Some (?pv, ?res)"
      using check False by (simp add: insert_new_vote_def with_vote_def Let_def)
    moreover have "certifies (vote_ledger_info v) ?res" "is_certificate ?res"
      using lis(1) by (simp_all add: certifies_def is_certificate_def qc_ledger_info_def)
    ultimately show ?thesis
      using ok authors quorum_certificate_ok [OF assms(1,5) lis(2,1)] False qc [of _ ?pv]
      by (auto simp: insert_outcome_def)
  next
    case True
    let ?p = "sum (power_of vv) (signers (lis_signatures ?lis))"
    obtain pv' res where r: "insert_timeout_vote ?pv v vv ?p = Some (pv', res)"
      "pending_ok cr hash_li L vv t pv'" "result_ok cr vv t res"
      "pv_author_to_vote pv' = pv_author_to_vote ?pv" "pv_li_digest_to_votes pv' = pv_li_digest_to_votes ?pv"
      "\<not> is_timeout v \<Longrightarrow> pv' = ?pv"
      and t: "is_timeout v \<Longrightarrow> \<exists>tc. pv_maybe_partial_tc pv' = Some tc \<and> (\<not> is_certificate res \<longrightarrow> below_quorum vv (tc_signatures tc)) \<and>
       signers (tc_signatures tc) = insert (vote_author v)
         (case pv_maybe_partial_tc pv of None \<Rightarrow> {} | Some tc \<Rightarrow> signers (tc_signatures tc))"
      using insert_timeout_vote_outcome [OF assms(1) ok assms(5)] authors(2) by metis
    have "insert_new_vote hash_li pv v vv = Some (pv', res)"
      using check True r(1) by (simp add: insert_new_vote_def Let_def flip: with_vote_def)
    moreover have "tc_open vv pv'" if "tc_open vv pv" "\<not> is_certificate res"
      using t that(2) r(4,6) authors
      by (cases "is_timeout v") (auto intro!: tc [OF that(1)])
    ultimately show ?thesis
      using r authors qc [OF _ _ True r(5)] by (auto simp: insert_outcome_def)
  qed
qed

lemma insert_vote_outcome:
  assumes "verifier_ok vv" and "pending_ok cr hash_li L vv t pv" and "inj_on hash_li L" and "vote_ledger_info v \<in> L"
    and "verified_vote cr vv t v"
  shows "\<exists>pv' res. insert_vote hash_li pv v vv = Some (pv', res) \<and>
    insert_outcome cr hash_li L vv t (accept (pv_author_to_vote pv) v) pv pv' res"
proof (cases "pv_author_to_vote pv (vote_author v)")
  case None
  then show ?thesis
    using insert_new_vote_outcome [OF assms] by (simp add: insert_vote_def accept_def no_conflict_def)
next
  case (Some w)
  have "vote_ledger_info w \<in> L"
    using pending_okD(3) [OF assms(2) Some] by (simp add: author_ok_def)
  then have eq: "hash_li (vote_ledger_info v) = hash_li (vote_ledger_info w) \<longleftrightarrow> vote_ledger_info v = vote_ledger_info w"
    using assms(3,4) by (auto dest: inj_onD)
  show ?thesis
  proof (cases "vote_ledger_info v = vote_ledger_info w \<and> is_timeout v \<and> \<not> is_timeout w")
    case True
    then show ?thesis
      using Some insert_new_vote_outcome [OF assms] by (simp add: insert_vote_def accept_def no_conflict_def)
  next
    case False
    then show ?thesis
      using Some eq assms(2) by (auto simp: insert_vote_def accept_def insert_outcome_def result_ok_def)
  qed
qed

section \<open>Sequences of votes\<close>

fun insert_votes ::
  "(ledger_info \<Rightarrow> hash) \<Rightarrow> pending_votes \<Rightarrow> vote list \<Rightarrow> validator_verifier \<Rightarrow>
     (pending_votes \<times> vote_reception_result list) option" where
  "insert_votes hash_li pv [] vv = Some (pv, [])"
| "insert_votes hash_li pv (v # vs) vv =
     do { (pv', res) \<leftarrow> insert_vote hash_li pv v vv;
          (pv'', results) \<leftarrow> insert_votes hash_li pv' vs vv;
          Some (pv'', res # results) }"

lemma insert_votes_outcome:
  assumes "verifier_ok vv" and "inj_on hash_li L" and "\<forall>v\<in>set vs. vote_ledger_info v \<in> L \<and> verified_vote cr vv t v"
    and "pending_ok cr hash_li L vv t pv"
  shows "\<exists>pv' results. insert_votes hash_li pv vs vv = Some (pv', results) \<and> pending_ok cr hash_li L vv t pv' \<and>
    (\<forall>res\<in>set results. result_ok cr vv t res) \<and> pv_author_to_vote pv' = fold (\<lambda>v m. accept m v) vs (pv_author_to_vote pv) \<and>
    (\<forall>li\<in>L. qc_open hash_li vv li pv \<and> (\<forall>res\<in>set results. \<not> certifies li res) \<longrightarrow> qc_open hash_li vv li pv') \<and>
    (tc_open vv pv \<and> (\<forall>res\<in>set results. \<not> is_certificate res) \<longrightarrow> tc_open vv pv')"
  using assms(3,4)
proof (induction vs arbitrary: pv)
  case (Cons v vs)
  obtain pv1 res where 1: "insert_vote hash_li pv v vv = Some (pv1, res)"
    "insert_outcome cr hash_li L vv t (accept (pv_author_to_vote pv) v) pv pv1 res"
    using insert_vote_outcome [OF assms(1) Cons.prems(2) assms(2), of v] Cons.prems(1) by auto
  have "\<forall>v\<in>set vs. vote_ledger_info v \<in> L \<and> verified_vote cr vv t v" "pending_ok cr hash_li L vv t pv1"
    using Cons.prems(1) 1(2) by (simp_all add: insert_outcome_def)
  from Cons.IH [OF this] 1 show ?case
    by (auto simp: insert_outcome_def)
qed simp

text \<open>What is recorded of the authors in the end.\<close>

lemma accept_fold_kept:
  assumes "m a = Some w"
  shows "\<exists>w'. fold (\<lambda>v m. accept m v) vs m a = Some w' \<and> vote_ledger_info w' = vote_ledger_info w \<and>
    (is_timeout w \<or> (\<exists>v\<in>set vs. vote_author v = a \<and> vote_ledger_info v = vote_ledger_info w \<and> is_timeout v) \<longrightarrow> is_timeout w')"
  using assms
proof (induction vs arbitrary: m w)
  case (Cons v vs)
  have "\<exists>w1. accept m v a = Some w1 \<and> vote_ledger_info w1 = vote_ledger_info w \<and>
    (is_timeout w \<or> (vote_author v = a \<and> vote_ledger_info v = vote_ledger_info w \<and> is_timeout v) \<longrightarrow> is_timeout w1)"
    using Cons.prems by (auto simp: accept_def split: option.split)
  then obtain w1 where w1: "accept m v a = Some w1" "vote_ledger_info w1 = vote_ledger_info w"
    "is_timeout w \<or> (vote_author v = a \<and> vote_ledger_info v = vote_ledger_info w \<and> is_timeout v) \<longrightarrow> is_timeout w1"
    by blast
  show ?case
    using Cons.IH [of "accept m v" w1] w1 by auto
qed simp

lemma accept_fold_first:
  assumes "find (\<lambda>v. vote_author v = a) vs = Some w" and "m a = None"
  shows "\<exists>w'. fold (\<lambda>v m. accept m v) vs m a = Some w' \<and> vote_ledger_info w' = vote_ledger_info w \<and>
    ((\<exists>v\<in>set vs. vote_author v = a \<and> vote_ledger_info v = vote_ledger_info w \<and> is_timeout v) \<longrightarrow> is_timeout w')"
  using assms
proof (induction vs arbitrary: m)
  case (Cons v vs)
  show ?case
  proof (cases "vote_author v = a")
    case True
    then have "accept m v a = Some v" "v = w"
      using Cons.prems by (simp_all add: accept_def)
    then show ?thesis
      using accept_fold_kept [of "accept m v" a w vs] by auto
  next
    case False
    then have "accept m v a = None"
      using Cons.prems(2) by (auto simp: accept_def split: option.split)
    then show ?thesis
      using Cons.IH [of "accept m v"] Cons.prems(1) False by simp
  qed
qed simp

lemma recorded_signers:
  assumes "pending_ok cr hash_li L vv t pv" and "\<forall>a\<in>Q. \<exists>v. pv_author_to_vote pv a = Some v \<and> vote_ledger_info v = li"
    and "pv_li_digest_to_votes pv (hash_li li) = Some lis"
  shows "Q \<subseteq> signers (lis_signatures lis)"
  using assms(2,3) pending_okD(3) [OF assms(1)] by (fastforce simp: author_ok_def)

lemma quorum_signers:
  assumes "verifier_ok vv" and "signatures_valid cr vv m sigs" and "Q \<subseteq> signers sigs"
    and "vv_quorum_voting_power vv \<le> sum (power_of vv) Q"
  shows "\<not> below_quorum vv sigs"
proof -
  have "sum (power_of vv) Q \<le> sum (power_of vv) (signers sigs)"
    using assms(3) by (intro sum_mono2) auto
  then show ?thesis
    using assms(4) by simp
qed

lemma recorded_quorum:
  assumes "verifier_ok vv" and "validators vv \<noteq> {}" and "pending_ok cr hash_li L vv t pv"
    and "\<forall>a\<in>Q. \<exists>v. pv_author_to_vote pv a = Some v \<and> vote_ledger_info v = li"
    and "vv_quorum_voting_power vv \<le> sum (power_of vv) Q"
  shows "li \<in> L" and "\<not> qc_open hash_li vv li pv"
proof -
  have "0 < vv_quorum_voting_power vv"
    using assms(1,2) by (simp add: verifier_ok_def validators_def)
  then obtain a where "a \<in> Q"
    using assms(5) by (cases "Q = {}") auto
  with assms(4) obtain v where v: "pv_author_to_vote pv a = Some v" "vote_ledger_info v = li"
    by blast
  note ok = pending_okD(3) [OF assms(3) v(1)]
  show "li \<in> L"
    using ok v(2) by (simp add: author_ok_def)
  obtain lis where lis: "pv_li_digest_to_votes pv (hash_li li) = Some lis"
    using ok v(2) by (auto simp: author_ok_def)
  then have "signatures_valid cr vv (MLedgerInfo (lis_ledger_info lis)) (lis_signatures lis)"
    using pending_okD(1) [OF assms(3)] by (simp add: digest_ok_def)
  from quorum_signers [OF assms(1) this recorded_signers [OF assms(3,4) lis] assms(5)] show "\<not> qc_open hash_li vv li pv"
    using lis by (simp add: qc_open_def)
qed

lemma recorded_timeouts:
  assumes "verifier_ok vv" and "validators vv \<noteq> {}" and "pending_ok cr hash_li L vv t pv"
    and "\<forall>a\<in>T. \<exists>v. pv_author_to_vote pv a = Some v \<and> is_timeout v"
    and "vv_quorum_voting_power vv \<le> sum (power_of vv) T"
  shows "\<not> tc_open vv pv"
proof
  assume "tc_open vv pv"
  then have tc: "\<exists>tc. pv_maybe_partial_tc pv = Some tc \<and> a \<in> signers (tc_signatures tc)" if "a \<in> T" for a
    using assms(4) that by (auto simp: tc_open_def)
  have "0 < vv_quorum_voting_power vv"
    using assms(1,2) by (simp add: verifier_ok_def validators_def)
  then obtain a where "a \<in> T"
    using assms(5) by (cases "T = {}") auto
  then obtain tc' where tc': "pv_maybe_partial_tc pv = Some tc'"
    using tc by blast
  then have "T \<subseteq> signers (tc_signatures tc')"
    using tc by auto
  from quorum_signers [OF assms(1) _ this assms(5)] show False
    using pending_okD(2) [OF assms(3) tc'] \<open>tc_open vv pv\<close> tc' by (auto simp: tc_open_def)
qed

text \<open>The certificate of the round.\<close>

lemma find_quorum_ok:
  assumes "verifier_ok vv" and "pending_ok cr hash_li L vv t pv" and "set liss \<subseteq> ran (pv_li_digest_to_votes pv)"
  shows "\<exists>found. find_quorum pv vv liss = Some found \<and>
    (case found of
       None \<Rightarrow> \<forall>lis\<in>set liss. below_quorum vv (lis_signatures lis)
     | Some res \<Rightarrow> result_ok cr vv t res \<and> is_certificate res)"
  using assms(3)
proof (induction liss)
  case (Cons lis liss)
  obtain d where "digest_ok cr hash_li vv pv d lis"
    using Cons.prems pending_okD(1) [OF assms(2)] by (auto simp: ran_def)
  then have lis: "signatures_valid cr vv (MLedgerInfo (lis_ledger_info lis)) (lis_signatures lis)"
    "\<forall>a\<in>signers (lis_signatures lis). \<exists>v. pv_author_to_vote pv a = Some v \<and> vote_ledger_info v = lis_ledger_info lis"
    by (simp_all add: digest_ok_def)
  note check = check_signers [OF assms(1) lis(1)]
  show ?case
  proof (cases "below_quorum vv (lis_signatures lis)")
    case True
    then show ?thesis
      using Cons check by (auto split: option.splits)
  next
    case False
    obtain a sig rest where sigs: "lis_signatures lis = (a, sig) # rest"
      using lis(1) by (cases "lis_signatures lis") (auto simp: signatures_valid_def)
    then obtain v where v: "pv_author_to_vote pv a = Some v" "lis_ledger_info lis = vote_ledger_info v"
      using lis(2) by auto
    have "verified_vote cr vv t v"
      using pending_okD(3) [OF assms(2) v(1)] by (simp add: author_ok_def)
    from quorum_certificate_ok [OF assms(1) this] lis(1) v(2) False
    have "result_ok cr vv t (NewQuorumCertificate \<lparr>qc_vote_data = vote_vote_data v, qc_signed_ledger_info = lis\<rparr>)"
      by simp
    then show ?thesis
      using check False v(1) sigs by (simp add: is_certificate_def)
  qed
qed simp

lemma get_certificate_ok:
  assumes "verifier_ok vv" and "pending_ok cr hash_li L vv t pv"
    and "set (values (pv_li_digest_to_votes pv)) = ran (pv_li_digest_to_votes pv)"
  shows "\<exists>res. get_certificate values pv vv = Some res \<and> result_ok cr vv t res \<and> (is_certificate res \<or> res = DuplicateVote)"
proof -
  have dup: "result_ok cr vv t DuplicateVote"
    by (simp add: result_ok_def)
  show ?thesis
  proof (cases "pv_maybe_partial_tc pv")
    case None
    then show ?thesis
      using find_quorum_ok [OF assms(1,2)] assms(3) dup by (force simp: get_certificate_def split: option.splits)
  next
    case (Some tc)
    note tc = pending_okD(2) [OF assms(2) Some]
    note check = check_signers [OF assms(1) conjunct2 [OF tc]]
    have "\<exists>res. check_voting_power vv (map fst (tc_signatures tc)) = Some res \<and>
      result_ok cr vv t (case res of Inr _ \<Rightarrow> NewTimeoutCertificate tc | Inl _ \<Rightarrow> DuplicateVote)"
      using check timeout_certificate_ok [OF assms(1) conjunct2 [OF tc] conjunct1 [OF tc]] dup by auto
    then show ?thesis
      using find_quorum_ok [OF assms(1,2)] assms(3) Some
      by (force simp: get_certificate_def is_certificate_def split: option.splits sum.splits)
  qed
qed

section \<open>Properties\<close>

text \<open>
  C5. Votes lead to certificates: a collection that receives verified votes of a round, in any order and mixed
  with duplicates and votes that equivocate, never panics and gives only certificates that verify. If the
  authors whose first vote is for a ledger info have a quorum of the voting power, a quorum certificate for
  that ledger info is given on the way; if the authors that send a timeout signature with their vote have a
  quorum, a quorum certificate or a timeout certificate is given.
\<close>

theorem votes_lead_to_certificates:
  assumes "verifier_ok vv" and "validators vv \<noteq> {}" and "inj_on hash_li (vote_ledger_info ` set vs)"
    and "\<forall>v\<in>set vs. vote_verify cr v vv = Inr () \<and> vote_timeout v = t"
  shows "\<exists>pv results. insert_votes hash_li pending_votes_new vs vv = Some (pv, results) \<and>
    (\<forall>res\<in>set results. result_ok cr vv t res) \<and>
    (\<forall>li Q. vv_quorum_voting_power vv \<le> sum (power_of vv) Q \<and>
       (\<forall>a\<in>Q. \<exists>v. find (\<lambda>v. vote_author v = a) vs = Some v \<and> vote_ledger_info v = li) \<longrightarrow>
       (\<exists>qc. NewQuorumCertificate qc \<in> set results \<and> qc_ledger_info qc = li)) \<and>
    (\<forall>T. vv_quorum_voting_power vv \<le> sum (power_of vv) T \<and>
       (\<forall>a\<in>T. \<exists>v w. find (\<lambda>v. vote_author v = a) vs = Some w \<and> v \<in> set vs \<and> vote_author v = a \<and>
          vote_ledger_info v = vote_ledger_info w \<and> is_timeout v) \<longrightarrow>
       (\<exists>res\<in>set results. is_certificate res))"
proof -
  let ?L = "vote_ledger_info ` set vs" and ?m = "fold (\<lambda>v m. accept m v) vs Map.empty"
  have vs: "\<forall>v\<in>set vs. vote_ledger_info v \<in> ?L \<and> verified_vote cr vv t v"
    using assms(4) by (simp add: verified_vote_def)
  have op: "qc_open hash_li vv li pending_votes_new" "tc_open vv pending_votes_new" for li
    by (simp_all add: qc_open_def tc_open_def pending_votes_new_def)
  obtain pv results where r: "insert_votes hash_li pending_votes_new vs vv = Some (pv, results)"
    "pending_ok cr hash_li ?L vv t pv" "\<forall>res\<in>set results. result_ok cr vv t res" "pv_author_to_vote pv = ?m"
    "\<forall>li\<in>?L. (\<forall>res\<in>set results. \<not> certifies li res) \<longrightarrow> qc_open hash_li vv li pv"
    "(\<forall>res\<in>set results. \<not> is_certificate res) \<longrightarrow> tc_open vv pv"
    using insert_votes_outcome [OF assms(1,3) vs pending_ok_new] op by (auto simp: pending_votes_new_def)
  have "\<exists>qc. NewQuorumCertificate qc \<in> set results \<and> qc_ledger_info qc = li"
    if "vv_quorum_voting_power vv \<le> sum (power_of vv) Q"
      "\<forall>a\<in>Q. \<exists>v. find (\<lambda>v. vote_author v = a) vs = Some v \<and> vote_ledger_info v = li" for li Q
  proof -
    have "\<forall>a\<in>Q. \<exists>v. pv_author_to_vote pv a = Some v \<and> vote_ledger_info v = li"
      using that(2) accept_fold_first [of _ vs _ Map.empty] r(4) by fastforce
    note recorded_quorum [OF assms(1,2) r(2) this that(1)]
    then have "\<exists>res\<in>set results. certifies li res"
      using r(5) by blast
    then show ?thesis
      by (auto simp: certifies_iff)
  qed
  moreover have "\<exists>res\<in>set results. is_certificate res"
    if "vv_quorum_voting_power vv \<le> sum (power_of vv) T"
      "\<forall>a\<in>T. \<exists>v w. find (\<lambda>v. vote_author v = a) vs = Some w \<and> v \<in> set vs \<and> vote_author v = a \<and>
         vote_ledger_info v = vote_ledger_info w \<and> is_timeout v" for T
  proof -
    have "\<forall>a\<in>T. \<exists>v. pv_author_to_vote pv a = Some v \<and> is_timeout v"
      using that(2) accept_fold_first [of _ vs _ Map.empty] r(4) by fastforce
    from recorded_timeouts [OF assms(1,2) r(2) this that(1)] show ?thesis
      using r(6) by blast
  qed
  ultimately show ?thesis
    using r(1,3) by blast
qed

definition sample_vote :: "round \<Rightarrow> address \<Rightarrow> vote" where
  "sample_vote r a = \<lparr>vote_vote_data = qc_vote_data (sample_qc r), vote_author = a, vote_ledger_info = qc_ledger_info (sample_qc r),
     vote_signature = 10 * a, vote_timeout_signature = Some (10 * a)\<rparr>"

lemma sample_votes_verified:
  assumes "a \<in> {1, 2, 3, 4}" and "0 < r"
  shows "vote_verify sample_crypto (sample_vote r a) sample_verifier = Inr ()"
    and "vote_timeout (sample_vote r a) = \<lparr>to_epoch = 1, to_round = r\<rparr>"
  using assms
  by (auto simp: vote_verify_iff vote_data_verify_iff sample_vote_def sample_qc_def sample_crypto_def sample_verifier_def
    sample_info_def get_public_key_def vote_timeout_def block_info_empty_def qc_ledger_info_def)

theorem votes_lead_to_certificates_witness:
  "\<exists>pv results qc. insert_votes li_consensus_data_hash pending_votes_new [sample_vote 5 4, sample_vote 5 4, sample_vote 5 3]
      sample_verifier = Some (pv, results) \<and> NewQuorumCertificate qc \<in> set results \<and> qc_ledger_info qc = qc_ledger_info (sample_qc 5)"
proof -
  let ?vs = "[sample_vote 5 4, sample_vote 5 4, sample_vote 5 3]"
  have v: "\<forall>v\<in>set ?vs. vote_verify sample_crypto v sample_verifier = Inr () \<and> vote_timeout v = \<lparr>to_epoch = 1, to_round = 5\<rparr>"
    using sample_votes_verified [of 4 5] sample_votes_verified [of 3 5] by simp
  have i: "inj_on li_consensus_data_hash (vote_ledger_info ` set ?vs)" "validators sample_verifier \<noteq> {}"
    by (simp_all add: inj_on_def sample_vote_def validators_def sample_verifier_def)
  have "vv_quorum_voting_power sample_verifier \<le> sum (power_of sample_verifier) {4, 3}"
    by (simp add: sample_verifier_def power_of_def get_voting_power_def sample_info_def)
  moreover have "\<forall>a\<in>{4, 3}. \<exists>v. find (\<lambda>v. vote_author v = a) ?vs = Some v \<and> vote_ledger_info v = qc_ledger_info (sample_qc 5)"
    by (simp add: sample_vote_def)
  ultimately show ?thesis
    using votes_lead_to_certificates [OF sample_verifier_ok i(2,1) v] by blast
qed

end
