(* ===== verification/Round_State.thy ===== *)
theory Round_State
  imports Pending_Votes
begin

text \<open>
  The rounds of an epoch (\<^verbatim>\<open>cfxcore/core/src/pos/consensus/liveness/round_state.rs\<close>): the current round,
  which advances with the certificates, its deadline, its votes and the vote sent. Durations are
  nanoseconds; the time is the argument \<open>now\<close>. The tasks handed to the time service are recorded in
  the state in their order: the channel, the delay and what is sent, an epoch and a round.
  The multiplications with a power of the floating-point exponent are the functions \<open>power_ceil\<close> and
  \<open>scaled\<close>, arguments.
\<close>

section \<open>Durations\<close>

definition DURATION_MAX :: nat where
  "DURATION_MAX = U64_MAX * 1000000000 + 999999999"

definition add_duration :: "nat \<Rightarrow> nat \<Rightarrow> nat option" where
  "add_duration a b = (if a + b \<le> DURATION_MAX then Some (a + b) else None)"

record exponential_time_interval =
  eti_base_ms :: nat
  eti_exponent_base :: nat
  eti_max_exponent :: nat

definition exponential_time_interval_new ::
  "(nat \<Rightarrow> nat \<Rightarrow> nat) \<Rightarrow> nat \<Rightarrow> nat \<Rightarrow> nat \<Rightarrow> exponential_time_interval option" where
  "exponential_time_interval_new power_ceil base exponent_base max_exponent =
     do { assert_that (max_exponent < 32);
          assert_that (power_ceil exponent_base max_exponent < 2 ^ 32 - 1);
          Some \<lparr>eti_base_ms = (base div 1000000) mod 2 ^ 64, eti_exponent_base = exponent_base,
                eti_max_exponent = max_exponent\<rparr> }"

definition get_round_duration :: "(nat \<Rightarrow> nat \<Rightarrow> nat \<Rightarrow> nat) \<Rightarrow> exponential_time_interval \<Rightarrow> nat \<Rightarrow> nat" where
  "get_round_duration scaled self round_index_after_committed_qc =
     (let pow = min round_index_after_committed_qc (eti_max_exponent self)
      in scaled (eti_base_ms self) (eti_exponent_base self) pow * 1000000)"

section \<open>The state of the rounds\<close>

datatype new_round_reason = QCReady | TCReady

record new_round_event =
  ev_round :: round
  ev_reason :: new_round_reason
  ev_timeout :: nat

datatype timer = TimeoutSender | ProposalTimeoutSender | NewRoundTimeoutSender

record round_state =
  rs_time_interval :: "nat \<Rightarrow> nat"
  rs_highest_committed_round :: round
  rs_current_round :: round
  rs_current_round_deadline :: nat
  rs_tasks :: "(timer \<times> nat \<times> nat \<times> round) list"
  rs_new_round_sent :: bool
  rs_pending_votes :: pending_votes
  rs_vote_sent :: "vote option"

definition round_state_new :: "(nat \<Rightarrow> nat) \<Rightarrow> nat \<Rightarrow> round_state" where
  "round_state_new time_interval now =
     \<lparr>rs_time_interval = time_interval, rs_highest_committed_round = 0, rs_current_round = 0,
      rs_current_round_deadline = now, rs_tasks = [], rs_new_round_sent = False,
      rs_pending_votes = pending_votes_new, rs_vote_sent = None\<rparr>"

definition get_round_index_after_committed_round :: "round_state \<Rightarrow> nat option" where
  "get_round_index_after_committed_round self =
     (if rs_highest_committed_round self = 0 then sub64 (rs_current_round self) 1
      else do { third \<leftarrow> add64 (rs_highest_committed_round self) 3;
                if rs_current_round self < third then Some 0
                else do { rounds \<leftarrow> sub64 (rs_current_round self) (rs_highest_committed_round self);
                          sub64 rounds 3 } })"

definition run_after :: "timer \<Rightarrow> nat \<Rightarrow> nat \<Rightarrow> round_state \<Rightarrow> round_state" where
  "run_after timer timeout' epoch self = self\<lparr>rs_tasks := rs_tasks self @ [(timer, timeout', epoch, rs_current_round self)]\<rparr>"

definition setup_deadline :: "nat \<Rightarrow> round_state \<Rightarrow> (round_state \<times> nat) option" where
  "setup_deadline now self =
     do { i \<leftarrow> get_round_index_after_committed_round self;
          let timeout' = rs_time_interval self i;
          deadline \<leftarrow> add_duration now timeout';
          Some (self\<lparr>rs_current_round_deadline := deadline\<rparr>, timeout') }"

definition setup_timeout :: "nat \<Rightarrow> nat \<Rightarrow> round_state \<Rightarrow> (round_state \<times> nat) option" where
  "setup_timeout now epoch self =
     do { (self', timeout') \<leftarrow> setup_deadline now self;
          Some (run_after TimeoutSender timeout' epoch self', timeout') }"

definition setup_proposal_deadline :: "round_state \<Rightarrow> nat option" where
  "setup_proposal_deadline self =
     do { i \<leftarrow> get_round_index_after_committed_round self; Some (rs_time_interval self i div 2) }"

definition setup_new_round_deadline :: "round_state \<Rightarrow> nat option" where
  "setup_new_round_deadline self =
     do { i \<leftarrow> get_round_index_after_committed_round self; Some (rs_time_interval self i div 2) }"

definition setup_proposal_timeout :: "nat \<Rightarrow> round_state \<Rightarrow> (round_state \<times> nat) option" where
  "setup_proposal_timeout epoch self =
     do { timeout' \<leftarrow> setup_proposal_deadline self;
          Some (run_after ProposalTimeoutSender timeout' epoch self, timeout') }"

definition setup_new_round_timeout :: "nat \<Rightarrow> round_state \<Rightarrow> (round_state \<times> nat option) option" where
  "setup_new_round_timeout epoch self =
     (if rs_new_round_sent self then Some (self, None)
      else do { timeout' \<leftarrow> setup_new_round_deadline self;
                Some ((run_after NewRoundTimeoutSender timeout' epoch self)\<lparr>rs_new_round_sent := True\<rparr>, Some timeout') })"

text \<open>The round of the timeout is not compared with the current one here.\<close>

definition process_local_timeout :: "nat \<Rightarrow> nat \<times> round \<Rightarrow> round_state \<Rightarrow> (round_state \<times> bool) option" where
  "process_local_timeout now epoch_round self =
     do { (self', _) \<leftarrow> setup_timeout now (fst epoch_round) self; Some (self', True) }"

definition process_certificates :: "nat \<Rightarrow> sync_info \<Rightarrow> round_state \<Rightarrow> (round_state \<times> new_round_event option) option" where
  "process_certificates now sync_info self =
     (let self = (if rs_highest_committed_round self < highest_commit_round sync_info
                  then self\<lparr>rs_highest_committed_round := highest_commit_round sync_info\<rparr> else self) in
      do { new_round \<leftarrow> add64 (highest_round sync_info) 1;
           if rs_current_round self < new_round
           then do {
             let self = self\<lparr>rs_current_round := new_round, rs_new_round_sent := False,
               rs_pending_votes := pending_votes_new, rs_vote_sent := None\<rparr>;
             (self, timeout') \<leftarrow> setup_timeout now (sync_info_epoch sync_info) self;
             Some (self, Some \<lparr>ev_round = rs_current_round self,
               ev_reason = (if sy_highest_timeout_cert sync_info = None then QCReady else TCReady),
               ev_timeout = timeout'\<rparr>) }
           else Some (self, None) })"

definition round_insert_vote ::
  "(ledger_info \<Rightarrow> hash) \<Rightarrow> vote \<Rightarrow> validator_verifier \<Rightarrow> round_state \<Rightarrow> (round_state \<times> vote_reception_result) option" where
  "round_insert_vote hash_li vote validator_verifier self =
     (if bi_round (vd_proposed (vote_vote_data vote)) = rs_current_round self
      then do { (pending, result) \<leftarrow> insert_vote hash_li (rs_pending_votes self) vote validator_verifier;
                Some (self\<lparr>rs_pending_votes := pending\<rparr>, result) }
      else Some (self, UnexpectedRound (bi_round (vd_proposed (vote_vote_data vote))) (rs_current_round self)))"

definition record_vote :: "vote \<Rightarrow> round_state \<Rightarrow> round_state" where
  "record_vote vote self =
     (if bi_round (vd_proposed (vote_vote_data vote)) = rs_current_round self then self\<lparr>rs_vote_sent := Some vote\<rparr> else self)"

definition get_round_certificate ::
  "((hash \<rightharpoonup> ledger_info_with_signatures) \<Rightarrow> ledger_info_with_signatures list) \<Rightarrow> validator_verifier \<Rightarrow> round_state \<Rightarrow>
     vote_reception_result option" where
  "get_round_certificate values validator_verifier self = get_certificate values (rs_pending_votes self) validator_verifier"

definition round_vote_received :: "(ledger_info \<Rightarrow> hash) \<Rightarrow> vote \<Rightarrow> round_state \<Rightarrow> bool" where
  "round_vote_received hash_li vote self = vote_received hash_li (rs_pending_votes self) vote"

section \<open>Lives of the round state\<close>

text \<open>
  The calls of the round manager. A vote is inserted only after it has been verified with the validators of
  the epoch \<open>e\<close>; the ledger infos voted for are those of \<open>L\<close>. Everything else is unrestricted.
\<close>

datatype round_call =
  Certificates nat sync_info
| InsertVote vote
| RecordVote vote
| LocalTimeout nat "nat \<times> round"
| ProposalTimer nat
| NewRoundTimer nat

fun round_call_state ::
  "(ledger_info \<Rightarrow> hash) \<Rightarrow> validator_verifier \<Rightarrow> round_call \<Rightarrow> round_state \<Rightarrow> (round_state \<times> new_round_event option) option" where
  "round_call_state hash_li vv (Certificates now si) s = process_certificates now si s"
| "round_call_state hash_li vv (InsertVote v) s = map_option (\<lambda>(s', _). (s', None)) (round_insert_vote hash_li v vv s)"
| "round_call_state hash_li vv (RecordVote v) s = Some (record_vote v s, None)"
| "round_call_state hash_li vv (LocalTimeout now er) s = map_option (\<lambda>(s', _). (s', None)) (process_local_timeout now er s)"
| "round_call_state hash_li vv (ProposalTimer epoch) s = map_option (\<lambda>(s', _). (s', None)) (setup_proposal_timeout epoch s)"
| "round_call_state hash_li vv (NewRoundTimer epoch) s = map_option (\<lambda>(s', _). (s', None)) (setup_new_round_timeout epoch s)"

definition call_ok :: "crypto \<Rightarrow> ledger_info set \<Rightarrow> validator_verifier \<Rightarrow> nat \<Rightarrow> round_call \<Rightarrow> bool" where
  "call_ok cr L vv e op \<longleftrightarrow>
     (case op of
        InsertVote v \<Rightarrow> vote_verify cr v vv = Inr () \<and> vote_epoch v = e \<and> vote_ledger_info v \<in> L
      | _ \<Rightarrow> True)"

inductive round_life ::
  "crypto \<Rightarrow> (ledger_info \<Rightarrow> hash) \<Rightarrow> ledger_info set \<Rightarrow> validator_verifier \<Rightarrow> nat \<Rightarrow> round_state \<Rightarrow> new_round_event list \<Rightarrow> bool"
  for cr hash_li L vv e where
  start: "round_life cr hash_li L vv e (round_state_new interval now) []"
| call: "round_life cr hash_li L vv e s evs \<Longrightarrow> call_ok cr L vv e op \<Longrightarrow> round_call_state hash_li vv op s = Some (s', ev) \<Longrightarrow>
    round_life cr hash_li L vv e s' (evs @ (case ev of None \<Rightarrow> [] | Some x \<Rightarrow> [x]))"

lemma setup_timeout_frame:
  assumes "setup_timeout now epoch s = Some (s', d)"
  shows "rs_current_round s' = rs_current_round s \<and> rs_pending_votes s' = rs_pending_votes s \<and>
    rs_highest_committed_round s' = rs_highest_committed_round s \<and> rs_vote_sent s' = rs_vote_sent s"
  using assms
  by (auto simp: setup_timeout_def setup_deadline_def run_after_def Let_def option_bind_simps)

text \<open>What a call does to the round: only certificates advance it, and a new round has no votes.\<close>

lemma process_certificates_round:
  assumes "process_certificates now si s = Some (s', ev)"
  shows "rs_current_round s' = max (rs_current_round s) (Suc (highest_round si))"
    and "rs_highest_committed_round s' = max (rs_highest_committed_round s) (highest_commit_round si)"
    and "ev = None \<longleftrightarrow> rs_current_round s' = rs_current_round s"
    and "ev = None \<Longrightarrow> rs_pending_votes s' = rs_pending_votes s \<and> rs_vote_sent s' = rs_vote_sent s"
    and "ev = Some x \<Longrightarrow> ev_round x = rs_current_round s' \<and> rs_pending_votes s' = pending_votes_new \<and> rs_vote_sent s' = None"
proof -
  let ?s = "if rs_highest_committed_round s < highest_commit_round si
    then s\<lparr>rs_highest_committed_round := highest_commit_round si\<rparr> else s"
  let ?n = "?s\<lparr>rs_current_round := Suc (highest_round si), rs_new_round_sent := False,
    rs_pending_votes := pending_votes_new, rs_vote_sent := None\<rparr>"
  have cases: "rs_current_round s \<ge> Suc (highest_round si) \<and> s' = ?s \<and> ev = None \<or>
    rs_current_round s < Suc (highest_round si) \<and> (\<exists>d. setup_timeout now (sync_info_epoch si) ?n = Some (s', d) \<and>
      (\<exists>r. ev = Some \<lparr>ev_round = rs_current_round s', ev_reason = r, ev_timeout = d\<rparr>))"
    using assms unfolding process_certificates_def Let_def
    by (auto simp: option_bind_simps u64_simps split: if_split_asm)
  then show "rs_current_round s' = max (rs_current_round s) (Suc (highest_round si))"
    "rs_highest_committed_round s' = max (rs_highest_committed_round s) (highest_commit_round si)"
    "ev = None \<longleftrightarrow> rs_current_round s' = rs_current_round s"
    "ev = None \<Longrightarrow> rs_pending_votes s' = rs_pending_votes s \<and> rs_vote_sent s' = rs_vote_sent s"
    "ev = Some x \<Longrightarrow> ev_round x = rs_current_round s' \<and> rs_pending_votes s' = pending_votes_new \<and> rs_vote_sent s' = None"
    by (auto dest!: setup_timeout_frame)
qed

lemma round_call_frame:
  assumes "round_call_state hash_li vv op s = Some (s', ev)" and "\<nexists>now si. op = Certificates now si"
  shows "rs_current_round s' = rs_current_round s \<and> ev = None \<and> ((\<nexists>v. op = InsertVote v) \<longrightarrow> rs_pending_votes s' = rs_pending_votes s)"
proof (cases op)
  case (InsertVote v)
  then show ?thesis
    using assms(1) by (auto simp: round_insert_vote_def option_bind_simps split: if_splits)
next
  case (RecordVote v)
  then show ?thesis
    using assms(1) by (auto simp: record_vote_def)
next
  case (LocalTimeout now er)
  then show ?thesis
    using assms(1) by (auto simp: process_local_timeout_def option_bind_simps dest!: setup_timeout_frame)
next
  case (ProposalTimer epoch)
  then show ?thesis
    using assms(1) by (auto simp: setup_proposal_timeout_def run_after_def option_bind_simps)
next
  case (NewRoundTimer epoch)
  then show ?thesis
    using assms(1) by (auto simp: setup_new_round_timeout_def run_after_def option_bind_simps split: if_splits)
qed (use assms(2) in auto)

definition round_votes_ok :: "crypto \<Rightarrow> (ledger_info \<Rightarrow> hash) \<Rightarrow> ledger_info set \<Rightarrow> validator_verifier \<Rightarrow> nat \<Rightarrow> round_state \<Rightarrow> bool" where
  "round_votes_ok cr hash_li L vv e s \<longleftrightarrow>
     pending_ok cr hash_li L vv \<lparr>to_epoch = e, to_round = rs_current_round s\<rparr> (rs_pending_votes s)"

lemma round_insert_vote_ok:
  assumes "verifier_ok vv" and "inj_on hash_li L" and "round_votes_ok cr hash_li L vv e s" and "call_ok cr L vv e (InsertVote v)"
  shows "\<exists>s' res. round_insert_vote hash_li v vv s = Some (s', res) \<and> round_votes_ok cr hash_li L vv e s' \<and>
    result_ok cr vv \<lparr>to_epoch = e, to_round = rs_current_round s\<rparr> res"
proof (cases "bi_round (vd_proposed (vote_vote_data v)) = rs_current_round s")
  case True
  then have "verified_vote cr vv \<lparr>to_epoch = e, to_round = rs_current_round s\<rparr> v" "vote_ledger_info v \<in> L"
    using assms(4) by (auto simp: call_ok_def verified_vote_def vote_timeout_def vote_epoch_def)
  then show ?thesis
    using insert_vote_outcome [OF assms(1) assms(3) [unfolded round_votes_ok_def] assms(2)] True
    by (fastforce simp: round_insert_vote_def round_votes_ok_def insert_outcome_def)
next
  case False
  then show ?thesis
    using assms(3) by (simp add: round_insert_vote_def result_ok_def)
qed

lemma round_life_votes_ok:
  assumes "round_life cr hash_li L vv e s evs" and "verifier_ok vv" and "inj_on hash_li L"
  shows "round_votes_ok cr hash_li L vv e s"
  using assms(1)
proof (induction rule: round_life.induct)
  case start
  then show ?case by (simp add: round_votes_ok_def round_state_new_def)
next
  case (call s evs op s' ev)
  consider (certs) now si where "op = Certificates now si" | (vote) v where "op = InsertVote v"
    | (other) "\<nexists>now si. op = Certificates now si" "\<nexists>v. op = InsertVote v"
    by blast
  then show ?case
  proof cases
    case certs
    then have "process_certificates now si s = Some (s', ev)"
      using call.hyps(3) by simp
    from process_certificates_round [OF this] show ?thesis
      using call.IH by (cases ev) (auto simp: round_votes_ok_def)
  next
    case vote
    then show ?thesis
      using round_insert_vote_ok [OF assms(2,3) call.IH, of v] call.hyps(2,3) by auto
  next
    case other
    then show ?thesis
      using round_call_frame [OF call.hyps(3) other(1)] call.IH by (simp add: round_votes_ok_def)
  qed
qed

definition rounds_ok :: "round_state \<Rightarrow> new_round_event list \<Rightarrow> bool" where
  "rounds_ok s evs \<longleftrightarrow> sorted_wrt (<) (map ev_round evs) \<and> (\<forall>ev\<in>set evs. 0 < ev_round ev) \<and>
     rs_current_round s = (if evs = [] then 0 else ev_round (last evs)) \<and>
     (\<forall>v. rs_vote_sent s = Some v \<longrightarrow> bi_round (vd_proposed (vote_vote_data v)) = rs_current_round s)"

lemma sorted_wrt_less_snoc:
  assumes "sorted_wrt (<) (xs :: nat list)" and "xs \<noteq> [] \<Longrightarrow> last xs < y"
  shows "sorted_wrt (<) (xs @ [y])"
proof (cases xs rule: rev_cases)
  case (snoc ys x)
  then show ?thesis
    using assms by (fastforce simp: sorted_wrt_append)
qed simp

lemma vote_sent_frame:
  assumes "round_call_state hash_li vv op s = Some (s', ev)" and "\<nexists>now si. op = Certificates now si" and "rs_vote_sent s' = Some v"
  shows "rs_vote_sent s = Some v \<or> bi_round (vd_proposed (vote_vote_data v)) = rs_current_round s"
proof (cases op)
  case (LocalTimeout now er)
  then show ?thesis
    using assms(1,3) by (auto simp: process_local_timeout_def option_bind_simps dest!: setup_timeout_frame)
qed (use assms in \<open>auto simp: round_insert_vote_def record_vote_def setup_proposal_timeout_def setup_new_round_timeout_def
    run_after_def option_bind_simps split: if_splits\<close>)

lemma round_life_rounds_ok: "round_life cr hash_li L vv e s evs \<Longrightarrow> rounds_ok s evs"
proof (induction rule: round_life.induct)
  case start
  then show ?case by (simp add: rounds_ok_def round_state_new_def)
next
  case (call s evs op s' ev)
  show ?case
  proof (cases "\<exists>now si. op = Certificates now si")
    case True
    then obtain now si where "process_certificates now si s = Some (s', ev)"
      using call.hyps(3) by auto
    note r = process_certificates_round [OF this]
    show ?thesis
    proof (cases ev)
      case None
      then show ?thesis
        using r(3,4) call.IH by (auto simp: rounds_ok_def)
    next
      case (Some x)
      then have x: "ev_round x = rs_current_round s'" "rs_current_round s < ev_round x" "rs_vote_sent s' = None"
        using r(1,3) r(5) [OF Some] by auto
      have "sorted_wrt (<) (map ev_round evs @ [ev_round x])"
        using x(2) call.IH by (intro sorted_wrt_less_snoc) (auto simp: rounds_ok_def last_map split: if_splits)
      then show ?thesis
        using x Some call.IH by (auto simp: rounds_ok_def)
    qed
  next
    case False
    then show ?thesis
      using round_call_frame [OF call.hyps(3)] vote_sent_frame [OF call.hyps(3)] call.IH by (fastforce simp: rounds_ok_def)
  qed
qed

section \<open>Properties\<close>

text \<open>
  C4. The certificates of a round: whatever the calls before, inserting a verified vote does not panic, and a
  quorum or timeout certificate that comes out, then or when the round ends, passes the verification other
  nodes apply and is for the current round of the epoch.
\<close>

theorem round_certificates_verify:
  assumes "round_life cr hash_li L vv e s evs" and "verifier_ok vv" and "inj_on hash_li L"
    and "vote_verify cr v vv = Inr ()" and "vote_epoch v = e" and "vote_ledger_info v \<in> L"
    and "\<forall>m. finite (dom m) \<longrightarrow> set (values m) = ran m"
  shows "\<exists>s' res res'. round_insert_vote hash_li v vv s = Some (s', res) \<and> get_round_certificate values vv s' = Some res' \<and>
    (\<forall>qc. NewQuorumCertificate qc \<in> {res, res'} \<longrightarrow> quorum_cert_verify cr qc vv = Some (Inr ()) \<and>
       bi_epoch (certified_block qc) = e \<and> bi_round (certified_block qc) = rs_current_round s) \<and>
    (\<forall>tc. NewTimeoutCertificate tc \<in> {res, res'} \<longrightarrow> tc_verify cr tc vv = Some (Inr ()) \<and>
       tc_epoch tc = e \<and> tc_round tc = rs_current_round s)"
proof -
  have v: "call_ok cr L vv e (InsertVote v)"
    using assms(4-6) by (simp add: call_ok_def)
  let ?t = "\<lparr>to_epoch = e, to_round = rs_current_round s\<rparr>"
  obtain s' res where r: "round_insert_vote hash_li v vv s = Some (s', res)" "round_votes_ok cr hash_li L vv e s'"
    "result_ok cr vv ?t res"
    using round_insert_vote_ok [OF assms(2,3) round_life_votes_ok [OF assms(1-3)] v] by blast
  have "rs_current_round s' = rs_current_round s"
    using round_call_frame [of hash_li vv "InsertVote v" s s' None] r(1) by simp
  then have "pending_ok cr hash_li L vv ?t (rs_pending_votes s')"
    using r(2) by (simp add: round_votes_ok_def)
  then obtain res' where r': "get_round_certificate values vv s' = Some res'" "result_ok cr vv ?t res'"
    using get_certificate_ok [OF assms(2), of cr hash_li L ?t "rs_pending_votes s'" "values"] assms(7)
    by (auto simp: get_round_certificate_def pending_ok_def)
  have "\<forall>res''\<in>{res, res'}. result_ok cr vv ?t res''"
    using r(3) r'(2) by simp
  then show ?thesis
    using r(1) r'(1) by (force simp: result_ok_def tc_epoch_def tc_round_def)
qed


definition sample_sync :: "round \<Rightarrow> sync_info" where
  "sample_sync r = \<lparr>sy_highest_quorum_cert = sample_qc r, sy_highest_commit_cert = None, sy_highest_timeout_cert = None\<rparr>"

definition sample_rounds :: round_state where
  "sample_rounds = \<lparr>rs_time_interval = (\<lambda>_. 10), rs_highest_committed_round = 0, rs_current_round = 5,
     rs_current_round_deadline = 110, rs_tasks = [(TimeoutSender, 10, 1, 5)], rs_new_round_sent = False,
     rs_pending_votes = pending_votes_new, rs_vote_sent = None\<rparr>"

lemma sample_rounds_life:
  "round_life cr hash_li L vv e sample_rounds [\<lparr>ev_round = 5, ev_reason = QCReady, ev_timeout = 10\<rparr>]"
proof -
  have "round_call_state hash_li vv (Certificates 100 (sample_sync 4)) (round_state_new (\<lambda>_. 10) 0) =
    Some (sample_rounds, Some \<lparr>ev_round = 5, ev_reason = QCReady, ev_timeout = 10\<rparr>)"
    by (simp add: process_certificates_def sample_sync_def sample_qc_def round_state_new_def sample_rounds_def
      highest_round_def highest_certified_round_def highest_timeout_round_def highest_commit_round_def highest_commit_cert_def
      certified_block_def commit_info_def qc_ledger_info_def block_info_empty_def sync_info_epoch_def setup_timeout_def
      setup_deadline_def run_after_def get_round_index_after_committed_round_def add_duration_def DURATION_MAX_def
      add64_def sub64_def U64_MAX_def Let_def)
  from round_life.call [OF round_life.start _ this] show ?thesis
    by (simp add: call_ok_def)
qed

lemma map_values_ran:
  assumes "finite (dom m)"
  shows "set (map (\<lambda>d. the (m d)) (sorted_list_of_set (dom m))) = ran m"
  using assms by (auto simp: ran_def image_iff) force+

theorem round_certificates_verify_witness:
  "\<exists>s' res res'. round_insert_vote li_consensus_data_hash (sample_vote 5 4) sample_verifier sample_rounds = Some (s', res) \<and>
    get_round_certificate (\<lambda>m. map (\<lambda>d. the (m d)) (sorted_list_of_set (dom m))) sample_verifier s' = Some res'"
proof -
  let ?L = "{qc_ledger_info (sample_qc 5)}"
  note v = sample_votes_verified [of 4 5, simplified]
  have "vote_epoch (sample_vote 5 4) = 1" "vote_ledger_info (sample_vote 5 4) \<in> ?L" "inj_on li_consensus_data_hash ?L"
    by (simp_all add: vote_epoch_def sample_vote_def sample_qc_def block_info_empty_def)
  from round_certificates_verify [OF sample_rounds_life sample_verifier_ok this(3) v(1) this(1,2),
    of "\<lambda>m. map (\<lambda>d. the (m d)) (sorted_list_of_set (dom m))"] map_values_ran
  show ?thesis
    by blast
qed


end
