(* ===== verification/Block_Tree.thy ===== *)
theory Block_Tree
  imports Executor_Types
begin

text \<open>
  The blocks above the committed one (\<^verbatim>\<open>cfxcore/core/src/pos/consensus/block_storage/block_tree.rs\<close>, with
  \<^verbatim>\<open>executed_block.rs\<close>): a map of blocks with links to their children, the certificates known for them and the
  highest ones, and a queue of pruned blocks that are kept for a while. The children of a block are a list
  without duplicates, in the order in which the \<^verbatim>\<open>HashSet\<close> enumerates them. The macro
  \<^verbatim>\<open>checked_verify_eq!\<close> is an assertion, \<^verbatim>\<open>precondition!\<close> has no effect at run time.
\<close>

section \<open>Blocks\<close>

record executed_block =
  xb_block :: block
  xb_state_compute_result :: state_compute_result

abbreviation xb_id :: "executed_block \<Rightarrow> hash" where "xb_id self \<equiv> b_id (xb_block self)"
abbreviation xb_round :: "executed_block \<Rightarrow> round" where "xb_round self \<equiv> b_round (xb_block self)"

definition xb_parent_id :: "executed_block \<Rightarrow> hash" where
  "xb_parent_id self = bi_id (certified_block (b_quorum_cert (xb_block self)))"

definition xb_block_info :: "executed_block \<Rightarrow> block_info option" where
  "xb_block_info self =
     do { version \<leftarrow> sr_version (xb_state_compute_result self);
          Some (gen_block_info (xb_block self) (sr_root_hash (xb_state_compute_result self)) version
            (sr_epoch_state (xb_state_compute_result self)) (sr_pivot_decision (xb_state_compute_result self))) }"

record linkable_block =
  lb_executed_block :: executed_block
  lb_children :: "hash list"

definition add_child :: "hash \<Rightarrow> linkable_block \<Rightarrow> linkable_block option" where
  "add_child child_id self =
     do { assert_that (child_id \<notin> set (lb_children self)); Some (self\<lparr>lb_children := lb_children self @ [child_id]\<rparr>) }"

section \<open>The tree\<close>

record block_tree =
  tr_id_to_block :: "hash \<rightharpoonup> linkable_block"
  tr_root_id :: hash
  tr_highest_certified_block_id :: hash
  tr_highest_quorum_cert :: quorum_cert
  tr_highest_timeout_cert :: "timeout_certificate option"
  tr_highest_commit_cert :: quorum_cert
  tr_id_to_quorum_cert :: "hash \<rightharpoonup> quorum_cert"
  tr_pruned_block_ids :: "hash list"
  tr_max_pruned_blocks_in_mem :: nat

definition block_tree_new ::
  "executed_block \<Rightarrow> quorum_cert \<Rightarrow> quorum_cert \<Rightarrow> nat \<Rightarrow> timeout_certificate option \<Rightarrow> block_tree option" where
  "block_tree_new root root_quorum_cert root_ledger_info max_pruned_blocks_in_mem highest_timeout_cert =
     do { assert_that (xb_id root = bi_id (commit_info root_ledger_info));
          Some \<lparr>tr_id_to_block = [xb_id root \<mapsto> \<lparr>lb_executed_block = root, lb_children = []\<rparr>],
                tr_root_id = xb_id root, tr_highest_certified_block_id = xb_id root,
                tr_highest_quorum_cert = root_quorum_cert, tr_highest_timeout_cert = highest_timeout_cert,
                tr_highest_commit_cert = root_ledger_info,
                tr_id_to_quorum_cert = [bi_id (certified_block root_quorum_cert) \<mapsto> root_quorum_cert],
                tr_pruned_block_ids = [], tr_max_pruned_blocks_in_mem = max_pruned_blocks_in_mem\<rparr> }"

definition tr_get_block :: "hash \<Rightarrow> block_tree \<Rightarrow> executed_block option" where
  "tr_get_block block_id self = map_option lb_executed_block (tr_id_to_block self block_id)"

definition tr_root :: "block_tree \<Rightarrow> executed_block option" where
  "tr_root self = tr_get_block (tr_root_id self) self"

definition tr_highest_certified_block :: "block_tree \<Rightarrow> executed_block option" where
  "tr_highest_certified_block self = tr_get_block (tr_highest_certified_block_id self) self"

definition tr_remove_block :: "hash \<Rightarrow> block_tree \<Rightarrow> block_tree" where
  "tr_remove_block block_id self =
     self\<lparr>tr_id_to_block := (tr_id_to_block self)(block_id := None),
          tr_id_to_quorum_cert := (tr_id_to_quorum_cert self)(block_id := None)\<rparr>"

definition tr_insert_block :: "executed_block \<Rightarrow> block_tree \<Rightarrow> (block_tree \<times> (string + executed_block)) option" where
  "tr_insert_block block self =
     (case tr_get_block (xb_id block) self of
        Some existing_block \<Rightarrow>
          do { assert_that (xb_state_compute_result existing_block = xb_state_compute_result block);
               Some (self, Inr existing_block) }
      | None \<Rightarrow>
          (case tr_id_to_block self (xb_parent_id block) of
             None \<Rightarrow> Some (self, Inl ''Parent block not found'')
           | Some parent' \<Rightarrow>
               do { parent' \<leftarrow> add_child (xb_id block) parent';
                    Some (self\<lparr>tr_id_to_block := (tr_id_to_block self)(xb_parent_id block \<mapsto> parent',
                        xb_id block \<mapsto> \<lparr>lb_executed_block = block, lb_children = []\<rparr>)\<rparr>, Inr block) }))"

definition tr_insert_quorum_cert :: "quorum_cert \<Rightarrow> block_tree \<Rightarrow> (block_tree \<times> (string + unit)) option" where
  "tr_insert_quorum_cert qc self =
     (let block_id = bi_id (certified_block qc) in
      case tr_get_block block_id self of
        None \<Rightarrow> Some (self, Inl ''Block not found'')
      | Some block \<Rightarrow>
          do { highest \<leftarrow> tr_highest_certified_block self;
               let self = (if xb_round highest < xb_round block
                 then self\<lparr>tr_highest_certified_block_id := xb_id block, tr_highest_quorum_cert := qc\<rparr> else self);
               let self = (if tr_id_to_quorum_cert self block_id = None
                 then self\<lparr>tr_id_to_quorum_cert := (tr_id_to_quorum_cert self)(block_id \<mapsto> qc)\<rparr> else self);
               Some (if bi_round (commit_info (tr_highest_commit_cert self)) < bi_round (commit_info qc)
                 then self\<lparr>tr_highest_commit_cert := qc\<rparr> else self, Inr ()) })"

text \<open>
  The blocks of the old tree that are not in the tree of the new root. The head of the list \<open>blocks_to_be_pruned\<close>
  is the top of the stack; the loop has no result when a child is missing, which is a panic, or when the links have
  a cycle.
\<close>

fun push_children :: "block_tree \<Rightarrow> hash \<Rightarrow> hash list \<Rightarrow> linkable_block list \<Rightarrow> linkable_block list option" where
  "push_children self next_root_id [] blocks_to_be_pruned = Some blocks_to_be_pruned"
| "push_children self next_root_id (child_id # rest) blocks_to_be_pruned =
     (if next_root_id = child_id then push_children self next_root_id rest blocks_to_be_pruned
      else do { child \<leftarrow> tr_id_to_block self child_id;
                push_children self next_root_id rest (child # blocks_to_be_pruned) })"

partial_function (option) prune_loop ::
  "block_tree \<Rightarrow> hash \<Rightarrow> linkable_block list \<Rightarrow> hash list \<Rightarrow> hash list option" where
  "prune_loop self next_root_id blocks_to_be_pruned blocks_pruned =
     (case blocks_to_be_pruned of
        [] \<Rightarrow> Some blocks_pruned
      | block_to_remove # rest \<Rightarrow>
          do { blocks_to_be_pruned \<leftarrow> push_children self next_root_id (lb_children block_to_remove) rest;
               prune_loop self next_root_id blocks_to_be_pruned (blocks_pruned @ [xb_id (lb_executed_block block_to_remove)]) })"

definition find_blocks_to_prune :: "hash \<Rightarrow> block_tree \<Rightarrow> hash list option" where
  "find_blocks_to_prune next_root_id self =
     (if next_root_id = tr_root_id self then Some []
      else do { linkable_root \<leftarrow> tr_id_to_block self (tr_root_id self); prune_loop self next_root_id [linkable_root] [] })"

definition process_pruned_blocks :: "hash \<Rightarrow> hash list \<Rightarrow> block_tree \<Rightarrow> block_tree option" where
  "process_pruned_blocks root_id newly_pruned_blocks self =
     do { assert_that (tr_id_to_block self root_id \<noteq> None);
          let pruned = tr_pruned_block_ids self @ newly_pruned_blocks;
          let num_blocks_to_remove = length pruned - tr_max_pruned_blocks_in_mem self;
          Some (fold tr_remove_block (take num_blocks_to_remove pruned)
            (self\<lparr>tr_root_id := root_id, tr_pruned_block_ids := drop num_blocks_to_remove pruned\<rparr>)) }"

text \<open>The path down to the root; \<open>Some None\<close> when the block does not descend from the root.\<close>

partial_function (option) path_loop ::
  "block_tree \<Rightarrow> round \<Rightarrow> hash \<Rightarrow> executed_block list \<Rightarrow> (hash \<times> executed_block list) option option" where
  "path_loop self root_round cur_block_id res =
     (case tr_get_block cur_block_id self of
        None \<Rightarrow> Some None
      | Some block \<Rightarrow>
          if xb_round block \<le> root_round then Some (Some (cur_block_id, res))
          else path_loop self root_round (xb_parent_id block) (block # res))"

definition path_from_root :: "hash \<Rightarrow> block_tree \<Rightarrow> executed_block list option option" where
  "path_from_root block_id self =
     (case tr_get_block block_id self of
        None \<Rightarrow> Some None
      | Some _ \<Rightarrow>
          do { root \<leftarrow> tr_root self;
               found \<leftarrow> path_loop self (xb_round root) block_id [];
               Some (case found of
                   None \<Rightarrow> None
                 | Some (cur_block_id, res) \<Rightarrow> if cur_block_id \<noteq> tr_root_id self then None else Some res) })"

end
