(* ===== verification/Tree_Props.thy ===== *)
theory Tree_Props
  imports Block_Tree "HOL-Library.Multiset"
begin

text \<open>
  The block tree is a tree: the links to the children agree with the parents named in the blocks, the blocks
  that descend from the root are never removed, pruning removes exactly the others, and the path from the root
  to a block is the chain of its ancestors. The highest certificates are what their names say.
\<close>

section \<open>Ancestors\<close>

inductive descends :: "block_tree \<Rightarrow> hash \<Rightarrow> hash \<Rightarrow> bool" for t where
  self: "tr_get_block a t = Some x \<Longrightarrow> descends t a a"
| child: "tr_get_block b t = Some x \<Longrightarrow> descends t a (xb_parent_id x) \<Longrightarrow> descends t a b"

fun is_path :: "block_tree \<Rightarrow> hash \<Rightarrow> executed_block list \<Rightarrow> hash \<Rightarrow> bool" where
  "is_path t a [] b \<longleftrightarrow> a = b"
| "is_path t a (x # xs) b \<longleftrightarrow> tr_get_block (xb_id x) t = Some x \<and> xb_parent_id x = a \<and> is_path t (xb_id x) xs b"

definition links_ok :: "block_tree \<Rightarrow> bool" where
  "links_ok t \<longleftrightarrow> finite (dom (tr_id_to_block t)) \<and>
     (\<forall>i lb. tr_id_to_block t i = Some lb \<longrightarrow> xb_id (lb_executed_block lb) = i \<and> distinct (lb_children lb)) \<and>
     (\<forall>i lb c lc. tr_id_to_block t i = Some lb \<and> c \<in> set (lb_children lb) \<and> tr_id_to_block t c = Some lc \<longrightarrow>
        xb_parent_id (lb_executed_block lc) = i) \<and>
     (\<forall>c lc lb. tr_id_to_block t c = Some lc \<and> tr_id_to_block t (xb_parent_id (lb_executed_block lc)) = Some lb \<longrightarrow>
        c \<in> set (lb_children lb) \<and> xb_round (lb_executed_block lb) < xb_round (lb_executed_block lc))"

definition active_ok :: "block_tree \<Rightarrow> bool" where
  "active_ok t \<longleftrightarrow> tr_id_to_block t (tr_root_id t) \<noteq> None \<and>
     (\<forall>i lb c. descends t (tr_root_id t) i \<and> tr_id_to_block t i = Some lb \<and> c \<in> set (lb_children lb) \<longrightarrow> tr_id_to_block t c \<noteq> None) \<and>
     distinct (tr_pruned_block_ids t) \<and>
     (\<forall>i\<in>set (tr_pruned_block_ids t). tr_id_to_block t i \<noteq> None \<and> \<not> descends t (tr_root_id t) i)"

lemma tr_get_block_iff: "tr_get_block i t = Some x \<longleftrightarrow> (\<exists>lb. tr_id_to_block t i = Some lb \<and> lb_executed_block lb = x)"
  by (auto simp: tr_get_block_def)

lemma links_okD:
  assumes "links_ok t"
  shows "finite (dom (tr_id_to_block t))"
    and "tr_get_block i t = Some x \<Longrightarrow> xb_id x = i"
    and "tr_id_to_block t i = Some lb \<Longrightarrow> c \<in> set (lb_children lb) \<Longrightarrow> tr_get_block c t = Some x \<Longrightarrow> xb_parent_id x = i"
    and "tr_get_block c t = Some x \<Longrightarrow> tr_id_to_block t (xb_parent_id x) = Some lb \<Longrightarrow> c \<in> set (lb_children lb)"
    and "tr_get_block c t = Some x \<Longrightarrow> tr_get_block (xb_parent_id x) t = Some y \<Longrightarrow> xb_round y < xb_round x"
  using assms unfolding links_ok_def tr_get_block_iff by blast+

lemma descends_present: "descends t a b \<Longrightarrow> (\<exists>x. tr_get_block b t = Some x) \<and> (\<exists>x. tr_get_block a t = Some x)"
  by (induction rule: descends.induct) auto

lemma descends_trans: "descends t b c \<Longrightarrow> descends t a b \<Longrightarrow> descends t a c"
  by (induction rule: descends.induct) (auto intro: descends.child)

lemma descends_round:
  assumes "links_ok t" and "descends t a b" and "tr_get_block a t = Some x" and "tr_get_block b t = Some y"
  shows "xb_round x \<le> xb_round y \<and> (a \<noteq> b \<longrightarrow> xb_round x < xb_round y)"
  using assms(2-4)
proof (induction arbitrary: y rule: descends.induct)
  case (child b z a)
  obtain p where p: "tr_get_block (xb_parent_id z) t = Some p"
    using descends_present [OF child.hyps(2)] by blast
  then have "xb_round x \<le> xb_round p" "xb_round p < xb_round z"
    using child.IH [OF child.prems(1) p] links_okD(5) [OF assms(1) child.hyps(1) p] by simp_all
  then show ?case
    using child.hyps(1) child.prems(2) by simp
qed simp

lemma descends_cases_parent:
  assumes "descends t a b" and "a \<noteq> b"
  obtains x where "tr_get_block b t = Some x" "descends t a (xb_parent_id x)"
  using assms by (auto elim: descends.cases)

lemma descends_root_parent:
  assumes "links_ok t" and "tr_get_block b t = Some x"
  shows "\<not> descends t b (xb_parent_id x)"
proof
  assume d: "descends t b (xb_parent_id x)"
  then obtain p where p: "tr_get_block (xb_parent_id x) t = Some p"
    using descends_present by blast
  show False
    using descends_round [OF assms(1) d assms(2) p] links_okD(5) [OF assms(1,2) p] by simp
qed

section \<open>The path from the root\<close>

lemma is_path_snoc:
  "is_path t a xs p \<Longrightarrow> tr_get_block (xb_id x) t = Some x \<Longrightarrow> xb_parent_id x = p \<Longrightarrow> is_path t a (xs @ [x]) (xb_id x)"
  by (induction t a xs p rule: is_path.induct) auto

lemma path_loop_found:
  assumes "links_ok t" and "descends t a b" and "tr_get_block a t = Some r"
  shows "\<exists>path. path_loop t (xb_round r) b res = Some (Some (a, path @ res)) \<and> is_path t a path b"
  using assms(2,3)
proof (induction arbitrary: res rule: descends.induct)
  case (self a x)
  then show ?case
    by (subst path_loop.simps) (auto intro!: exI [of _ "[]"])
next
  case (child b x a)
  have "descends t a b"
    using child.hyps by (rule descends.child)
  moreover have "a \<noteq> b"
    using descends_root_parent [OF assms(1) child.hyps(1)] child.hyps(2) by blast
  ultimately have "xb_round r < xb_round x"
    using descends_round [OF assms(1) _ child.prems child.hyps(1)] by blast
  moreover obtain path where "path_loop t (xb_round r) (xb_parent_id x) (x # res) = Some (Some (a, path @ x # res))"
    "is_path t a path (xb_parent_id x)"
    using child.IH [OF child.prems] by blast
  ultimately show ?case
    using is_path_snoc [of t a path "xb_parent_id x" x] child.hyps(1) links_okD(2) [OF assms(1) child.hyps(1)]
    by (subst path_loop.simps) (auto intro!: exI [of _ "path @ [x]"])
qed

lemma path_loop_other:
  assumes "links_ok t" and "\<not> descends t a b" and "tr_get_block a t = Some r"
  shows "\<exists>found. path_loop t (xb_round r) b res = Some found \<and> (\<forall>c path. found = Some (c, path) \<longrightarrow> c \<noteq> a)"
  using assms(2)
proof (induction "case tr_get_block b t of None \<Rightarrow> 0 | Some x \<Rightarrow> Suc (xb_round x)" arbitrary: b res rule: less_induct)
  case less
  show ?case
  proof (cases "tr_get_block b t")
    case None
    then show ?thesis
      by (subst path_loop.simps) simp
  next
    case (Some x)
    show ?thesis
    proof (cases "xb_round x \<le> xb_round r")
      case True
      moreover have "b \<noteq> a"
        using less.prems descends.self [OF Some] by auto
      ultimately show ?thesis
        using Some by (subst path_loop.simps) simp
    next
      case False
      have "\<not> descends t a (xb_parent_id x)"
        using less.prems descends.child [OF Some] by blast
      moreover have "(case tr_get_block (xb_parent_id x) t of None \<Rightarrow> 0 | Some y \<Rightarrow> Suc (xb_round y)) < Suc (xb_round x)"
        using links_okD(5) [OF assms(1) Some] by (auto split: option.split)
      ultimately show ?thesis
        using less.hyps [of "xb_parent_id x" "x # res"] Some False by (subst path_loop.simps) simp
    qed
  qed
qed

lemma path_from_root_eq:
  assumes "links_ok t" and "active_ok t"
  shows "\<exists>found. path_from_root b t = Some found \<and>
    (case found of None \<Rightarrow> \<not> descends t (tr_root_id t) b | Some path \<Rightarrow> descends t (tr_root_id t) b \<and> is_path t (tr_root_id t) path b)"
proof (cases "tr_get_block b t")
  case None
  then have "\<not> descends t (tr_root_id t) b"
    using descends_present [of t "tr_root_id t" b] by auto
  then show ?thesis
    using None by (simp add: path_from_root_def)
next
  case (Some x)
  obtain r where r: "tr_get_block (tr_root_id t) t = Some r"
    using assms(2) by (auto simp: active_ok_def tr_get_block_iff)
  show ?thesis
  proof (cases "descends t (tr_root_id t) b")
    case True
    then show ?thesis
      using path_loop_found [OF assms(1) True r, of "[]"] Some r by (auto simp: path_from_root_def tr_root_def)
  next
    case False
    then show ?thesis
      using path_loop_other [OF assms(1) False r, of "[]"] Some r by (auto simp: path_from_root_def tr_root_def split: option.split)
  qed
qed

section \<open>Pruning\<close>

lemma push_children_eq:
  assumes "\<forall>c\<in>set cs. c \<noteq> R \<longrightarrow> tr_id_to_block t c \<noteq> None"
  shows "push_children t R cs stack = Some (rev (map (\<lambda>c. the (tr_id_to_block t c)) (filter (\<lambda>c. c \<noteq> R) cs)) @ stack)"
  using assms by (induction cs arbitrary: stack) auto

text \<open>A block of the active tree that does not descend from \<open>R\<close> and has not been visited yet.\<close>

definition to_visit :: "block_tree \<Rightarrow> hash \<Rightarrow> linkable_block \<Rightarrow> bool" where
  "to_visit t R lb \<longleftrightarrow> (let i = xb_id (lb_executed_block lb) in
     tr_id_to_block t i = Some lb \<and> descends t (tr_root_id t) i \<and> \<not> descends t R i)"

definition outside :: "block_tree \<Rightarrow> hash \<Rightarrow> linkable_block \<Rightarrow> hash set" where
  "outside t R lb = {y. descends t (xb_id (lb_executed_block lb)) y \<and> \<not> descends t R y}"

definition kept_children :: "block_tree \<Rightarrow> hash \<Rightarrow> linkable_block \<Rightarrow> linkable_block list" where
  "kept_children t R lb = rev (map (\<lambda>c. the (tr_id_to_block t c)) (filter (\<lambda>c. c \<noteq> R) (lb_children lb)))"

lemma child_descends:
  assumes "links_ok t" and "tr_id_to_block t i = Some lb" and "c \<in> set (lb_children lb)" and "tr_id_to_block t c = Some lc"
  shows "xb_id (lb_executed_block lc) = c" and "xb_parent_id (lb_executed_block lc) = i" and "descends t i c"
    and "xb_round (lb_executed_block lb) < xb_round (lb_executed_block lc)"
proof -
  have x: "tr_get_block c t = Some (lb_executed_block lc)" "tr_get_block i t = Some (lb_executed_block lb)"
    using assms(2,4) by (simp_all add: tr_get_block_def)
  show "xb_id (lb_executed_block lc) = c" and p: "xb_parent_id (lb_executed_block lc) = i"
    using links_okD(2,3) [OF assms(1)] assms(2,3) x(1) by blast+
  show "descends t i c"
    using descends.child [OF x(1)] descends.self [OF x(2)] p by simp
  show "xb_round (lb_executed_block lb) < xb_round (lb_executed_block lc)"
    using links_okD(5) [OF assms(1) x(1)] x(2) p by simp
qed

lemma kept_children_visit:
  assumes "links_ok t" and "active_ok t" and "to_visit t R lb"
  shows "push_children t R (lb_children lb) stack = Some (kept_children t R lb @ stack)"
    and "lc \<in> set (kept_children t R lb) \<Longrightarrow> to_visit t R lc \<and> xb_round (lb_executed_block lb) < xb_round (lb_executed_block lc)"
proof -
  let ?i = "xb_id (lb_executed_block lb)"
  have lb: "tr_id_to_block t ?i = Some lb" "descends t (tr_root_id t) ?i" "\<not> descends t R ?i"
    using assms(3) by (simp_all add: to_visit_def Let_def)
  then have present: "\<forall>c\<in>set (lb_children lb). tr_id_to_block t c \<noteq> None"
    using assms(2) unfolding active_ok_def by blast
  then show "push_children t R (lb_children lb) stack = Some (kept_children t R lb @ stack)"
    unfolding kept_children_def by (intro push_children_eq) blast
  show "to_visit t R lc \<and> xb_round (lb_executed_block lb) < xb_round (lb_executed_block lc)" if lc: "lc \<in> set (kept_children t R lb)"
  proof -
    obtain c where c: "c \<in> set (lb_children lb)" "c \<noteq> R" and e: "lc = the (tr_id_to_block t c)"
      using lc by (auto simp: kept_children_def)
    have "tr_id_to_block t c \<noteq> None"
      using present c(1) by blast
    then have c3: "tr_id_to_block t c = Some lc"
      unfolding e by simp
    note ch = child_descends [OF assms(1) lb(1) c(1) c3]
    have "\<not> descends t R c"
    proof
      assume "descends t R c"
      then obtain x where "tr_get_block c t = Some x" "descends t R (xb_parent_id x)"
        using c(2) by (metis descends_cases_parent)
      then have "descends t R (xb_parent_id (lb_executed_block lc))"
        using c3 by (simp add: tr_get_block_def)
      then show False
        using ch(2) lb(3) by simp
    qed
    then show ?thesis
      using ch c3 descends_trans [OF ch(3) lb(2)] by (simp add: to_visit_def Let_def)
  qed
qed

lemma descends_via_child:
  "descends t i y \<Longrightarrow> i = y \<or> (\<exists>c x. tr_get_block c t = Some x \<and> xb_parent_id x = i \<and> descends t c y)"
proof (induction rule: descends.induct)
  case (child b x a)
  then show ?case
    by (metis descends.child descends.self)
qed simp

lemma outside_children:
  assumes "links_ok t" and "active_ok t" and "to_visit t R lb"
  shows "outside t R lb = insert (xb_id (lb_executed_block lb)) (\<Union>lc\<in>set (kept_children t R lb). outside t R lc)"
    (is "_ = insert ?i ?U")
proof (intro equalityI subsetI)
  have lb: "tr_id_to_block t ?i = Some lb" "\<not> descends t R ?i"
    using assms(3) by (simp_all add: to_visit_def Let_def)
  show "y \<in> insert ?i ?U" if y: "y \<in> outside t R lb" for y
  proof (cases "y = ?i")
    case False
    then obtain c x where c: "tr_get_block c t = Some x" "xb_parent_id x = ?i" "descends t c y"
      using y descends_via_child [of t ?i y] by (auto simp: outside_def)
    then obtain lc where lc: "tr_id_to_block t c = Some lc" "xb_id (lb_executed_block lc) = c"
      using links_okD(2) [OF assms(1) c(1)] by (auto simp: tr_get_block_iff)
    have "c \<in> set (lb_children lb)" "c \<noteq> R"
      using links_okD(4) [OF assms(1) c(1)] c(2,3) lb(1) y by (auto simp: outside_def)
    then have "lc \<in> set (kept_children t R lb)"
      using lc(1) by (auto simp: kept_children_def image_iff intro!: bexI [of _ c])
    moreover have "y \<in> outside t R lc"
      using c(3) lc(2) y by (simp add: outside_def)
    ultimately show ?thesis
      by blast
  qed simp
  show "y \<in> outside t R lb" if y: "y \<in> insert ?i ?U" for y
  proof (cases "y = ?i")
    case True
    then show ?thesis
      using lb descends.self [of ?i t "lb_executed_block lb"] by (simp add: outside_def tr_get_block_def)
  next
    case False
    then obtain lc where lc: "lc \<in> set (kept_children t R lb)" "y \<in> outside t R lc"
      using y by blast
    then obtain c where "c \<in> set (lb_children lb)" "lc = the (tr_id_to_block t c)"
      by (auto simp: kept_children_def)
    moreover have "tr_id_to_block t (xb_id (lb_executed_block lc)) = Some lc"
      using kept_children_visit(2) [OF assms lc(1)] by (simp add: to_visit_def Let_def)
    moreover have "tr_id_to_block t c \<noteq> None" if "c \<in> set (lb_children lb)" for c
      using assms(2,3) that unfolding active_ok_def to_visit_def Let_def by blast
    ultimately have "descends t ?i (xb_id (lb_executed_block lc))"
      using child_descends(1,3) [OF assms(1) lb(1)] by (metis option.exhaust_sel)
    then show ?thesis
      using lc(2) descends_trans by (auto simp: outside_def)
  qed
qed

lemma descends_linear: "descends t a y \<Longrightarrow> descends t b y \<Longrightarrow> descends t a b \<or> descends t b a"
proof (induction rule: descends.induct)
  case (child y x a)
  show ?case
  proof (cases "b = y")
    case True
    then show ?thesis
      using child.hyps descends.child by blast
  next
    case False
    then have "descends t b (xb_parent_id x)"
      using child.prems child.hyps(1) by (metis descends_cases_parent option.inject)
    then show ?thesis
      by (rule child.IH)
  qed
qed simp

text \<open>The blocks on the stack have no descendants in common.\<close>

definition apart :: "block_tree \<Rightarrow> hash \<Rightarrow> linkable_block list \<Rightarrow> bool" where
  "apart t R stack \<longleftrightarrow> sorted_wrt (\<lambda>l l'. outside t R l \<inter> outside t R l' = {}) stack"

lemma siblings_apart:
  assumes "links_ok t" and "tr_id_to_block t i = Some lb" and "c \<in> set (lb_children lb)" and "c' \<in> set (lb_children lb)"
    and "tr_id_to_block t c = Some l" and "tr_id_to_block t c' = Some l'" and "c \<noteq> c'"
  shows "outside t R l \<inter> outside t R l' = {}"
proof -
  note ch = child_descends [OF assms(1,2,3,5)] and ch' = child_descends [OF assms(1,2,4,6)]
  have x: "tr_get_block c t = Some (lb_executed_block l)" "tr_get_block c' t = Some (lb_executed_block l')"
    using assms(5,6) by (simp_all add: tr_get_block_def)
  have "\<not> descends t c c'" "\<not> descends t c' c"
    using descends_root_parent [OF assms(1) x(1)] descends_root_parent [OF assms(1) x(2)] ch(2) ch'(2) x assms(7)
    by (metis descends_cases_parent option.inject)+
  then show ?thesis
    using descends_linear ch(1) ch'(1) by (auto simp: outside_def)
qed

lemma distinct_sorted_wrt: "distinct xs \<Longrightarrow> sorted_wrt (\<noteq>) xs"
  by (induction xs) auto

lemma kept_children_apart:
  assumes "links_ok t" and "active_ok t" and "to_visit t R lb"
  shows "apart t R (kept_children t R lb)"
proof -
  let ?i = "xb_id (lb_executed_block lb)"
  have lb: "tr_id_to_block t ?i = Some lb" "descends t (tr_root_id t) ?i"
    using assms(3) by (simp_all add: to_visit_def Let_def)
  have present: "\<exists>l. tr_id_to_block t c = Some l" if "c \<in> set (lb_children lb)" for c
    using assms(2) lb that unfolding active_ok_def by blast
  have "outside t R (the (tr_id_to_block t c)) \<inter> outside t R (the (tr_id_to_block t c')) = {}"
    if "c \<in> set (lb_children lb)" "c' \<in> set (lb_children lb)" "c \<noteq> c'" for c c'
    using siblings_apart [OF assms(1) lb(1) that(1,2) _ _ that(3)] present that by (metis option.sel)
  moreover have "sorted_wrt (\<noteq>) (rev (filter (\<lambda>c. c \<noteq> R) (lb_children lb)))"
  proof -
    have "distinct (lb_children lb)"
      using assms(1) lb(1) unfolding links_ok_def by blast
    then show ?thesis
      by (intro distinct_sorted_wrt) simp
  qed
  ultimately show ?thesis
    unfolding apart_def kept_children_def
    by (simp add: rev_map sorted_wrt_map) (rule sorted_wrt_mono_rel [of _ "(\<noteq>)"]; simp)
qed

lemma apart_step:
  assumes "links_ok t" and "active_ok t" and "to_visit t R lb" and "apart t R (lb # rest)"
  shows "apart t R (kept_children t R lb @ rest)"
  using assms(4) kept_children_apart [OF assms(1-3)] outside_children [OF assms(1-3)]
  by (auto simp: apart_def sorted_wrt_append)

lemma apart_fresh:
  assumes "links_ok t" and "active_ok t" and "to_visit t R lb" and "apart t R (lb # rest)"
  shows "xb_id (lb_executed_block lb) \<notin> (\<Union>l\<in>set (kept_children t R lb @ rest). outside t R l)"
proof
  let ?i = "xb_id (lb_executed_block lb)"
  assume "?i \<in> (\<Union>l\<in>set (kept_children t R lb @ rest). outside t R l)"
  then obtain l where l: "l \<in> set (kept_children t R lb @ rest)" "?i \<in> outside t R l"
    by blast
  have "?i \<in> outside t R lb"
    using outside_children [OF assms(1-3)] by blast
  then have "l \<in> set (kept_children t R lb)"
    using l assms(4) by (auto simp: apart_def)
  note v = kept_children_visit(2) [OF assms(1-3) this]
  have "tr_get_block ?i t = Some (lb_executed_block lb)" "tr_get_block (xb_id (lb_executed_block l)) t = Some (lb_executed_block l)"
    using assms(3) v by (simp_all add: to_visit_def Let_def tr_get_block_def)
  then show False
    using descends_round [OF assms(1), of "xb_id (lb_executed_block l)" ?i] l(2) v by (fastforce simp: outside_def)
qed

lemma prune_loop_ok:
  assumes "links_ok t" and "active_ok t" and "\<forall>lb\<in>set stack. to_visit t R lb" and "apart t R stack"
  shows "\<exists>ids. prune_loop t R stack pruned = Some (pruned @ ids) \<and> set ids = (\<Union>lb\<in>set stack. outside t R lb) \<and> distinct ids"
proof -
  obtain B where B: "\<And>i x. tr_get_block i t = Some x \<Longrightarrow> xb_round x \<le> B"
  proof -
    have "finite ((\<lambda>lb. xb_round (lb_executed_block lb)) ` ran (tr_id_to_block t))"
      using links_okD(1) [OF assms(1)] by (simp add: finite_ran)
    then have "xb_round x \<le> Max ((\<lambda>lb. xb_round (lb_executed_block lb)) ` ran (tr_id_to_block t))"
      if "tr_get_block i t = Some x" for i x
      using that by (intro Max_ge) (auto simp: tr_get_block_iff ran_def)
    then show thesis
      by (rule that)
  qed
  let ?w = "\<lambda>stack. image_mset (\<lambda>lb. B - xb_round (lb_executed_block lb)) (mset stack)"
  have "wf (inv_image (mult less_than) ?w)"
    by (intro wf_inv_image wf_mult wf_less_than)
  then show ?thesis
    using assms(3,4)
  proof (induction stack arbitrary: pruned rule: wf_induct_rule)
    case (less stack)
    show ?case
    proof (cases stack)
      case Nil
      then show ?thesis
        by (subst prune_loop.simps) simp
    next
      case (Cons lb rest)
      then have lb: "to_visit t R lb"
        using less.prems(1) by simp
      note kept = kept_children_visit [OF assms(1,2) lb]
      have "B - xb_round (lb_executed_block lc) < B - xb_round (lb_executed_block lb)" if "lc \<in> set (kept_children t R lb)" for lc
      proof -
        have "tr_get_block (xb_id (lb_executed_block lc)) t = Some (lb_executed_block lc)"
          using kept(2) [OF that] by (simp add: to_visit_def Let_def tr_get_block_def)
        then show ?thesis
          using B kept(2) [OF that] by fastforce
      qed
      then have "(?w rest + ?w (kept_children t R lb), ?w rest + {#B - xb_round (lb_executed_block lb)#}) \<in> mult less_than"
        by (intro one_step_implies_mult) auto
      then have smaller: "(kept_children t R lb @ rest, stack) \<in> inv_image (mult less_than) ?w"
        using Cons by (simp add: inv_image_def union_commute)
      have visit: "\<forall>lc\<in>set (kept_children t R lb @ rest). to_visit t R lc"
        using kept(2) less.prems(1) Cons by auto
      have ap: "apart t R (kept_children t R lb @ rest)"
        using apart_step [OF assms(1,2) lb] less.prems(2) unfolding Cons by blast
      let ?i = "xb_id (lb_executed_block lb)"
      obtain ids where ids: "prune_loop t R (kept_children t R lb @ rest) (pruned @ [?i]) = Some ((pruned @ [?i]) @ ids)"
        "set ids = (\<Union>lb\<in>set (kept_children t R lb @ rest). outside t R lb)" "distinct ids"
        using less.IH [OF smaller visit ap] by blast
      have 1: "prune_loop t R stack pruned = Some (pruned @ ?i # ids)"
        using ids(1) kept(1) by (subst prune_loop.simps) (simp add: Cons)
      have 2: "set (?i # ids) = (\<Union>lb\<in>set stack. outside t R lb)"
        using ids(2) outside_children [OF assms(1,2) lb] by (simp add: Cons Un_assoc)
      have "?i \<notin> set ids"
        using ids(2) apart_fresh [OF assms(1,2) lb] less.prems(2) unfolding Cons by blast
      then have "distinct (?i # ids)"
        using ids(3) by simp
      with 1 2 show ?thesis
        by blast
    qed
  qed
qed

lemma find_blocks_to_prune_ok:
  assumes "links_ok t" and "active_ok t" and "descends t (tr_root_id t) R"
  shows "\<exists>ids. find_blocks_to_prune R t = Some ids \<and> distinct ids \<and> set ids = {y. descends t (tr_root_id t) y \<and> \<not> descends t R y}"
proof (cases "R = tr_root_id t")
  case True
  then show ?thesis
    by (simp add: find_blocks_to_prune_def)
next
  case False
  obtain lb where lb: "tr_id_to_block t (tr_root_id t) = Some lb"
    using assms(2) by (auto simp: active_ok_def)
  then have x: "tr_get_block (tr_root_id t) t = Some (lb_executed_block lb)"
    by (simp add: tr_get_block_def)
  note i = links_okD(2) [OF assms(1) x]
  obtain y where y: "tr_get_block R t = Some y"
    using descends_present [OF assms(3)] by blast
  have "\<not> descends t R (tr_root_id t)"
    using descends_round [OF assms(1) _ y x] descends_round [OF assms(1,3) x y] False by force
  then have "to_visit t R lb"
    using lb i descends.self [OF x] by (simp add: to_visit_def Let_def)
  then show ?thesis
    using prune_loop_ok [OF assms(1,2), of "[lb]" R "[]"] lb False i by (auto simp: find_blocks_to_prune_def outside_def apart_def)
qed

section \<open>The invariant\<close>

text \<open>
  The certificates of the tree: the highest certified block is in the active tree and has the highest round of the
  certified blocks, and no certificate commits a higher round than the highest commit certificate.
\<close>

definition certs_ok :: "block_tree \<Rightarrow> bool" where
  "certs_ok t \<longleftrightarrow> descends t (tr_root_id t) (tr_highest_certified_block_id t) \<and>
     bi_id (certified_block (tr_highest_quorum_cert t)) = tr_highest_certified_block_id t \<and>
     (\<forall>i qc. tr_id_to_quorum_cert t i = Some qc \<longrightarrow> bi_id (certified_block qc) = i \<and> tr_id_to_block t i \<noteq> None \<and>
        bi_round (commit_info qc) \<le> bi_round (commit_info (tr_highest_commit_cert t))) \<and>
     (\<forall>i qc x h. tr_id_to_quorum_cert t i = Some qc \<and> tr_get_block i t = Some x \<and> tr_highest_certified_block t = Some h \<longrightarrow>
        xb_round x \<le> xb_round h)"

definition tree_ok :: "block_tree \<Rightarrow> bool" where
  "tree_ok t \<longleftrightarrow> links_ok t \<and> active_ok t \<and> certs_ok t"

lemma descends_mono:
  assumes "\<And>i x. tr_get_block i t = Some x \<Longrightarrow> tr_get_block i t' = Some x" and "descends t a b"
  shows "descends t' a b"
  using assms(2)
proof (induction rule: descends.induct)
  case (self a x)
  then show ?case
    by (auto intro: descends.self assms(1))
next
  case (child b x a)
  then show ?case
    by (auto intro: descends.child assms(1))
qed

lemma descends_kept:
  assumes "\<And>y. descends t R y \<Longrightarrow> tr_get_block y t' = tr_get_block y t" and "descends t R b"
  shows "descends t' R b"
  using assms(2,1)
proof (induction rule: descends.induct)
  case (self a x)
  then show ?case
    using descends.self [OF self.hyps] by (auto intro!: descends.self [of _ t' x])
next
  case (child b x a)
  have "tr_get_block b t' = Some x"
    using child.prems [OF descends.child [OF child.hyps]] child.hyps(1) by simp
  then show ?case
    using child.IH [OF child.prems] by (rule descends.child)
qed

lemma descends_cong:
  assumes "tr_id_to_block t' = tr_id_to_block t"
  shows "descends t' = descends t"
proof -
  have "tr_get_block i t' = tr_get_block i t" for i
    using assms by (simp add: tr_get_block_def)
  then show ?thesis
    by (intro ext iffI) (auto elim: descends_mono [rotated])
qed

text \<open>A new tree.\<close>

definition root_ok :: "executed_block \<Rightarrow> quorum_cert \<Rightarrow> quorum_cert \<Rightarrow> bool" where
  "root_ok root root_qc root_li \<longleftrightarrow> xb_id root = bi_id (commit_info root_li) \<and> bi_id (certified_block root_qc) = xb_id root \<and>
     xb_parent_id root \<noteq> xb_id root \<and> bi_round (commit_info root_qc) \<le> bi_round (commit_info root_li)"

lemma block_tree_new_ok:
  assumes "root_ok root root_qc root_li"
  shows "\<exists>t. block_tree_new root root_qc root_li n tc = Some t \<and> tree_ok t"
proof -
  let ?lb = "\<lparr>lb_executed_block = root, lb_children = []\<rparr>"
  obtain t where t: "block_tree_new root root_qc root_li n tc = Some t" "tr_id_to_block t = [xb_id root \<mapsto> ?lb]"
    "tr_root_id t = xb_id root" "tr_highest_certified_block_id t = xb_id root" "tr_highest_quorum_cert t = root_qc"
    "tr_highest_commit_cert t = root_li" "tr_id_to_quorum_cert t = [xb_id root \<mapsto> root_qc]" "tr_pruned_block_ids t = []"
    using assms by (simp add: block_tree_new_def root_ok_def)
  have root: "tr_get_block (xb_id root) t = Some root"
    using t(2) by (simp add: tr_get_block_def)
  have "links_ok t"
    using t(2) assms by (auto simp: links_ok_def root_ok_def split: if_splits)
  moreover have "active_ok t"
    using t(2,3,8) by (auto simp: active_ok_def split: if_splits)
  moreover have "certs_ok t"
    using t descends.self [OF root] assms root by (auto simp: certs_ok_def root_ok_def tr_highest_certified_block_def split: if_splits)
  ultimately show ?thesis
    using t(1) by (auto simp: tree_ok_def)
qed

text \<open>
  Inserting a block: execution gives the same result again; its parent, if the tree has it, is in the active tree and
  has a lower round; a block that the tree does not have is neither the parent nor a child of a block of the tree.
\<close>

definition block_fits :: "executed_block \<Rightarrow> block_tree \<Rightarrow> bool" where
  "block_fits block t \<longleftrightarrow>
     (\<forall>x. tr_get_block (xb_id block) t = Some x \<longrightarrow> xb_state_compute_result x = xb_state_compute_result block) \<and>
     (\<forall>p. tr_get_block (xb_parent_id block) t = Some p \<longrightarrow>
        xb_round p < xb_round block \<and> descends t (tr_root_id t) (xb_parent_id block)) \<and>
     (tr_id_to_block t (xb_id block) = None \<longrightarrow> (\<forall>i l. tr_id_to_block t i = Some l \<longrightarrow>
        xb_parent_id (lb_executed_block l) \<noteq> xb_id block \<and> xb_id block \<notin> set (lb_children l)))"

definition with_block :: "executed_block \<Rightarrow> linkable_block \<Rightarrow> block_tree \<Rightarrow> block_tree" where
  "with_block block lb t = t\<lparr>tr_id_to_block := (tr_id_to_block t)(
     xb_parent_id block \<mapsto> lb\<lparr>lb_children := lb_children lb @ [xb_id block]\<rparr>,
     xb_id block \<mapsto> \<lparr>lb_executed_block = block, lb_children = []\<rparr>)\<rparr>"

definition extends :: "executed_block \<Rightarrow> linkable_block \<Rightarrow> block_tree \<Rightarrow> bool" where
  "extends block lb t \<longleftrightarrow> tr_id_to_block t (xb_id block) = None \<and> tr_id_to_block t (xb_parent_id block) = Some lb \<and> block_fits block t"

lemma extendsD:
  assumes "extends block lb t"
  shows "xb_parent_id block \<noteq> xb_id block" and "xb_id block \<notin> set (lb_children lb)"
    and "xb_round (lb_executed_block lb) < xb_round block" and "descends t (tr_root_id t) (xb_parent_id block)"
    and "tr_id_to_block t i = Some l \<Longrightarrow> xb_parent_id (lb_executed_block l) \<noteq> xb_id block \<and> xb_id block \<notin> set (lb_children l)"
    and "tr_id_to_block t (xb_id block) = None" and "tr_id_to_block t (xb_parent_id block) = Some lb"
  using assms by (auto simp: extends_def block_fits_def tr_get_block_def)

lemma with_block_links:
  assumes "links_ok t" and "extends block lb t"
  shows "links_ok (with_block block lb t)"
proof -
  let ?m = "tr_id_to_block (with_block block lb t)"
  note f = extendsD [OF assms(2)]
  have "finite (dom ?m)"
    using links_okD(1) [OF assms(1)] by (simp add: with_block_def)
  moreover have "xb_id (lb_executed_block l) = i \<and> distinct (lb_children l)" if "?m i = Some l" for i l
    using that assms(1) f(2,7) unfolding links_ok_def by (auto simp: with_block_def split: if_splits)
  moreover have "xb_parent_id (lb_executed_block l') = i"
    if "?m i = Some l" "c \<in> set (lb_children l)" "?m c = Some l'" for i l c l'
    using that assms(1) f(1) f(5) [of i l] f(6,7) unfolding links_ok_def by (auto simp: with_block_def split: if_splits)
  moreover have "c \<in> set (lb_children l) \<and> xb_round (lb_executed_block l) < xb_round (lb_executed_block l')"
    if l: "?m c = Some l'" "?m (xb_parent_id (lb_executed_block l')) = Some l" for c l l'
  proof (cases "c = xb_id block")
    case True
    then show ?thesis
      using l f(1,3) by (auto simp: with_block_def)
  next
    case False
    then obtain k' where k': "tr_id_to_block t c = Some k'" "lb_executed_block k' = lb_executed_block l'"
      using l(1) f(7) by (auto simp: with_block_def split: if_splits)
    then have "xb_parent_id (lb_executed_block l') \<noteq> xb_id block"
      using f(5) [of c k'] by simp
    then obtain k where k: "tr_id_to_block t (xb_parent_id (lb_executed_block l')) = Some k"
      "lb_executed_block k = lb_executed_block l" "set (lb_children k) \<subseteq> set (lb_children l)"
      using l(2) f(7) by (auto simp: with_block_def subset_insertI split: if_splits)
    then show ?thesis
      using assms(1) k' unfolding links_ok_def by (metis subsetD)
  qed
  ultimately show ?thesis
    unfolding links_ok_def by blast
qed

lemma with_block_get:
  assumes "extends block lb t"
  shows "tr_get_block i (with_block block lb t) = (if i = xb_id block then Some block else tr_get_block i t)"
  using extendsD(1,7) [OF assms] by (simp add: tr_get_block_def with_block_def)

lemma with_block_descends:
  assumes "extends block lb t"
  shows "descends (with_block block lb t) a b \<longleftrightarrow>
    descends t a b \<or> b = xb_id block \<and> (a = xb_id block \<or> descends t a (xb_parent_id block))"
proof
  note f = extendsD [OF assms] and get = with_block_get [OF assms]
  show "descends t a b \<or> b = xb_id block \<and> (a = xb_id block \<or> descends t a (xb_parent_id block))"
    if "descends (with_block block lb t) a b"
    using that
  proof (induction rule: descends.induct)
    case (self a x)
    then show ?case
      by (auto simp: get intro: descends.self split: if_splits)
  next
    case (child b x a)
    show ?case
    proof (cases "b = xb_id block")
      case True
      then show ?thesis
        using child.IH child.hyps(1) f(1) by (auto simp: get)
    next
      case False
      then have b: "tr_get_block b t = Some x"
        using child.hyps(1) by (simp add: get)
      then have "xb_parent_id x \<noteq> xb_id block"
        using f(5) by (auto simp: tr_get_block_iff)
      then show ?thesis
        using child.IH descends.child [OF b] by blast
    qed
  qed
  have "tr_get_block i (with_block block lb t) = Some x" if "tr_get_block i t = Some x" for i x
  proof -
    have "i \<noteq> xb_id block"
      using that f(6) by (auto simp: tr_get_block_def)
    then show ?thesis
      using that by (simp add: get)
  qed
  then have mono: "descends t a b \<Longrightarrow> descends (with_block block lb t) a b" for a b
    by (rule descends_mono)
  show "descends (with_block block lb t) a b"
    if "descends t a b \<or> b = xb_id block \<and> (a = xb_id block \<or> descends t a (xb_parent_id block))"
    using that mono descends.self [of "xb_id block" "with_block block lb t" block]
      descends.child [of "xb_id block" "with_block block lb t" block a] by (auto simp: get)
qed

lemma with_block_active:
  assumes "active_ok t" and "extends block lb t"
  shows "active_ok (with_block block lb t)"
proof -
  let ?t = "with_block block lb t"
  note f = extendsD [OF assms(2)] and desc = with_block_descends [OF assms(2)]
  have same: "tr_root_id ?t = tr_root_id t" "tr_pruned_block_ids ?t = tr_pruned_block_ids t"
    by (simp_all add: with_block_def)
  have kept: "tr_id_to_block ?t i \<noteq> None" if "tr_id_to_block t i \<noteq> None" for i
    using that by (auto simp: with_block_def)
  have "tr_id_to_block ?t c \<noteq> None" if a: "descends ?t (tr_root_id t) i" "tr_id_to_block ?t i = Some l" "c \<in> set (lb_children l)" for i l c
  proof (cases "c = xb_id block")
    case True
    then show ?thesis
      by (simp add: with_block_def)
  next
    case False
    have i: "i \<noteq> xb_id block"
      using a(2,3) by (auto simp: with_block_def)
    then have "descends t (tr_root_id t) i"
      using a(1) by (simp add: desc)
    moreover obtain k where "tr_id_to_block t i = Some k" "c \<in> set (lb_children k)"
      using a(2,3) False i f(7) by (auto simp: with_block_def split: if_splits)
    ultimately show ?thesis
      using assms(1) kept unfolding active_ok_def by blast
  qed
  moreover have "tr_id_to_block ?t i \<noteq> None \<and> \<not> descends ?t (tr_root_id t) i" if "i \<in> set (tr_pruned_block_ids t)" for i
    using that assms(1) kept f(6) unfolding active_ok_def desc by blast
  ultimately show ?thesis
    using assms(1) kept unfolding active_ok_def same by blast
qed

lemma with_block_certs:
  assumes "certs_ok t" and "extends block lb t"
  shows "certs_ok (with_block block lb t)"
proof -
  let ?t = "with_block block lb t"
  note f = extendsD [OF assms(2)] and desc = with_block_descends [OF assms(2)] and get = with_block_get [OF assms(2)]
  have same: "tr_root_id ?t = tr_root_id t" "tr_highest_certified_block_id ?t = tr_highest_certified_block_id t"
    "tr_highest_quorum_cert ?t = tr_highest_quorum_cert t" "tr_highest_commit_cert ?t = tr_highest_commit_cert t"
    "tr_id_to_quorum_cert ?t = tr_id_to_quorum_cert t"
    by (simp_all add: with_block_def)
  have ne: "i \<noteq> xb_id block" if "tr_id_to_block t i \<noteq> None" for i
    using that f(6) by auto
  have "tr_get_block (tr_highest_certified_block_id t) t \<noteq> None"
    using assms(1) descends_present unfolding certs_ok_def by blast
  then have "tr_highest_certified_block_id t \<noteq> xb_id block"
    by (intro ne) (simp add: tr_get_block_def)
  then have "tr_highest_certified_block ?t = tr_highest_certified_block t"
    unfolding tr_highest_certified_block_def same by (simp add: get)
  moreover have "tr_get_block i ?t = tr_get_block i t \<and> tr_id_to_block ?t i \<noteq> None" if "tr_id_to_quorum_cert t i = Some qc" for i qc
  proof -
    have "tr_id_to_block t i \<noteq> None"
      using that assms(1) unfolding certs_ok_def by blast
    then show ?thesis
      using ne [of i] get [of i] by (auto simp: tr_get_block_def)
  qed
  ultimately show ?thesis
    using assms(1) unfolding certs_ok_def same desc by metis
qed

lemma tr_insert_block_ok:
  assumes "tree_ok t" and "block_fits block t"
  shows "\<exists>t' res. tr_insert_block block t = Some (t', res) \<and> tree_ok t' \<and>
    (case res of
       Inr x \<Rightarrow> tr_get_block (xb_id block) t' = Some x \<and> (\<forall>i y. tr_get_block i t = Some y \<longrightarrow> tr_get_block i t' = Some y)
     | Inl _ \<Rightarrow> t' = t \<and> tr_get_block (xb_parent_id block) t = None)"
proof (cases "tr_id_to_block t (xb_id block)")
  case (Some l)
  then show ?thesis
    using assms by (simp add: tr_get_block_def tr_insert_block_def block_fits_def)
next
  case None
  show ?thesis
  proof (cases "tr_id_to_block t (xb_parent_id block)")
    case None
    then show ?thesis
      using \<open>tr_id_to_block t (xb_id block) = None\<close> assms(1) by (simp add: tr_get_block_def tr_insert_block_def)
  next
    case (Some lb)
    have e: "extends block lb t"
      using Some None assms(2) by (simp add: extends_def)
    note f = extendsD [OF e] and get = with_block_get [OF e]
    have "tr_insert_block block t = Some (with_block block lb t, Inr block)"
      using None Some f(2) by (simp add: tr_insert_block_def tr_get_block_def add_child_def with_block_def)
    moreover have "tree_ok (with_block block lb t)"
      using assms(1) e with_block_links with_block_active with_block_certs unfolding tree_ok_def by blast
    moreover have "tr_get_block i (with_block block lb t) = Some y" if "tr_get_block i t = Some y" for i y
      using that f(6) by (auto simp: get tr_get_block_iff)
    ultimately show ?thesis
      by (simp add: get)
  qed
qed

text \<open>Inserting a certificate of a block of the active tree.\<close>

lemma tr_insert_quorum_cert_ok:
  assumes "tree_ok t" and "descends t (tr_root_id t) (bi_id (certified_block qc))"
  shows "\<exists>t'. tr_insert_quorum_cert qc t = Some (t', Inr ()) \<and> tree_ok t' \<and> tr_id_to_block t' = tr_id_to_block t \<and>
    tr_root_id t' = tr_root_id t \<and> tr_id_to_quorum_cert t' (bi_id (certified_block qc)) \<noteq> None \<and>
    (\<exists>h h'. tr_highest_certified_block t = Some h \<and> tr_highest_certified_block t' = Some h' \<and> xb_round h \<le> xb_round h')"
proof -
  let ?i = "bi_id (certified_block qc)"
  have ok: "links_ok t" "active_ok t" "certs_ok t"
    using assms(1) by (simp_all add: tree_ok_def)
  obtain x where x: "tr_get_block ?i t = Some x"
    using descends_present [OF assms(2)] by blast
  note xid = links_okD(2) [OF ok(1) x]
  obtain h where h: "tr_highest_certified_block t = Some h"
    using ok(3) descends_present unfolding certs_ok_def tr_highest_certified_block_def by blast
  define t1 where "t1 = (if xb_round h < xb_round x then t\<lparr>tr_highest_certified_block_id := ?i, tr_highest_quorum_cert := qc\<rparr> else t)"
  define t2 where "t2 = (if tr_id_to_quorum_cert t1 ?i = None then t1\<lparr>tr_id_to_quorum_cert := (tr_id_to_quorum_cert t1)(?i \<mapsto> qc)\<rparr> else t1)"
  define t3 where "t3 = (if bi_round (commit_info (tr_highest_commit_cert t2)) < bi_round (commit_info qc)
    then t2\<lparr>tr_highest_commit_cert := qc\<rparr> else t2)"
  have ins: "tr_insert_quorum_cert qc t = Some (t3, Inr ())"
    using x h xid by (simp add: tr_insert_quorum_cert_def t1_def t2_def t3_def Let_def)
  have same: "tr_id_to_block t3 = tr_id_to_block t" "tr_root_id t3 = tr_root_id t" "tr_pruned_block_ids t3 = tr_pruned_block_ids t"
    by (simp_all add: t1_def t2_def t3_def)
  have get: "tr_get_block i t3 = tr_get_block i t" for i
    by (simp add: tr_get_block_def same)
  have desc: "descends t3 = descends t"
    using same(1) by (rule descends_cong)
  have high: "tr_highest_certified_block_id t3 = (if xb_round h < xb_round x then ?i else tr_highest_certified_block_id t)"
    "tr_highest_quorum_cert t3 = (if xb_round h < xb_round x then qc else tr_highest_quorum_cert t)"
    by (simp_all add: t1_def t2_def t3_def)
  have h3: "tr_highest_certified_block t3 = Some (if xb_round h < xb_round x then x else h)"
    using x h by (simp add: tr_highest_certified_block_def high get)
  have certs: "tr_id_to_quorum_cert t3 = (if tr_id_to_quorum_cert t ?i = None then (tr_id_to_quorum_cert t)(?i \<mapsto> qc) else tr_id_to_quorum_cert t)"
    by (auto simp: t1_def t2_def t3_def)
  have com: "bi_round (commit_info (tr_highest_commit_cert t3)) =
    max (bi_round (commit_info (tr_highest_commit_cert t))) (bi_round (commit_info qc))"
    by (simp add: t1_def t2_def t3_def max_def)
  have "certs_ok t3"
    unfolding certs_ok_def desc same get h3
  proof (intro conjI allI impI)
    show "descends t (tr_root_id t) (tr_highest_certified_block_id t3)"
      using assms(2) ok(3) by (simp add: high certs_ok_def)
    show "bi_id (certified_block (tr_highest_quorum_cert t3)) = tr_highest_certified_block_id t3"
      using ok(3) by (simp add: high certs_ok_def)
  next
    fix i q
    assume q: "tr_id_to_quorum_cert t3 i = Some q"
    then have "tr_id_to_quorum_cert t i = Some q \<or> i = ?i \<and> q = qc"
      by (auto simp: certs split: if_splits)
    moreover have "tr_id_to_block t ?i \<noteq> None"
      using x by (auto simp: tr_get_block_def)
    ultimately show "bi_id (certified_block q) = i" "tr_id_to_block t i \<noteq> None"
      "bi_round (commit_info q) \<le> bi_round (commit_info (tr_highest_commit_cert t3))"
      using ok(3) unfolding certs_ok_def com by fastforce+
  next
    fix i q y z
    assume a: "tr_id_to_quorum_cert t3 i = Some q \<and> tr_get_block i t = Some y \<and> Some (if xb_round h < xb_round x then x else h) = Some z"
    then have "tr_id_to_quorum_cert t i = Some q \<or> i = ?i"
      by (auto simp: certs split: if_splits)
    then have "xb_round y \<le> xb_round h \<or> y = x"
      using ok(3) h a x unfolding certs_ok_def by force
    then show "xb_round y \<le> xb_round z"
      using a by auto
  qed
  moreover have "links_ok t3" "active_ok t3"
    using ok(1,2) unfolding links_ok_def active_ok_def same desc by blast+
  ultimately show ?thesis
    using ins same h h3 certs by (auto simp: tree_ok_def)
qed

text \<open>Moving the root: the new root is in the active tree, and so is the highest certified block above it.\<close>

lemma fold_remove:
  "tr_id_to_block (fold tr_remove_block ids t) i = (if i \<in> set ids then None else tr_id_to_block t i)"
  "tr_id_to_quorum_cert (fold tr_remove_block ids t) i = (if i \<in> set ids then None else tr_id_to_quorum_cert t i)"
  "tr_root_id (fold tr_remove_block ids t) = tr_root_id t" "tr_pruned_block_ids (fold tr_remove_block ids t) = tr_pruned_block_ids t"
  "tr_highest_certified_block_id (fold tr_remove_block ids t) = tr_highest_certified_block_id t"
  "tr_highest_quorum_cert (fold tr_remove_block ids t) = tr_highest_quorum_cert t"
  "tr_highest_commit_cert (fold tr_remove_block ids t) = tr_highest_commit_cert t"
  "tr_highest_timeout_cert (fold tr_remove_block ids t) = tr_highest_timeout_cert t"
  "tr_max_pruned_blocks_in_mem (fold tr_remove_block ids t) = tr_max_pruned_blocks_in_mem t"
  by (induction ids arbitrary: t) (auto simp: tr_remove_block_def)

lemma links_ok_removed:
  assumes "links_ok t" and sub: "\<And>i lb. tr_id_to_block t' i = Some lb \<Longrightarrow> tr_id_to_block t i = Some lb"
  shows "links_ok t'"
proof -
  have "dom (tr_id_to_block t') \<subseteq> dom (tr_id_to_block t)"
    using sub by blast
  then have "finite (dom (tr_id_to_block t'))"
    using links_okD(1) [OF assms(1)] finite_subset by blast
  then show ?thesis
    using assms(1) sub unfolding links_ok_def by meson
qed

text \<open>The tree \<open>t'\<close> with the root \<open>R\<close> keeps the blocks that descend from \<open>R\<close>; \<open>ids\<close> are not among them.\<close>

definition moved_to :: "hash \<Rightarrow> hash list \<Rightarrow> hash list \<Rightarrow> block_tree \<Rightarrow> block_tree \<Rightarrow> bool" where
  "moved_to R removed ids t t' \<longleftrightarrow> tr_root_id t' = R \<and> tr_pruned_block_ids t' = ids \<and> distinct (removed @ ids) \<and>
     (\<forall>i\<in>set (removed @ ids). \<not> descends t R i \<and> tr_id_to_block t i \<noteq> None) \<and>
     (\<forall>i. tr_id_to_block t' i = (if i \<in> set removed then None else tr_id_to_block t i)) \<and>
     (\<forall>i. tr_id_to_quorum_cert t' i = (if i \<in> set removed then None else tr_id_to_quorum_cert t i)) \<and>
     tr_highest_certified_block_id t' = tr_highest_certified_block_id t \<and>
     tr_highest_quorum_cert t' = tr_highest_quorum_cert t \<and> tr_highest_commit_cert t' = tr_highest_commit_cert t"

lemma moved_to_descends:
  assumes "moved_to R removed ids t t'"
  shows "descends t' a b \<Longrightarrow> descends t a b" and "descends t R b \<Longrightarrow> descends t' R b"
    and "descends t R b \<Longrightarrow> tr_id_to_block t' b = tr_id_to_block t b \<and> tr_id_to_quorum_cert t' b = tr_id_to_quorum_cert t b"
proof -
  have get: "tr_get_block i t' = (if i \<in> set removed then None else tr_get_block i t)" for i
    using assms by (simp add: moved_to_def tr_get_block_def)
  have gone: "i \<notin> set removed" if "descends t R i" for i
    using that assms by (auto simp: moved_to_def)
  show "descends t' a b \<Longrightarrow> descends t a b"
    by (rule descends_mono) (auto simp: get split: if_splits)
  show "descends t R b \<Longrightarrow> descends t' R b"
    using gone by (intro descends_kept [of t R t' b]) (simp_all add: get)
  show "descends t R b \<Longrightarrow> tr_id_to_block t' b = tr_id_to_block t b \<and> tr_id_to_quorum_cert t' b = tr_id_to_quorum_cert t b"
    using gone assms by (auto simp: moved_to_def)
qed

lemma moved_to_active:
  assumes "links_ok t" and "active_ok t" and "descends t (tr_root_id t) R" and "moved_to R removed ids t t'"
  shows "active_ok t'"
proof -
  note d = moved_to_descends [OF assms(4)]
  have m: "tr_root_id t' = R" "tr_pruned_block_ids t' = ids" "distinct ids"
    "\<And>i. i \<in> set ids \<Longrightarrow> i \<notin> set removed \<and> \<not> descends t R i \<and> tr_id_to_block t i \<noteq> None"
    "\<And>i. i \<notin> set removed \<Longrightarrow> tr_id_to_block t' i = tr_id_to_block t i"
    using assms(4) by (auto simp: moved_to_def)
  have "descends t R R"
    using descends_present [OF assms(3)] descends.self by blast
  then have "tr_id_to_block t' R \<noteq> None"
    using d(3) descends_present [OF assms(3)] by (auto simp: tr_get_block_iff)
  moreover have "tr_id_to_block t' c \<noteq> None" if a: "descends t' R i" "tr_id_to_block t' i = Some l" "c \<in> set (lb_children l)" for i l c
  proof -
    have i: "descends t R i" "tr_id_to_block t i = Some l"
      using d(1,3) a(1,2) by auto
    then have "descends t (tr_root_id t) i"
      using descends_trans assms(3) by blast
    then obtain lc where "tr_id_to_block t c = Some lc"
      using assms(2) i(2) a(3) unfolding active_ok_def by blast
    then show ?thesis
      using d(3) child_descends(3) [OF assms(1) i(2) a(3)] descends_trans i(1) by (metis option.distinct(1))
  qed
  ultimately show ?thesis
    using m d(1) unfolding active_ok_def by metis
qed

lemma moved_to_certs:
  assumes "certs_ok t" and "descends t R (tr_highest_certified_block_id t)" and "moved_to R removed ids t t'"
  shows "certs_ok t'"
proof -
  note d = moved_to_descends [OF assms(3)]
  have m: "tr_root_id t' = R" "tr_highest_certified_block_id t' = tr_highest_certified_block_id t"
    "tr_highest_quorum_cert t' = tr_highest_quorum_cert t" "tr_highest_commit_cert t' = tr_highest_commit_cert t"
    using assms(3) by (simp_all add: moved_to_def)
  have q: "tr_id_to_quorum_cert t i = Some qc \<and> tr_id_to_block t' i = tr_id_to_block t i" if "tr_id_to_quorum_cert t' i = Some qc" for i qc
    using assms(3) that by (auto simp: moved_to_def split: if_splits)
  have h: "tr_highest_certified_block t' = tr_highest_certified_block t"
    using d(3) [OF assms(2)] by (simp add: tr_highest_certified_block_def m tr_get_block_def)
  have g: "tr_get_block i t' = tr_get_block i t" if "tr_id_to_quorum_cert t' i = Some qc" for i qc
    using q [OF that] by (simp add: tr_get_block_def)
  show ?thesis
    using assms(1) d(2) [OF assms(2)] q g unfolding certs_ok_def m h by metis
qed

lemma prune_tree_ok:
  assumes "tree_ok t" and "descends t (tr_root_id t) R" and "descends t R (tr_highest_certified_block_id t)"
  shows "\<exists>ids t'. find_blocks_to_prune R t = Some ids \<and> distinct ids \<and>
    set ids = {y. descends t (tr_root_id t) y \<and> \<not> descends t R y} \<and>
    process_pruned_blocks R ids t = Some t' \<and> tree_ok t' \<and> tr_root_id t' = R \<and>
    (\<forall>y. descends t R y \<longrightarrow> tr_id_to_block t' y = tr_id_to_block t y \<and> tr_id_to_quorum_cert t' y = tr_id_to_quorum_cert t y) \<and>
    (\<forall>y. descends t' R y \<longleftrightarrow> descends t R y) \<and> length (tr_pruned_block_ids t') \<le> tr_max_pruned_blocks_in_mem t"
proof -
  have ok: "links_ok t" "active_ok t" "certs_ok t"
    using assms(1) by (simp_all add: tree_ok_def)
  obtain ids where ids: "find_blocks_to_prune R t = Some ids" "distinct ids"
    "set ids = {y. descends t (tr_root_id t) y \<and> \<not> descends t R y}"
    using find_blocks_to_prune_ok [OF ok(1,2) assms(2)] by blast
  define ps where "ps = tr_pruned_block_ids t @ ids"
  define n where "n = length ps - tr_max_pruned_blocks_in_mem t"
  define t' where "t' = fold tr_remove_block (take n ps) (t\<lparr>tr_root_id := R, tr_pruned_block_ids := drop n ps\<rparr>)"
  have "tr_id_to_block t R \<noteq> None"
    using descends_present [OF assms(2)] by (auto simp: tr_get_block_def)
  then have proc: "process_pruned_blocks R ids t = Some t'"
    by (simp add: process_pruned_blocks_def t'_def ps_def n_def Let_def)
  have "\<not> descends t R y \<and> tr_id_to_block t y \<noteq> None" if "y \<in> set ps" for y
    using that ok(2) ids(3) descends_trans [of t R y "tr_root_id t"] assms(2) descends_present [of t "tr_root_id t" y]
    unfolding ps_def active_ok_def by (auto simp: tr_get_block_def)
  moreover have "distinct ps"
    using ok(2) ids(2,3) unfolding ps_def active_ok_def by auto
  ultimately have m: "moved_to R (take n ps) (drop n ps) t t'"
    by (simp add: moved_to_def t'_def fold_remove)
  have "links_ok t'"
    using m by (intro links_ok_removed [OF ok(1)]) (auto simp: moved_to_def split: if_splits)
  then have "tree_ok t'"
    using moved_to_active [OF ok(1,2) assms(2) m] moved_to_certs [OF ok(3) assms(3) m] by (simp add: tree_ok_def)
  moreover have "tr_root_id t' = R" "length (tr_pruned_block_ids t') \<le> tr_max_pruned_blocks_in_mem t"
    using m by (simp_all add: moved_to_def n_def)
  ultimately show ?thesis
    using ids proc moved_to_descends [OF m] by blast
qed

end
