(* ===== verification/Block_Store.thy ===== *)
theory Block_Store
  imports Tree_Props
begin

text \<open>
  The block store (\<^verbatim>\<open>cfxcore/core/src/pos/consensus/block_storage/block_store.rs\<close>): the block tree together with the
  executor and the database behind it. The executor is the trait \<^verbatim>\<open>StateComputer\<close>, an argument with a state of
  its own; what is written to the database is recorded in order, and whether a write succeeds is an argument. The
  last part shows that the store keeps the invariant of the tree and that a commit hands exactly the chain
  of blocks up to the committed one to the executor.
\<close>

section \<open>The store\<close>

record 'e state_computer =
  cmp_compute :: "block \<Rightarrow> hash \<Rightarrow> bool \<Rightarrow> 'e \<Rightarrow> ('e \<times> (executor_error + state_compute_result)) option"
  cmp_commit :: "hash list \<Rightarrow> ledger_info_with_signatures \<Rightarrow> 'e \<Rightarrow> ('e \<times> (executor_error + unit)) option"

datatype db_write =
  SaveTree "block list" "quorum_cert list"
| SaveHighestTimeoutCert timeout_certificate
| SaveLedgerBlocks "block list"
| PruneTree "hash list"

datatype store_error = StoreMsg string | ExecError executor_error

record 'e block_store =
  bs_inner :: block_tree
  bs_computer :: 'e
  bs_written :: "db_write list"

definition bs_save :: "bool \<Rightarrow> db_write \<Rightarrow> 'e block_store \<Rightarrow> ('e block_store \<times> (store_error + unit)) option" where
  "bs_save io w self =
     Some (if io then (self\<lparr>bs_written := bs_written self @ [w]\<rparr>, Inr ()) else (self, Inl (StoreMsg ''Insert block failed when saving'')))"

definition bs_execute_block ::
  "'e state_computer \<Rightarrow> block \<Rightarrow> bool \<Rightarrow> 'e block_store \<Rightarrow> ('e block_store \<times> (executor_error + executed_block)) option" where
  "bs_execute_block cmp block catch_up_mode self =
     do { (computer, result) \<leftarrow> cmp_compute cmp block (b_parent_id block) catch_up_mode (bs_computer self);
          Some (self\<lparr>bs_computer := computer\<rparr>,
            map_sum id (\<lambda>r. \<lparr>xb_block = block, xb_state_compute_result = r\<rparr>) result) }"

fun bs_execute_blocks ::
  "'e state_computer \<Rightarrow> executed_block list \<Rightarrow> bool \<Rightarrow> 'e block_store \<Rightarrow> ('e block_store \<times> (executor_error + unit)) option" where
  "bs_execute_blocks cmp [] catch_up_mode self = Some (self, Inr ())"
| "bs_execute_blocks cmp (block # blocks) catch_up_mode self =
     stry (bs_execute_block cmp (xb_block block) catch_up_mode self) (\<lambda>self _. bs_execute_blocks cmp blocks catch_up_mode self)"

text \<open>A block whose parent the executor does not know: the path to the parent is executed again.\<close>

definition bs_execute_or_recover ::
  "'e state_computer \<Rightarrow> block \<Rightarrow> bool \<Rightarrow> 'e block_store \<Rightarrow> ('e block_store \<times> (executor_error + executed_block)) option" where
  "bs_execute_or_recover cmp block catch_up_mode self =
     do { (self, result) \<leftarrow> bs_execute_block cmp block catch_up_mode self;
          case result of
            Inl (BlockNotFound parent_block_id) \<Rightarrow>
              do { path \<leftarrow> path_from_root parent_block_id (bs_inner self);
                   stry (bs_execute_blocks cmp (case path of None \<Rightarrow> [] | Some blocks \<Rightarrow> blocks) catch_up_mode self) (\<lambda>self _.
                   bs_execute_block cmp block catch_up_mode self) }
          | _ \<Rightarrow> Some (self, result) }"

definition bs_on_tree ::
  "(block_tree \<Rightarrow> (block_tree \<times> (string + 'a)) option) \<Rightarrow> 'e block_store \<Rightarrow> ('e block_store \<times> (store_error + 'a)) option" where
  "bs_on_tree f self =
     do { (tree, result) \<leftarrow> f (bs_inner self); Some (self\<lparr>bs_inner := tree\<rparr>, map_sum StoreMsg id result) }"

definition execute_and_insert_block ::
  "'e state_computer \<Rightarrow> bool \<Rightarrow> block \<Rightarrow> bool \<Rightarrow> bool \<Rightarrow> 'e block_store \<Rightarrow> ('e block_store \<times> (store_error + executed_block)) option" where
  "execute_and_insert_block cmp io block catch_up_mode force_compute self =
     (if \<not> force_compute \<and> tr_get_block (b_id block) (bs_inner self) \<noteq> None
      then do { existing_block \<leftarrow> tr_get_block (b_id block) (bs_inner self); Some (self, Inr existing_block) }
      else do {
        root \<leftarrow> tr_root (bs_inner self);
        if \<not> xb_round root < b_round block then Some (self, Inl (StoreMsg ''Block with old round''))
        else do {
          (self, executed) \<leftarrow> bs_execute_or_recover cmp block catch_up_mode self;
          stry (Some (self, map_sum ExecError id executed)) (\<lambda>self executed_block.
          stry (bs_save io (SaveTree [xb_block executed_block] []) self) (\<lambda>self _.
          bs_on_tree (tr_insert_block executed_block) self)) } })"

definition insert_single_quorum_cert ::
  "bool \<Rightarrow> quorum_cert \<Rightarrow> 'e block_store \<Rightarrow> ('e block_store \<times> (store_error + unit)) option" where
  "insert_single_quorum_cert io qc self =
     (case tr_get_block (bi_id (certified_block qc)) (bs_inner self) of
        None \<Rightarrow> Some (self, Inl (StoreMsg ''Insert without having the block in store first''))
      | Some executed_block \<Rightarrow>
          do { info \<leftarrow> xb_block_info executed_block;
               if info \<noteq> certified_block qc then Some (self, Inl (StoreMsg ''QC for block differs from local''))
               else stry (bs_save io (SaveTree [] [qc]) self) (\<lambda>self _. bs_on_tree (tr_insert_quorum_cert qc) self) })"

definition insert_timeout_certificate ::
  "bool \<Rightarrow> timeout_certificate \<Rightarrow> 'e block_store \<Rightarrow> ('e block_store \<times> (store_error + unit)) option" where
  "insert_timeout_certificate io tc self =
     (let cur_tc_round = (case tr_highest_timeout_cert (bs_inner self) of None \<Rightarrow> 0 | Some cur \<Rightarrow> tc_round cur) in
      if tc_round tc \<le> cur_tc_round then Some (self, Inr ())
      else stry (bs_save io (SaveHighestTimeoutCert tc) self) (\<lambda>self _.
        Some (self\<lparr>bs_inner := (bs_inner self)\<lparr>tr_highest_timeout_cert := Some tc\<rparr>\<rparr>, Inr ())))"

text \<open>A failure to delete from the database is only logged.\<close>

definition bs_prune_tree :: "bool \<Rightarrow> hash \<Rightarrow> 'e block_store \<Rightarrow> ('e block_store \<times> hash list) option" where
  "bs_prune_tree io next_root_id self =
     do { id_to_remove \<leftarrow> find_blocks_to_prune next_root_id (bs_inner self);
          tree \<leftarrow> process_pruned_blocks next_root_id id_to_remove (bs_inner self);
          Some (self\<lparr>bs_written := bs_written self @ (if io then [PruneTree id_to_remove] else []), bs_inner := tree\<rparr>, id_to_remove) }"

text \<open>A failure to save the blocks or to commit them is a panic.\<close>

definition bs_commit ::
  "'e state_computer \<Rightarrow> bool \<Rightarrow> bool \<Rightarrow> ledger_info_with_signatures \<Rightarrow> 'e block_store \<Rightarrow> ('e block_store \<times> (store_error + unit)) option" where
  "bs_commit cmp io io_prune finality_proof self =
     (let block_id_to_commit = bi_id (li_commit_info (lis_ledger_info finality_proof)) in
      case tr_get_block block_id_to_commit (bs_inner self) of
        None \<Rightarrow> Some (self, Inl (StoreMsg ''Committed block id not found''))
      | Some block_to_commit \<Rightarrow>
          do { root \<leftarrow> tr_root (bs_inner self);
               if block_to_commit = root then Some (self, Inr ())
               else if \<not> xb_round root < xb_round block_to_commit
               then Some (self, Inl (StoreMsg ''Committed block round lower than root''))
               else do {
                 path \<leftarrow> path_from_root block_id_to_commit (bs_inner self);
                 let blocks_to_commit = (case path of None \<Rightarrow> [] | Some blocks \<Rightarrow> blocks);
                 assert_that io;
                 (computer, result) \<leftarrow> cmp_commit cmp (map xb_id blocks_to_commit) finality_proof (bs_computer self);
                 assert_that (\<not> isl result);
                 (self, _) \<leftarrow> bs_prune_tree io_prune (xb_id block_to_commit)
                   (self\<lparr>bs_written := bs_written self @ [SaveLedgerBlocks (map xb_block blocks_to_commit)], bs_computer := computer\<rparr>);
                 Some (self, Inr ()) } })"

definition bs_sync_info :: "'e block_store \<Rightarrow> sync_info" where
  "bs_sync_info self =
     sync_info_new (tr_highest_quorum_cert (bs_inner self)) (tr_highest_commit_cert (bs_inner self))
       (tr_highest_timeout_cert (bs_inner self))"

section \<open>Building the store from the database\<close>

record root_metadata =
  rm_accu_hash :: hash
  rm_frozen_root_hashes :: "hash list"
  rm_num_leaves :: nat
  rm_pivot_decision :: "pivot_block_decision option"

definition rm_version :: "root_metadata \<Rightarrow> nat" where
  "rm_version self = max (rm_num_leaves self) 1 - 1"

fun build_blocks :: "'e state_computer \<Rightarrow> bool \<Rightarrow> block list \<Rightarrow> 'e block_store \<Rightarrow> 'e block_store option" where
  "build_blocks cmp io [] self = Some self"
| "build_blocks cmp io (block # blocks) self =
     do { (self, result) \<leftarrow> execute_and_insert_block cmp io block True True self;
          assert_that (\<not> isl result);
          build_blocks cmp io blocks self }"

fun build_quorum_certs :: "bool \<Rightarrow> quorum_cert list \<Rightarrow> 'e block_store \<Rightarrow> 'e block_store option" where
  "build_quorum_certs io [] self = Some self"
| "build_quorum_certs io (qc # qcs) self =
     do { (self, result) \<leftarrow> insert_single_quorum_cert io qc self; assert_that (\<not> isl result); build_quorum_certs io qcs self }"

definition block_store_build ::
  "'e state_computer \<Rightarrow> bool \<Rightarrow> 'e \<Rightarrow> block \<times> quorum_cert \<times> quorum_cert \<Rightarrow> root_metadata \<Rightarrow> block list \<Rightarrow> quorum_cert list \<Rightarrow>
     timeout_certificate option \<Rightarrow> nat \<Rightarrow> 'e block_store option" where
  "block_store_build cmp io computer root root_metadata blocks quorum_certs highest_timeout_cert max_pruned_blocks_in_mem =
     (let (root_block, root_qc, root_li) = root in
      do { assert_that (bi_version (certified_block root_qc) = rm_version root_metadata);
           let result = \<lparr>sr_root_hash = rm_accu_hash root_metadata, sr_frozen_subtree_roots = rm_frozen_root_hashes root_metadata,
             sr_parent_frozen_subtree_roots = [], sr_num_leaves = rm_num_leaves root_metadata, sr_parent_num_leaves = 0,
             sr_epoch_state = None, sr_compute_status = [], sr_transaction_info_hashes = [], sr_signature = None,
             sr_pivot_decision = rm_pivot_decision root_metadata\<rparr>;
           tree \<leftarrow> block_tree_new \<lparr>xb_block = root_block, xb_state_compute_result = result\<rparr> root_qc root_li
             max_pruned_blocks_in_mem highest_timeout_cert;
           store \<leftarrow> build_blocks cmp io blocks \<lparr>bs_inner = tree, bs_computer = computer, bs_written = []\<rparr>;
           build_quorum_certs io quorum_certs store })"

section \<open>Lives of the store\<close>

lemma bs_execute_block_frame:
  assumes "bs_execute_block cmp b cu s = Some (s', r)"
  shows "bs_inner s' = bs_inner s \<and> bs_written s' = bs_written s \<and> (\<forall>x. r = Inr x \<longrightarrow> xb_block x = b)"
proof -
  obtain e res where "s' = s\<lparr>bs_computer := e\<rparr>" "r = map_sum id (\<lambda>r. \<lparr>xb_block = b, xb_state_compute_result = r\<rparr>) res"
    using assms by (auto simp: bs_execute_block_def option_bind_simps)
  then show ?thesis
    by (cases res) auto
qed

lemma bs_execute_blocks_frame:
  "bs_execute_blocks cmp bs cu s = Some (s', r) \<Longrightarrow> bs_inner s' = bs_inner s \<and> bs_written s' = bs_written s"
proof (induction cmp bs cu s arbitrary: s' r rule: bs_execute_blocks.induct)
  case (2 cmp b bs cu s)
  then show ?case
    by (cases "bs_execute_block cmp (xb_block b) cu s")
      (auto simp: stry_def dest: bs_execute_block_frame split: sum.splits prod.splits)
qed simp

lemma bs_execute_or_recover_frame:
  assumes "bs_execute_or_recover cmp b cu s = Some (s', r)"
  shows "bs_inner s' = bs_inner s \<and> bs_written s' = bs_written s \<and> (\<forall>x. r = Inr x \<longrightarrow> xb_block x = b)"
proof -
  obtain s1 r1 where 1: "bs_execute_block cmp b cu s = Some (s1, r1)"
    using assms by (auto simp: bs_execute_or_recover_def option_bind_simps)
  note f1 = bs_execute_block_frame [OF 1]
  show ?thesis
  proof (cases "\<exists>p. r1 = Inl (BlockNotFound p)")
    case True
    then obtain p where p: "r1 = Inl (BlockNotFound p)"
      by blast
    obtain path where "stry (bs_execute_blocks cmp path cu s1) (\<lambda>self _. bs_execute_block cmp b cu self) = Some (s', r)"
      using assms 1 p by (auto simp: bs_execute_or_recover_def option_bind_simps)
    then show ?thesis
      using f1 by (auto simp: stry_def dest!: bs_execute_blocks_frame bs_execute_block_frame split: option.splits sum.splits prod.splits)
  next
    case False
    then have "s' = s1 \<and> r = r1"
      using assms 1 by (auto simp: bs_execute_or_recover_def split: sum.splits executor_error.splits)
    then show ?thesis
      using f1 by simp
  qed
qed

text \<open>
  The calls of the round manager and of the synchronization. A block that is inserted fits into the tree; a
  certificate that is inserted is for a block of the active tree; a commit is for a block of the active tree
  below the highest certified block, which is what the agreement of the protocol gives.
\<close>

inductive store_life :: "'e state_computer \<Rightarrow> 'e block_store \<Rightarrow> bool" for cmp where
  start: "root_ok root root_qc root_li \<Longrightarrow> block_tree_new root root_qc root_li n tc = Some t \<Longrightarrow>
    store_life cmp \<lparr>bs_inner = t, bs_computer = e, bs_written = []\<rparr>"
| block: "store_life cmp s \<Longrightarrow>
    (\<And>s1 x. bs_execute_or_recover cmp b cu s = Some (s1, Inr x) \<Longrightarrow> block_fits x (bs_inner s)) \<Longrightarrow>
    execute_and_insert_block cmp io b cu force s = Some (s', r) \<Longrightarrow> store_life cmp s'"
| cert: "store_life cmp s \<Longrightarrow> descends (bs_inner s) (tr_root_id (bs_inner s)) (bi_id (certified_block qc)) \<Longrightarrow>
    insert_single_quorum_cert io qc s = Some (s', r') \<Longrightarrow> store_life cmp s'"
| timeout: "store_life cmp s \<Longrightarrow> insert_timeout_certificate io tc s = Some (s', r') \<Longrightarrow> store_life cmp s'"
| commit: "store_life cmp s \<Longrightarrow>
    descends (bs_inner s) (tr_root_id (bs_inner s)) (bi_id (li_commit_info (lis_ledger_info proof_li))) \<Longrightarrow>
    descends (bs_inner s) (bi_id (li_commit_info (lis_ledger_info proof_li))) (tr_highest_certified_block_id (bs_inner s)) \<Longrightarrow>
    bs_commit cmp io io' proof_li s = Some (s', r') \<Longrightarrow> store_life cmp s'"

lemma tree_ok_timeout: "tree_ok (t\<lparr>tr_highest_timeout_cert := x\<rparr>) \<longleftrightarrow> tree_ok t"
proof -
  let ?t = "t\<lparr>tr_highest_timeout_cert := x\<rparr>"
  have "descends ?t = descends t"
    by (rule descends_cong) simp
  moreover have "tr_get_block i ?t = tr_get_block i t" for i
    by (simp add: tr_get_block_def)
  ultimately show ?thesis
    by (simp add: tree_ok_def links_ok_def active_ok_def certs_ok_def tr_highest_certified_block_def)
qed

lemma execute_and_insert_block_cases:
  assumes "execute_and_insert_block cmp io b cu force s = Some (s', r)"
  obtains "s' = s"
  | s1 e where "bs_execute_or_recover cmp b cu s = Some (s1, e)" "s' = s1"
  | s1 x t' res where "bs_execute_or_recover cmp b cu s = Some (s1, Inr x)" "tr_insert_block x (bs_inner s) = Some (t', res)" "bs_inner s' = t'"
proof (cases "s' = s")
  case False
  then obtain s1 executed where e: "bs_execute_or_recover cmp b cu s = Some (s1, executed)"
    and rest: "stry (Some (s1, map_sum ExecError id executed)) (\<lambda>self executed_block.
      stry (bs_save io (SaveTree [xb_block executed_block] []) self) (\<lambda>self _. bs_on_tree (tr_insert_block executed_block) self)) = Some (s', r)"
    using assms by (auto simp: execute_and_insert_block_def option_bind_simps split: if_splits)
  show thesis
  proof (cases executed)
    case (Inl err)
    then show ?thesis
      using that(2) [OF e] rest by simp
  next
    case (Inr x)
    have inner: "bs_inner s1 = bs_inner s"
      using bs_execute_or_recover_frame [OF e] by simp
    show ?thesis
    proof (cases io)
      case True
      then obtain t' res where "tr_insert_block x (bs_inner s) = Some (t', res)" "bs_inner s' = t'"
        using rest Inr inner by (auto simp: bs_save_def bs_on_tree_def option_bind_simps)
      then show ?thesis
        using that(3) e Inr by blast
    next
      case False
      then show ?thesis
        using that(2) [OF e] rest Inr by (simp add: bs_save_def)
    qed
  qed
qed (rule that(1))

lemma execute_and_insert_block_tree:
  assumes "tree_ok (bs_inner s)" and "\<And>s1 x. bs_execute_or_recover cmp b cu s = Some (s1, Inr x) \<Longrightarrow> block_fits x (bs_inner s)"
    and "execute_and_insert_block cmp io b cu force s = Some (s', r)"
  shows "tree_ok (bs_inner s')"
  using assms(3)
proof (cases rule: execute_and_insert_block_cases)
  case 1
  then show ?thesis
    using assms(1) by simp
next
  case (2 s1 e)
  then show ?thesis
    using assms(1) bs_execute_or_recover_frame by fastforce
next
  case (3 s1 x t' res)
  then show ?thesis
    using tr_insert_block_ok [OF assms(1) assms(2) [OF 3(1)]] by auto
qed

lemma insert_single_quorum_cert_tree:
  assumes "tree_ok (bs_inner s)" and "descends (bs_inner s) (tr_root_id (bs_inner s)) (bi_id (certified_block qc))"
    and "insert_single_quorum_cert io qc s = Some (s', r)"
  shows "tree_ok (bs_inner s')"
proof -
  obtain t' where t': "tr_insert_quorum_cert qc (bs_inner s) = Some (t', Inr ())" "tree_ok t'"
    using tr_insert_quorum_cert_ok [OF assms(1,2)] by blast
  show ?thesis
    using assms(1,3) t'
    by (auto simp: insert_single_quorum_cert_def bs_save_def bs_on_tree_def option_bind_simps split: option.splits if_splits)
qed

text \<open>What a commit does: the chain of blocks up to the committed one is saved and handed to the executor.\<close>

definition committed ::
  "'e state_computer \<Rightarrow> bool \<Rightarrow> bool \<Rightarrow> ledger_info_with_signatures \<Rightarrow> executed_block list \<Rightarrow> hash list \<Rightarrow> block_tree \<Rightarrow> 'e block_store \<Rightarrow>
     ('e block_store \<times> (store_error + unit)) option" where
  "committed cmp io io' proof_li path ids t' s =
     (if io
      then do { (e, res) \<leftarrow> cmp_commit cmp (map xb_id path) proof_li (bs_computer s);
                assert_that (\<not> isl res);
                Some (s\<lparr>bs_computer := e, bs_written :=
                  bs_written s @ [SaveLedgerBlocks (map xb_block path)] @ (if io' then [PruneTree ids] else []), bs_inner := t'\<rparr>, Inr ()) }
      else None)"

lemma committed_Some:
  "committed cmp io io' proof_li path ids t' s = Some (s', r) \<Longrightarrow> bs_inner s' = t'"
  by (auto simp: committed_def option_bind_simps split: if_split_asm)

lemma bs_commit_ok:
  fixes s :: "'e block_store" and proof_li :: ledger_info_with_signatures
  assumes "tree_ok (bs_inner s)"
  defines "t \<equiv> bs_inner s" and "i \<equiv> bi_id (li_commit_info (lis_ledger_info proof_li))"
  assumes "descends t (tr_root_id t) i" and "descends t i (tr_highest_certified_block_id t)" and "i \<noteq> tr_root_id t"
  shows "\<exists>path ids t'. is_path t (tr_root_id t) path i \<and> path \<noteq> [] \<and> tree_ok t' \<and> tr_root_id t' = i \<and>
    set ids = {y. descends t (tr_root_id t) y \<and> \<not> descends t i y} \<and>
    (\<forall>y. descends t i y \<longrightarrow> tr_id_to_block t' y = tr_id_to_block t y) \<and> (\<forall>y. descends t' i y \<longleftrightarrow> descends t i y) \<and>
    bs_commit cmp io io' proof_li s = committed cmp io io' proof_li path ids t' s"
proof -
  have ok: "links_ok t" "active_ok t"
    using assms(1) by (simp_all add: tree_ok_def t_def)
  obtain x where x: "tr_get_block i t = Some x"
    using descends_present [OF assms(4)] by blast
  obtain r where r: "tr_get_block (tr_root_id t) t = Some r"
    using descends_present [OF assms(4)] by blast
  have rounds: "xb_round r < xb_round x" and ne: "x \<noteq> r" and xi: "xb_id x = i"
    using descends_round [OF ok(1) assms(4) r x] assms(6) links_okD(2) [OF ok(1) x] links_okD(2) [OF ok(1) r] by auto
  obtain path where path: "path_from_root i t = Some (Some path)" "is_path t (tr_root_id t) path i"
    using path_from_root_eq [OF ok, of i] assms(4) by (auto split: option.splits)
  then have "path \<noteq> []"
    using assms(6) by auto
  obtain ids t' where p: "find_blocks_to_prune i t = Some ids" "set ids = {y. descends t (tr_root_id t) y \<and> \<not> descends t i y}"
    "process_pruned_blocks i ids t = Some t'" "tree_ok t'" "tr_root_id t' = i"
    "\<forall>y. descends t i y \<longrightarrow> tr_id_to_block t' y = tr_id_to_block t y" "\<forall>y. descends t' i y \<longleftrightarrow> descends t i y"
    using prune_tree_ok [OF assms(1) [folded t_def] assms(4,5)] by blast
  have "bs_commit cmp io io' proof_li s = committed cmp io io' proof_li path ids t' s"
    using x r rounds ne xi path(1) p(1,3)
    by (simp add: bs_commit_def tr_root_def bs_prune_tree_def committed_def Let_def flip: t_def i_def)
  then show ?thesis
    using path(2) \<open>path \<noteq> []\<close> p by blast
qed

lemma bs_commit_tree:
  assumes "tree_ok (bs_inner s)" and "descends (bs_inner s) (tr_root_id (bs_inner s)) (bi_id (li_commit_info (lis_ledger_info proof_li)))"
    and "descends (bs_inner s) (bi_id (li_commit_info (lis_ledger_info proof_li))) (tr_highest_certified_block_id (bs_inner s))"
    and "bs_commit cmp io io' proof_li s = Some (s', r)"
  shows "tree_ok (bs_inner s')"
proof (cases "bi_id (li_commit_info (lis_ledger_info proof_li)) = tr_root_id (bs_inner s)")
  case True
  then have "s' = s"
    using assms(4) descends_present [OF assms(2)] by (auto simp: bs_commit_def tr_root_def)
  then show ?thesis
    using assms(1) by simp
next
  case False
  obtain path ids t' where t': "tree_ok t'" and c: "bs_commit cmp io io' proof_li s = committed cmp io io' proof_li path ids t' s"
    using bs_commit_ok [OF assms(1-3) False, of cmp io io'] by blast
  show ?thesis
    using assms(4) t' committed_Some unfolding c by blast
qed

lemma store_life_tree: "store_life cmp s \<Longrightarrow> tree_ok (bs_inner s)"
proof (induction rule: store_life.induct)
  case (start root root_qc root_li n tc t e)
  then show ?case
    using block_tree_new_ok [OF start(1), of n tc] by simp
next
  case (block s b cu io force s' r)
  then show ?case
    using execute_and_insert_block_tree by blast
next
  case (cert s qc io s' r')
  then show ?case
    using insert_single_quorum_cert_tree by blast
next
  case (timeout s io tc s' r')
  then show ?case
    by (auto simp: insert_timeout_certificate_def Let_def bs_save_def tree_ok_timeout split: if_splits)
next
  case (commit s proof_li io io' s' r')
  then show ?case
    using bs_commit_tree by blast
qed

section \<open>Properties\<close>

text \<open>
  C7. The block store in every life, whatever writes fail: the highest certificate it reports is for a block of the
  store whose path from the root is known, no certified block has a higher round, no certificate commits a higher
  round than the highest commit certificate reported, and inserting a certificate of a block above the root
  does not panic.
\<close>

theorem store_certificates_sound:
  assumes "store_life cmp s"
  shows "\<exists>h path. tr_highest_certified_block (bs_inner s) = Some h \<and>
    bi_id (certified_block (sy_highest_quorum_cert (bs_sync_info s))) = xb_id h \<and>
    path_from_root (xb_id h) (bs_inner s) = Some (Some path) \<and> is_path (bs_inner s) (tr_root_id (bs_inner s)) path (xb_id h) \<and>
    (\<forall>i qc x. tr_id_to_quorum_cert (bs_inner s) i = Some qc \<and> tr_get_block i (bs_inner s) = Some x \<longrightarrow> xb_round x \<le> xb_round h) \<and>
    (\<forall>i qc. tr_id_to_quorum_cert (bs_inner s) i = Some qc \<longrightarrow> bi_round (commit_info qc) \<le> highest_commit_round (bs_sync_info s)) \<and>
    (\<forall>qc io. descends (bs_inner s) (tr_root_id (bs_inner s)) (bi_id (certified_block qc)) \<longrightarrow> insert_single_quorum_cert io qc s \<noteq> None)"
proof -
  let ?t = "bs_inner s"
  have ok: "tree_ok ?t" "links_ok ?t" "active_ok ?t" "certs_ok ?t"
    using store_life_tree [OF assms] by (simp_all add: tree_ok_def)
  have hd: "descends ?t (tr_root_id ?t) (tr_highest_certified_block_id ?t)"
    and hq: "bi_id (certified_block (tr_highest_quorum_cert ?t)) = tr_highest_certified_block_id ?t"
    using ok(4) by (simp_all add: certs_ok_def)
  obtain h where h: "tr_highest_certified_block ?t = Some h" "xb_id h = tr_highest_certified_block_id ?t"
    using descends_present [OF hd] links_okD(2) [OF ok(2)] by (auto simp: tr_highest_certified_block_def)
  obtain path where "path_from_root (xb_id h) ?t = Some (Some path)" "is_path ?t (tr_root_id ?t) path (xb_id h)"
    using path_from_root_eq [OF ok(2,3), of "xb_id h"] hd h(2) by (auto split: option.splits)
  moreover have "sy_highest_quorum_cert (bs_sync_info s) = tr_highest_quorum_cert ?t"
    "highest_commit_round (bs_sync_info s) = bi_round (commit_info (tr_highest_commit_cert ?t))"
    by (simp_all add: bs_sync_info_def sync_info_new_def highest_commit_round_def highest_commit_cert_def)
  moreover have "insert_single_quorum_cert io qc s \<noteq> None" if "descends ?t (tr_root_id ?t) (bi_id (certified_block qc))" for qc io
    using tr_insert_quorum_cert_ok [OF ok(1) that]
    by (auto simp: insert_single_quorum_cert_def xb_block_info_def sr_version_def sub64_def bs_save_def bs_on_tree_def split: option.splits)
  moreover have "\<forall>i qc x. tr_id_to_quorum_cert ?t i = Some qc \<and> tr_get_block i ?t = Some x \<longrightarrow> xb_round x \<le> xb_round h"
    "\<forall>i qc. tr_id_to_quorum_cert ?t i = Some qc \<longrightarrow> bi_round (commit_info qc) \<le> bi_round (commit_info (tr_highest_commit_cert ?t))"
    using ok(4) h(1) unfolding certs_ok_def by blast+
  ultimately show ?thesis
    using h hq by (intro exI [of _ h] exI [of _ path]) simp
qed


definition sample_executed :: "round \<Rightarrow> executed_block" where
  "sample_executed r = \<lparr>xb_block = new_proposal_from_block_data_and_signature sample_crypto
      (block_data_new_proposal [] 2 r r (sample_qc (r - 1))) 20 None,
     xb_state_compute_result = \<lparr>sr_root_hash = 0, sr_frozen_subtree_roots = [], sr_parent_frozen_subtree_roots = [],
       sr_num_leaves = 0, sr_parent_num_leaves = 0, sr_epoch_state = None, sr_compute_status = [],
       sr_transaction_info_hashes = [], sr_signature = None, sr_pivot_decision = None\<rparr>\<rparr>"

text \<open>An executor that has the same result for every block and remembers the number of committed blocks.\<close>

definition sample_computer :: "nat state_computer" where
  "sample_computer = \<lparr>cmp_compute = (\<lambda>b p cu e. Some (e, Inr (xb_state_compute_result (sample_executed 0)))),
     cmp_commit = (\<lambda>ids li e. Some (e + length ids, Inr ()))\<rparr>"

definition sample_root_li :: quorum_cert where
  "sample_root_li = (sample_qc 5)\<lparr>qc_signed_ledger_info := \<lparr>lis_ledger_info =
     \<lparr>li_commit_info = block_info_empty\<lparr>bi_id := 1005\<rparr>, li_consensus_data_hash = 5\<rparr>, lis_signatures = []\<rparr>\<rparr>"

definition sample_tree :: block_tree where
  "sample_tree = \<lparr>tr_id_to_block = [1005 \<mapsto> \<lparr>lb_executed_block = sample_executed 5, lb_children = [1006]\<rparr>,
       1006 \<mapsto> \<lparr>lb_executed_block = sample_executed 6, lb_children = []\<rparr>],
     tr_root_id = 1005, tr_highest_certified_block_id = 1006, tr_highest_quorum_cert = sample_qc 6, tr_highest_timeout_cert = None,
     tr_highest_commit_cert = sample_root_li, tr_id_to_quorum_cert = [1005 \<mapsto> sample_qc 5, 1006 \<mapsto> sample_qc 6],
     tr_pruned_block_ids = [], tr_max_pruned_blocks_in_mem = 3\<rparr>"

definition sample_store :: "nat block_store" where
  "sample_store = \<lparr>bs_inner = sample_tree, bs_computer = 0,
     bs_written = [SaveTree [xb_block (sample_executed 6)] [], SaveTree [] [sample_qc 6]]\<rparr>"

lemmas sample_store_simps = sample_executed_def sample_qc_def sample_crypto_def sample_root_li_def
  new_proposal_from_block_data_and_signature_def block_data_new_proposal_def block_info_empty_def

lemma sample_executed_simps [simp]:
  "xb_id (sample_executed r) = 1000 + r" "xb_round (sample_executed r) = r" "b_parent_id (xb_block (sample_executed r)) = 1000 + (r - 1)"
  "xb_parent_id (sample_executed r) = 1000 + (r - 1)"
  by (simp_all add: sample_store_simps xb_parent_id_def b_round_def b_parent_id_def b_quorum_cert_def certified_block_def)

lemma sample_qc_simps [simp]:
  "bi_id (certified_block (sample_qc r)) = 1000 + r" "bi_round (commit_info (sample_qc r)) = 0"
  "bi_id (commit_info sample_root_li) = 1005" "bi_round (commit_info sample_root_li) = 0"
  by (simp_all add: sample_store_simps certified_block_def commit_info_def qc_ledger_info_def)

lemma sample_executed_info: "xb_block_info (sample_executed 6) = Some (certified_block (sample_qc 6))"
  by (simp add: xb_block_info_def gen_block_info_def sr_version_def sub64_def sample_store_simps certified_block_def
      b_quorum_cert_def b_epoch_def b_round_def b_timestamp_usecs_def block_info_new_def)

text \<open>The store starts at the block of round 5, and inserts and certifies the one of round 6.\<close>

definition sample_store0 :: "nat block_store" where
  "sample_store0 = \<lparr>bs_inner = sample_tree\<lparr>tr_id_to_block := [1005 \<mapsto> \<lparr>lb_executed_block = sample_executed 5, lb_children = []\<rparr>],
       tr_highest_certified_block_id := 1005, tr_highest_quorum_cert := sample_qc 5, tr_id_to_quorum_cert := [1005 \<mapsto> sample_qc 5]\<rparr>,
     bs_computer = 0, bs_written = []\<rparr>"

lemma sample_life0: "store_life sample_computer sample_store0"
  unfolding sample_store0_def
  by (rule store_life.start [where root = "sample_executed 5" and root_qc = "sample_qc 5" and root_li = sample_root_li and n = 3 and tc = None])
    (simp_all add: root_ok_def block_tree_new_def sample_tree_def)

lemma sample_execute:
  "bs_execute_or_recover sample_computer (xb_block (sample_executed 6)) False sample_store0 = Some (sample_store0, Inr (sample_executed 6))"
  by (simp add: bs_execute_or_recover_def bs_execute_block_def sample_computer_def sample_executed_def sample_store0_def)

definition sample_store1 :: "nat block_store" where
  "sample_store1 = sample_store0\<lparr>bs_inner := (bs_inner sample_store0)\<lparr>tr_id_to_block := tr_id_to_block sample_tree\<rparr>,
     bs_written := [SaveTree [xb_block (sample_executed 6)] []]\<rparr>"

lemma sample_fits: "block_fits (sample_executed 6) (bs_inner sample_store0)"
  using descends.self [of 1005 "bs_inner sample_store0" "sample_executed 5"]
  by (auto simp: block_fits_def sample_store0_def sample_tree_def tr_get_block_def split: if_splits)

lemma sample_life1: "store_life sample_computer sample_store1"
proof (rule store_life.block [OF sample_life0])
  show "block_fits x (bs_inner sample_store0)"
    if "bs_execute_or_recover sample_computer (xb_block (sample_executed 6)) False sample_store0 = Some (s1, Inr x)" for s1 x
    using that sample_fits by (simp add: sample_execute)
  show "execute_and_insert_block sample_computer True (xb_block (sample_executed 6)) False False sample_store0 =
    Some (sample_store1, Inr (sample_executed 6))"
    unfolding execute_and_insert_block_def sample_execute
    by (simp add: bs_save_def bs_on_tree_def tr_insert_block_def tr_root_def tr_get_block_def sample_store0_def sample_store1_def sample_tree_def add_child_def)
qed

lemma sample_life: "store_life sample_computer sample_store"
proof (rule store_life.cert [OF sample_life1])
  have "tr_get_block 1005 (bs_inner sample_store1) = Some (sample_executed 5)" "tr_get_block 1006 (bs_inner sample_store1) = Some (sample_executed 6)"
    "tr_root_id (bs_inner sample_store1) = 1005"
    by (simp_all add: sample_store1_def sample_store0_def sample_tree_def tr_get_block_def)
  then show "descends (bs_inner sample_store1) (tr_root_id (bs_inner sample_store1)) (bi_id (certified_block (sample_qc 6)))"
    using descends.child [OF _ descends.self] by force
  show "insert_single_quorum_cert True (sample_qc 6) sample_store1 = Some (sample_store, Inr ())"
    by (simp add: insert_single_quorum_cert_def sample_executed_info bs_save_def bs_on_tree_def tr_insert_quorum_cert_def tr_get_block_def
        tr_highest_certified_block_def sample_store0_def sample_store1_def sample_store_def sample_tree_def)
qed

theorem store_certificates_sound_witness:
  "store_life sample_computer sample_store \<and>
   (\<exists>h path. tr_highest_certified_block sample_tree = Some h \<and> xb_id h = 1006 \<and> path_from_root 1006 sample_tree = Some (Some path))"
  using store_certificates_sound [OF sample_life] sample_life
  by (auto simp: sample_store_def bs_sync_info_def sync_info_new_def sample_tree_def)

lemma sample_descends:
  "descends sample_tree 1005 1006" "descends sample_tree 1006 1006"
proof -
  have g: "tr_get_block 1005 sample_tree = Some (sample_executed 5)" "tr_get_block 1006 sample_tree = Some (sample_executed 6)"
    by (simp_all add: sample_tree_def tr_get_block_def)
  show "descends sample_tree 1006 1006"
    using descends.self [OF g(2)] .
  show "descends sample_tree 1005 1006"
    using descends.child [OF g(2)] descends.self [OF g(1)] by simp
qed

definition sample_proof :: ledger_info_with_signatures where
  "sample_proof = \<lparr>lis_ledger_info = \<lparr>li_commit_info = block_info_empty\<lparr>bi_id := 1006\<rparr>, li_consensus_data_hash = 6\<rparr>, lis_signatures = []\<rparr>"


end
