(* ===== verification/Consensus_Db.thy ===== *)
theory Consensus_Db
  imports Block_Store
begin

text \<open>
  The consensus database (\<^verbatim>\<open>cfxcore/core/src/pos/consensus/consensusdb/mod.rs\<close>): the blocks and certificates that are
  not committed yet, the last vote, the highest timeout certificate, the committed blocks, and the staking events of the
  PoW chain by height. A batch of writes is atomic; whether it succeeds is an argument. Values are kept decoded. The
  main result is that consecutive queries for staking events give every event exactly once.
\<close>

section \<open>The database\<close>

record consensus_db =
  db_last_vote :: "vote option"
  db_highest_timeout_certificate :: "timeout_certificate option"
  db_blocks :: "hash \<rightharpoonup> block"
  db_quorum_certs :: "hash \<rightharpoonup> quorum_cert"
  db_staking_events :: "(nat, staking_event list \<times> bytes) btree"
  db_ledger_blocks :: "hash \<rightharpoonup> block"

definition db_commit :: "bool \<Rightarrow> consensus_db \<Rightarrow> consensus_db \<Rightarrow> consensus_db \<times> (string + unit)" where
  "db_commit io batch self = (if io then (batch, Inr ()) else (self, Inl ''write failed''))"

text \<open>The blocks and certificates are read into hash maps, whose order is arbitrary.\<close>

definition get_data ::
  "((hash \<rightharpoonup> block) \<Rightarrow> block list) \<Rightarrow> ((hash \<rightharpoonup> quorum_cert) \<Rightarrow> quorum_cert list) \<Rightarrow> consensus_db \<Rightarrow>
     vote option \<times> timeout_certificate option \<times> block list \<times> quorum_cert list" where
  "get_data blocks_of certs_of self =
     (db_last_vote self, db_highest_timeout_certificate self, blocks_of (db_blocks self), certs_of (db_quorum_certs self))"

definition save_highest_timeout_certificate ::
  "bool \<Rightarrow> timeout_certificate \<Rightarrow> consensus_db \<Rightarrow> consensus_db \<times> (string + unit)" where
  "save_highest_timeout_certificate io highest_timeout_certificate self =
     db_commit io (self\<lparr>db_highest_timeout_certificate := Some highest_timeout_certificate\<rparr>) self"

definition db_save_vote :: "bool \<Rightarrow> vote \<Rightarrow> consensus_db \<Rightarrow> consensus_db \<times> (string + unit)" where
  "db_save_vote io last_vote self = db_commit io (self\<lparr>db_last_vote := Some last_vote\<rparr>) self"

definition save_blocks_and_quorum_certificates ::
  "bool \<Rightarrow> block list \<Rightarrow> quorum_cert list \<Rightarrow> consensus_db \<Rightarrow> consensus_db \<times> (string + unit)" where
  "save_blocks_and_quorum_certificates io block_data qc_data self =
     (if block_data = [] \<and> qc_data = [] then (self, Inl ''Consensus block and qc data is empty!'')
      else db_commit io
        (self\<lparr>db_blocks := fold (\<lambda>block m. m(b_id block \<mapsto> block)) block_data (db_blocks self),
              db_quorum_certs := fold (\<lambda>qc m. m(bi_id (certified_block qc) \<mapsto> qc)) qc_data (db_quorum_certs self)\<rparr>) self)"

definition delete_blocks_and_quorum_certificates ::
  "bool \<Rightarrow> hash list \<Rightarrow> consensus_db \<Rightarrow> consensus_db \<times> (string + unit)" where
  "delete_blocks_and_quorum_certificates io block_ids self =
     (if block_ids = [] then (self, Inl ''Consensus block ids is empty!'')
      else db_commit io
        (self\<lparr>db_blocks := fold (\<lambda>hash m. m(hash := None)) block_ids (db_blocks self),
              db_quorum_certs := fold (\<lambda>hash m. m(hash := None)) block_ids (db_quorum_certs self)\<rparr>) self)"

definition delete_highest_timeout_certificate :: "bool \<Rightarrow> consensus_db \<Rightarrow> consensus_db \<times> (string + unit)" where
  "delete_highest_timeout_certificate io self = db_commit io (self\<lparr>db_highest_timeout_certificate := None\<rparr>) self"

definition delete_last_vote_msg :: "bool \<Rightarrow> consensus_db \<Rightarrow> consensus_db \<times> (string + unit)" where
  "delete_last_vote_msg io self = db_commit io (self\<lparr>db_last_vote := None\<rparr>) self"

definition db_save_ledger_blocks :: "bool \<Rightarrow> block list \<Rightarrow> consensus_db \<Rightarrow> consensus_db \<times> (string + unit)" where
  "db_save_ledger_blocks io blocks self =
     db_commit io (self\<lparr>db_ledger_blocks := fold (\<lambda>block m. m(b_id block \<mapsto> block)) blocks (db_ledger_blocks self)\<rparr>) self"

section \<open>Staking events\<close>

definition put_staking_events ::
  "bool \<Rightarrow> nat \<Rightarrow> bytes \<Rightarrow> staking_event list \<Rightarrow> consensus_db \<Rightarrow> consensus_db \<times> (string + unit)" where
  "put_staking_events io pow_epoch_number pow_epoch_hash events self =
     db_commit io (self\<lparr>db_staking_events := bt_insert pow_epoch_number (events, pow_epoch_hash) (db_staking_events self)\<rparr>) self"

text \<open>The loop over the entries between the heights of the two decisions.\<close>

fun staking_loop ::
  "pivot_block_decision \<Rightarrow> pivot_block_decision \<Rightarrow> (nat, staking_event list \<times> bytes) btree \<Rightarrow> nat \<Rightarrow> staking_event list \<Rightarrow>
     (string + nat \<times> staking_event list) option" where
  "staking_loop parent_decision me_decision [] expected_epoch_number staking_events =
     Some (Inr (expected_epoch_number, staking_events))"
| "staking_loop parent_decision me_decision ((pow_epoch_number, (events, pow_epoch_hash)) # iter) expected_epoch_number staking_events =
     (if pow_epoch_number \<noteq> expected_epoch_number then Some (Inl ''skipped staking events'')
      else if pow_epoch_number = pd_height parent_decision \<and> pow_epoch_hash \<noteq> pd_block_hash parent_decision
      then Some (Inl ''inconsistent parent epoch hash'')
      else if pow_epoch_number = pd_height me_decision \<and> pow_epoch_hash \<noteq> pd_block_hash me_decision
      then Some (Inl ''inconsistent me epoch hash'')
      else do { expected \<leftarrow> add64 expected_epoch_number 1;
                staking_loop parent_decision me_decision iter expected
                  (if pow_epoch_number \<noteq> pd_height parent_decision then staking_events @ events else staking_events) })"

definition get_staking_events ::
  "pivot_block_decision \<Rightarrow> pivot_block_decision \<Rightarrow> consensus_db \<Rightarrow> (string + staking_event list) option" where
  "get_staking_events parent_decision me_decision self =
     (if parent_decision = me_decision then Some (Inr [])
      else if pd_height me_decision \<le> pd_height parent_decision then Some (Inl ''only forward querying allowed'')
      else do {
        upper \<leftarrow> add64 (pd_height me_decision) 1;
        result \<leftarrow> staking_loop parent_decision me_decision
          (filter (\<lambda>e. pd_height parent_decision \<le> fst e \<and> fst e < upper) (db_staking_events self))
          (pd_height parent_decision) [];
        Some (try_res result (\<lambda>(expected_epoch_number, staking_events).
          if expected_epoch_number \<noteq> upper then Inl ''incomplete staking events'' else Inr staking_events)) })"

definition delete_staking_events_before :: "bool \<Rightarrow> nat \<Rightarrow> consensus_db \<Rightarrow> consensus_db \<times> (string + unit)" where
  "delete_staking_events_before io committed_pow_epoch_number self =
     db_commit io (self\<lparr>db_staking_events := filter (\<lambda>e. \<not> fst e < committed_pow_epoch_number) (db_staking_events self)\<rparr>) self"

section \<open>What a query returns\<close>

text \<open>The entries that an answer needs: one for every height, with the hashes of the two decisions.\<close>

definition events_at :: "consensus_db \<Rightarrow> nat \<Rightarrow> staking_event list" where
  "events_at db h = (case map_of (db_staking_events db) h of None \<Rightarrow> [] | Some e \<Rightarrow> fst e)"

definition covered :: "consensus_db \<Rightarrow> pivot_block_decision \<Rightarrow> pivot_block_decision \<Rightarrow> bool" where
  "covered db p m \<longleftrightarrow> (\<forall>h. pd_height p \<le> h \<and> h \<le> pd_height m \<longrightarrow> map_of (db_staking_events db) h \<noteq> None) \<and>
     map_option snd (map_of (db_staking_events db) (pd_height p)) = Some (pd_block_hash p) \<and>
     map_option snd (map_of (db_staking_events db) (pd_height m)) = Some (pd_block_hash m)"

lemma staking_loop_iff:
  assumes "sorted_wrt (<) (map fst es)" and "\<forall>e\<in>set es. h \<le> fst e \<and> fst e < n" and "n \<le> U64_MAX" and "pd_height p \<le> h" and "h \<le> n"
  shows "\<exists>r. staking_loop p m es h acc = Some r \<and> (\<forall>res. r = Inr (n, res) \<longleftrightarrow>
    map fst es = [h..<n] \<and>
    (\<forall>e\<in>set es. (fst e = pd_height p \<longrightarrow> snd (snd e) = pd_block_hash p) \<and> (fst e = pd_height m \<longrightarrow> snd (snd e) = pd_block_hash m)) \<and>
    res = acc @ concat (map (\<lambda>e. if fst e = pd_height p then [] else fst (snd e)) es))"
  using assms
proof (induction es arbitrary: h acc)
  case Nil
  then show ?case
    by (auto simp: upt_eq_Nil_conv eq_commute [of "[]"])
next
  case (Cons e es)
  obtain k ev hash where e: "e = (k, ev, hash)"
    by (cases e)
  show ?case
  proof (cases "k = h \<and> (k = pd_height p \<longrightarrow> hash = pd_block_hash p) \<and> (k = pd_height m \<longrightarrow> hash = pd_block_hash m)")
    case True
    have h: "h < n" "[h..<n] = h # [Suc h..<n]" "add64 h 1 = Some (Suc h)"
      using Cons.prems e True by (auto simp: upt_rec add64_def)
    obtain r where r: "staking_loop p m es (Suc h) (if k \<noteq> pd_height p then acc @ ev else acc) = Some r"
      "\<And>res. r = Inr (n, res) \<longleftrightarrow> map fst es = [Suc h..<n] \<and>
        (\<forall>e\<in>set es. (fst e = pd_height p \<longrightarrow> snd (snd e) = pd_block_hash p) \<and> (fst e = pd_height m \<longrightarrow> snd (snd e) = pd_block_hash m)) \<and>
        res = (if k \<noteq> pd_height p then acc @ ev else acc) @ concat (map (\<lambda>e. if fst e = pd_height p then [] else fst (snd e)) es)"
      using Cons.IH [of "Suc h" "if k \<noteq> pd_height p then acc @ ev else acc"] Cons.prems True h(1) e by (auto simp: Suc_le_eq)
    then show ?thesis
      using True h by (auto simp: e)
  next
    case False
    then have "\<exists>s. staking_loop p m (e # es) h acc = Some (Inl s)"
      by (auto simp: e)
    moreover have "k = h" if "map fst (e # es) = [h..<n]"
      using that by (subst (asm) upt_rec) (auto simp: e split: if_splits)
    then have "\<not> (map fst (e # es) = [h..<n] \<and> (\<forall>e\<in>set (e # es). (fst e = pd_height p \<longrightarrow> snd (snd e) = pd_block_hash p) \<and>
      (fst e = pd_height m \<longrightarrow> snd (snd e) = pd_block_hash m)))"
      using False by (force simp: e)
    ultimately show ?thesis
      by auto
  qed
qed

lemma ends_iff:
  fixes a b :: nat
  assumes "a < b"
  shows "(\<forall>h v. a \<le> h \<and> h < Suc b \<and> f h = Some v \<longrightarrow> (h = a \<longrightarrow> P v) \<and> (h = b \<longrightarrow> Q v)) \<longleftrightarrow>
    (\<forall>v. f a = Some v \<longrightarrow> P v) \<and> (\<forall>v. f b = Some v \<longrightarrow> Q v)" (is "?l \<longleftrightarrow> ?r")
proof
  assume l: ?l
  show ?r
    using l [rule_format, of a] l [rule_format, of b] assms by auto
qed (auto simp: less_Suc_eq)

lemma complete_iff:
  "try_res r (\<lambda>(k, evs). if k \<noteq> n then Inl s else Inr evs) = Inr res \<longleftrightarrow> r = Inr (n, res)"
  by (cases r) (auto split: if_splits)

lemma range_keys:
  assumes "bt_ok m"
  shows "map fst (filter (\<lambda>e. a \<le> fst e \<and> fst e < n) m) = [a..<n] \<longleftrightarrow> (\<forall>h. a \<le> h \<and> h < n \<longrightarrow> map_of m h \<noteq> None)"
    (is "map fst ?es = _ \<longleftrightarrow> ?all")
proof -
  have keys: "set (map fst ?es) = {h. a \<le> h \<and> h < n \<and> map_of m h \<noteq> None}"
    by (force simp: map_of_eq_None_iff)
  have "sorted_wrt (<) (map fst ?es)"
    using assms by (auto simp: bt_ok_def sorted_wrt_map sorted_wrt_filter)
  then have "map fst ?es = [a..<n] \<longleftrightarrow> set (map fst ?es) = set [a..<n]"
    by (intro iffI strict_sorted_equal [OF sorted_wrt_upt]) (simp_all only:)
  then show ?thesis
    unfolding keys by auto
qed

lemma get_staking_events_iff:
  assumes "bt_ok (db_staking_events db)" and "pd_height p < pd_height m" and "pd_height m < U64_MAX"
  shows "\<exists>r. get_staking_events p m db = Some r \<and>
    (\<forall>res. r = Inr res \<longleftrightarrow> covered db p m \<and> res = concat (map (events_at db) [Suc (pd_height p)..<Suc (pd_height m)]))"
proof -
  let ?p = "pd_height p" and ?n = "Suc (pd_height m)"
  define es where "es = filter (\<lambda>e. ?p \<le> fst e \<and> fst e < ?n) (db_staking_events db)"
  have d: "distinct (map fst (db_staking_events db))"
    using bt_ok_distinct [OF assms(1)] .
  have es: "(h, v) \<in> set es \<longleftrightarrow> ?p \<le> h \<and> h < ?n \<and> map_of (db_staking_events db) h = Some v" for h v
    by (auto simp: es_def map_of_eq_Some_iff [OF d])
  have so: "sorted_wrt (<) (map fst es)" and bound: "\<forall>e\<in>set es. ?p \<le> fst e \<and> fst e < ?n"
    using assms(1) by (auto simp: es_def bt_ok_def sorted_wrt_map sorted_wrt_filter)
  have n: "?n \<le> U64_MAX" "?p \<le> ?n"
    using assms(2,3) by simp_all
  obtain r where r: "staking_loop p m es ?p [] = Some r"
    "\<And>res. r = Inr (?n, res) \<longleftrightarrow> map fst es = [?p..<?n] \<and>
      (\<forall>e\<in>set es. (fst e = ?p \<longrightarrow> snd (snd e) = pd_block_hash p) \<and> (fst e = pd_height m \<longrightarrow> snd (snd e) = pd_block_hash m)) \<and>
      res = concat (map (\<lambda>e. if fst e = ?p then [] else fst (snd e)) es)"
    using staking_loop_iff [OF so bound n(1) order_refl n(2), of m "[]", unfolded append_Nil] by (elim exE conjE) blast
  have all: "map fst es = [?p..<?n] \<longleftrightarrow> (\<forall>h. ?p \<le> h \<and> h < ?n \<longrightarrow> map_of (db_staking_events db) h \<noteq> None)"
    unfolding es_def by (rule range_keys [OF assms(1)])
  have cov: "covered db p m \<longleftrightarrow> map fst es = [?p..<?n] \<and>
    (\<forall>e\<in>set es. (fst e = ?p \<longrightarrow> snd (snd e) = pd_block_hash p) \<and> (fst e = pd_height m \<longrightarrow> snd (snd e) = pd_block_hash m))"
  proof -
    have ball: "(\<forall>e\<in>set es. P e) \<longleftrightarrow> (\<forall>h v. ?p \<le> h \<and> h < ?n \<and> map_of (db_staking_events db) h = Some v \<longrightarrow> P (h, v))" for P
      unfolding es [symmetric] by auto
    have hash: "map_option snd x = Some b \<longleftrightarrow> x \<noteq> None \<and> (\<forall>v. x = Some v \<longrightarrow> snd v = b)" for x :: "(staking_event list \<times> bytes) option" and b
      by (cases x) auto
    have e: "(\<forall>e\<in>set es. (fst e = ?p \<longrightarrow> snd (snd e) = pd_block_hash p) \<and> (fst e = pd_height m \<longrightarrow> snd (snd e) = pd_block_hash m)) \<longleftrightarrow>
      (\<forall>v. map_of (db_staking_events db) ?p = Some v \<longrightarrow> snd v = pd_block_hash p) \<and>
      (\<forall>v. map_of (db_staking_events db) (pd_height m) = Some v \<longrightarrow> snd v = pd_block_hash m)"
      unfolding ball fst_conv snd_conv by (rule ends_iff [OF assms(2)])
    show ?thesis
      unfolding covered_def all e hash less_Suc_eq_le using less_imp_le_nat [OF assms(2)] by blast
  qed
  have ev: "map (\<lambda>e. if fst e = ?p then [] else fst (snd e)) es = map (\<lambda>h. if h = ?p then [] else events_at db h) (map fst es)"
    using es by (auto simp: events_at_def)
  have up: "[?p..<?n] = ?p # [Suc ?p..<?n]"
    using assms(2) by (simp add: upt_conv_Cons del: upt_Suc)
  have tail: "concat (map (\<lambda>h. if h = ?p then [] else events_at db h) [Suc ?p..<?n]) = concat (map (events_at db) [Suc ?p..<?n])"
    by (intro arg_cong [where f = concat] map_cong) auto
  have "concat (map (\<lambda>e. if fst e = ?p then [] else fst (snd e)) es) = concat (map (events_at db) [Suc ?p..<?n])"
    if "map fst es = [?p..<?n]"
    unfolding ev that up list.map concat.simps tail if_P [OF refl] append_Nil ..
  then have "r = Inr (?n, res) \<longleftrightarrow> covered db p m \<and> res = concat (map (events_at db) [Suc ?p..<?n])" for res
    unfolding r(2) cov conj_assoc by (intro conj_cong refl) (simp only:)
  moreover have "get_staking_events p m db = Some (try_res r (\<lambda>(k, evs). if k \<noteq> ?n then Inl ''incomplete staking events'' else Inr evs))"
    using assms(2,3) r(1) by (auto simp: get_staking_events_def add64_def es_def)
  ultimately show ?thesis
    by (intro exI conjI allI) (assumption, simp only: complete_iff)
qed

section \<open>Properties\<close>

fun query_chain :: "consensus_db \<Rightarrow> pivot_block_decision \<Rightarrow> pivot_block_decision list \<Rightarrow> staking_event list list \<Rightarrow> bool" where
  "query_chain db d [] rs \<longleftrightarrow> rs = []"
| "query_chain db d (m # ms) rs \<longleftrightarrow> (case rs of [] \<Rightarrow> False | r # rs' \<Rightarrow>
     pd_height d < pd_height m \<and> get_staking_events d m db = Some (Inr r) \<and> query_chain db m ms rs')"

lemma get_staking_events_Inr:
  assumes "bt_ok (db_staking_events db)" and "pd_height p < pd_height m" and "pd_height m < U64_MAX"
  shows "get_staking_events p m db = Some (Inr res) \<longleftrightarrow>
    covered db p m \<and> res = concat (map (events_at db) [Suc (pd_height p)..<Suc (pd_height m)])"
  using get_staking_events_iff [OF assms] by (elim exE conjE) (simp only: option.inject)

lemma covered_trans:
  "covered db a b \<Longrightarrow> covered db b c \<Longrightarrow> covered db a c"
  unfolding covered_def
proof (intro conjI allI impI)
  fix h
  assume ab: "(\<forall>h. pd_height a \<le> h \<and> h \<le> pd_height b \<longrightarrow> map_of (db_staking_events db) h \<noteq> None) \<and>
      map_option snd (map_of (db_staking_events db) (pd_height a)) = Some (pd_block_hash a) \<and>
      map_option snd (map_of (db_staking_events db) (pd_height b)) = Some (pd_block_hash b)"
    and bc: "(\<forall>h. pd_height b \<le> h \<and> h \<le> pd_height c \<longrightarrow> map_of (db_staking_events db) h \<noteq> None) \<and>
      map_option snd (map_of (db_staking_events db) (pd_height b)) = Some (pd_block_hash b) \<and>
      map_option snd (map_of (db_staking_events db) (pd_height c)) = Some (pd_block_hash c)"
    and h: "pd_height a \<le> h \<and> h \<le> pd_height c"
  show "map_of (db_staking_events db) h \<noteq> None"
    using ab bc h by (cases "h \<le> pd_height b") auto
qed simp_all

lemma query_chain_eq:
  assumes "bt_ok (db_staking_events db)"
  shows "query_chain db d (m # ms) rs \<Longrightarrow> \<forall>x\<in>set (m # ms). pd_height x < U64_MAX \<Longrightarrow>
    pd_height d < pd_height (last (m # ms)) \<and> covered db d (last (m # ms)) \<and>
    concat rs = concat (map (events_at db) [Suc (pd_height d)..<Suc (pd_height (last (m # ms)))])"
  supply upt_Suc [simp del]
proof (induction ms arbitrary: d m rs)
  case Nil
  then show ?case
    using get_staking_events_Inr [OF assms] by (auto split: list.splits)
next
  case (Cons n ms)
  obtain r rs' where r: "rs = r # rs'" "pd_height d < pd_height m" "get_staking_events d m db = Some (Inr r)" "query_chain db m (n # ms) rs'"
    using Cons.prems(1) by (auto split: list.splits)
  have IH: "pd_height m < pd_height (last (n # ms))" "covered db m (last (n # ms))"
    "concat rs' = concat (map (events_at db) [Suc (pd_height m)..<Suc (pd_height (last (n # ms)))])"
    using Cons.IH [OF r(4)] Cons.prems(2) by auto
  have d: "covered db d m" "r = concat (map (events_at db) [Suc (pd_height d)..<Suc (pd_height m)])"
    using get_staking_events_Inr [OF assms r(2)] r(3) Cons.prems(2) by auto
  have "[Suc (pd_height d)..<Suc (pd_height (last (n # ms)))] =
    [Suc (pd_height d)..<Suc (pd_height m)] @ [Suc (pd_height m)..<Suc (pd_height (last (n # ms)))]"
    using upt_add_eq_append [of "Suc (pd_height d)" "Suc (pd_height m)" "pd_height (last (n # ms)) - pd_height m"] r(2) IH(1) by simp
  then show ?case
    using r(1,2) IH covered_trans [OF d(1) IH(2)] d(2) by simp
qed

lemma get_staking_events_delete:
  assumes "k \<le> pd_height p"
  shows "get_staking_events p m (fst (delete_staking_events_before io k db)) = get_staking_events p m db"
proof -
  have "filter (\<lambda>e. pd_height p \<le> fst e \<and> fst e < n) (filter (\<lambda>e. \<not> fst e < k) es) =
    filter (\<lambda>e. pd_height p \<le> fst e \<and> fst e < n) es" for n and es :: "(nat, staking_event list \<times> bytes) btree"
    using assms by (auto simp: filter_filter intro!: filter_cong)
  then show ?thesis
    by (simp add: delete_staking_events_before_def db_commit_def get_staking_events_def)
qed

lemma query_chain_delete:
  "k \<le> pd_height d \<Longrightarrow> query_chain (fst (delete_staking_events_before io k db)) d ms rs \<longleftrightarrow> query_chain db d ms rs"
proof (induction ms arbitrary: d rs)
  case (Cons m ms)
  then show ?case
    by (cases rs) (auto simp: get_staking_events_delete)
qed simp

text \<open>
  C15. Staking events: when the pivot decisions of consecutive blocks are queried one after the other, the answers together
  are the answer to the query from the first to the last decision, and they hold the events of every height above
  the first decision up to the last one, each height once and in order. Deleting the events below the first
  decision changes no answer.
\<close>

theorem staking_events_once:
  assumes "bt_ok (db_staking_events db)" and "ms \<noteq> []" and "\<forall>x\<in>set ms. pd_height x < U64_MAX" and "query_chain db d ms rs"
  shows "get_staking_events d (last ms) db = Some (Inr (concat rs)) \<and>
    concat rs = concat (map (events_at db) [Suc (pd_height d)..<Suc (pd_height (last ms))]) \<and>
    (\<forall>io k. k \<le> pd_height d \<longrightarrow> query_chain (fst (delete_staking_events_before io k db)) d ms rs)"
proof -
  have "pd_height d < pd_height (last ms)" "covered db d (last ms)" "pd_height (last ms) < U64_MAX"
    "concat rs = concat (map (events_at db) [Suc (pd_height d)..<Suc (pd_height (last ms))])"
    using query_chain_eq [OF assms(1), of d "hd ms" "tl ms" rs] assms(2-4) by simp_all
  then show ?thesis
    using assms(4) query_chain_delete by (simp only: get_staking_events_Inr [OF assms(1)] simp_thms) blast
qed

text \<open>Three heights of the PoW chain, the last with two events.\<close>

definition sample_db :: consensus_db where
  "sample_db = \<lparr>db_last_vote = None, db_highest_timeout_certificate = None, db_blocks = Map.empty, db_quorum_certs = Map.empty,
     db_staking_events = [(4, [], [4]), (5, [StIncreaseStake 1 2], [5]), (6, [StRetire 1 1, StIncreaseStake 2 3], [6])],
     db_ledger_blocks = Map.empty\<rparr>"

theorem staking_events_once_witness:
  "get_staking_events \<lparr>pd_height = 4, pd_block_hash = [4]\<rparr> \<lparr>pd_height = 6, pd_block_hash = [6]\<rparr> sample_db =
     Some (Inr [StIncreaseStake 1 2, StRetire 1 1, StIncreaseStake 2 3])"
proof -
  let ?ms = "[\<lparr>pd_height = 5, pd_block_hash = [5]\<rparr>, \<lparr>pd_height = 6, pd_block_hash = [6]\<rparr>]"
  let ?rs = "[[StIncreaseStake 1 2], [StRetire 1 1, StIncreaseStake 2 3]]"
  have "query_chain sample_db \<lparr>pd_height = 4, pd_block_hash = [4]\<rparr> ?ms ?rs"
    by (simp add: get_staking_events_def sample_db_def add64_def U64_MAX_def)
  moreover have "bt_ok (db_staking_events sample_db)"
    by (simp add: bt_ok_def sample_db_def)
  ultimately show ?thesis
    using staking_events_once [of sample_db ?ms "\<lparr>pd_height = 4, pd_block_hash = [4]\<rparr>" ?rs] by (simp add: U64_MAX_def)
qed

end
