(* ===== verification/Spec2Isabelle.thy ===== *)
theory Spec2Isabelle
  imports Lock_Props Bft_Safety Election_Props Commit_Props Round_State Consensus_Db
begin

text \<open>
  A verification development of the proof-of-stake (PoS) finality layer of Conflux: \<^verbatim>\<open>crates/pos\<close> and
  \<^verbatim>\<open>crates/cfxcore/core/src/pos\<close>. A committee, elected from the nodes that have locked stake on the
  proof-of-work (PoW) chain, runs a chained BFT protocol whose blocks finalize pivot blocks of the PoW chain.

  \<^bold>\<open>The program and how its parts interact.\<close>
  A validator collects the votes of a round and forms certificates from them (pending votes, round state). It
  keeps the blocks that are not committed yet, and the certificates, in a tree (block tree, block store).
  It votes for a proposal only when its safety rules allow it; these keep their data in a storage that
  survives crashes. A block is executed on the state of its parent: the virtual machine turns transactions
  into events, the executor applies the events to the PoS state, checks the staking transactions against the
  PoW chain and moves the state to the next view; the results of blocks that are not committed yet are kept
  in the speculation cache. Once a block is committed the executor persists it; at the end of an epoch it counts
  the votes, retires silent members and computes rewards. The PoS state holds the stake of every node (lock
  status), the terms with their elections and committees, and from it the validators of the next epoch.

  \<^bold>\<open>Theories.\<close>
  \<^item> \<open>Prelude\<close>: checked machine integers (the release profile has \<^verbatim>\<open>overflow-checks = true\<close>, so an overflow
    is a panic), sorted association lists for \<^verbatim>\<open>BTreeMap\<close>, the result and option combinators.
  \<^item> \<open>Pos_Config\<close>, \<open>Lock_Status\<close>, \<open>Lock_Props\<close>: \<^verbatim>\<open>term_state/pos_state_config.rs\<close>,
    \<^verbatim>\<open>term_state/lock_status.rs\<close> and the incentives of \<^verbatim>\<open>term_state.rs\<close>. Terms and views determine each
    other; locking, unlocking, retiring and forfeiting conserve the votes, never panic and release votes on time.
  \<^item> \<open>Validator\<close>: \<^verbatim>\<open>validator_verifier.rs\<close>, \<^verbatim>\<open>epoch_state.rs\<close>. Voting power and aggregated signatures;
    the locale \<open>quorum_system\<close> and its interpretation on the validator set give the intersection of quorums.
  \<^item> \<open>Accumulator\<close>: \<^verbatim>\<open>proof/accumulator/mod.rs\<close>, the extension proof of \<^verbatim>\<open>proof/definition.rs\<close>. The
    incremental accumulator is the Merkle tree of its leaves.
  \<^item> \<open>Consensus_Types\<close>, \<open>Consensus_Blocks\<close>: the messages of \<^verbatim>\<open>consensus-types\<close> and their validation; an
    accepted proposal is signed, certified and in its round.
  \<^item> \<open>Secure_Storage\<close>, \<open>Safety_Rules\<close>, \<open>Safety_Example\<close>, \<open>Safety_Props\<close>: \<^verbatim>\<open>safety-rules\<close> and the stores
    of \<^verbatim>\<open>secure/storage\<close>. The lives of a validator are a step relation with failing writes, crashes and
    hand-overs; no two votes for one round, and every vote respects the lock of the earlier ones.
  \<^item> \<open>Bft_Safety\<close>: the composition. The locale \<open>three_chain\<close> extends \<open>quorum_system\<close>; it is interpreted on the
    lives of the validators of a network, and gives that committed blocks lie on one chain.
  \<^item> \<open>Pending_Votes\<close>, \<open>Round_State\<close>: \<^verbatim>\<open>pending_votes.rs\<close>, \<^verbatim>\<open>liveness/round_state.rs\<close>. Certificates that
    are formed verify; a quorum of votes gives one; rounds only advance.
  \<^item> \<open>Block_Tree\<close>, \<open>Tree_Props\<close>, \<open>Block_Store\<close>: \<^verbatim>\<open>block_storage/block_tree.rs\<close> and
    \<^verbatim>\<open>block_storage/block_store.rs\<close>. The links of the tree are consistent and its active part is a tree; the highest
    certificates are kept; a commit hands the chain up to the committed block to the executor and prunes the rest.
  \<^item> \<open>Consensus_Db\<close>: \<^verbatim>\<open>consensusdb/mod.rs\<close>. The writes of the consensus database, and the query for the staking
    events between two pivot decisions, which gives every event of the PoW chain exactly once.
  \<^item> \<open>Term_List\<close>, \<open>Pos_State\<close>: the terms and the state machine of \<^verbatim>\<open>term_state.rs\<close>. \<open>Term_Props\<close>,
    \<open>Term_Invariant\<close>, \<open>Pos_Committee\<close>, \<open>Pos_Invariant\<close>, \<open>Pos_Next\<close>, \<open>Pos_Run\<close>, \<open>Pos_Election\<close>,
    \<open>Pos_Props\<close>, \<open>Election_Props\<close>: the invariant, its preservation by every event and by the next view,
    the runs, and what follows: no assertion fails, the committee of a term is the result of its elections, the
    schedule of updates is complete, the election keeps the best candidates, when an election is valid.
  \<^item> \<open>Multi_Bls\<close>, \<open>Pos_Tx\<close>, \<open>Pos_Vm\<close>, \<open>Vm_Props\<close>: \<^verbatim>\<open>multi_bls.rs\<close>, the transactions, events and
    authenticators of \<^verbatim>\<open>pos/types\<close>, and \<^verbatim>\<open>executor/src/vm.rs\<close>; which disputes and pivot decisions are accepted.
  \<^item> \<open>Executor_Types\<close>, \<open>Speculation_Cache\<close>, \<open>Cache_Props\<close>, \<open>Executor\<close>, \<open>Executor_Props\<close>, \<open>Commit\<close>,
    \<open>Commit_Props\<close>: \<^verbatim>\<open>executor-types\<close>, \<^verbatim>\<open>speculation_cache/mod.rs\<close> and \<^verbatim>\<open>executor/src/lib.rs\<close>. The cache
    stays well formed and pruning keeps the descendants; executing a block never panics and stays in the runs of
    the state machine; staking transactions are those of the PoW chain; silent members are retired.

  \<^bold>\<open>Conventions.\<close> A \<^verbatim>\<open>u64\<close> or \<^verbatim>\<open>usize\<close> is a natural number with checked operations. \<open>None\<close> is a panic (an
  overflow, a failed assertion, an index out of range, a failed \<^verbatim>\<open>unwrap\<close>), a \<^verbatim>\<open>Result\<close> is a sum. Methods
  take and return the record of their state. A \<^verbatim>\<open>BTreeMap\<close> is a sorted association list, a \<^verbatim>\<open>HashMap\<close> a
  partial map, addresses, hashes, keys and signatures are numbers. Hash functions, signature schemes, the VRF,
  serialization, the clock, the results of writing to a storage and the PoW chain are arguments; what is needed
  of them (no collisions among the values that occur, signatures that are not forged, decoding after encoding) are
  hypotheses of the theorems that use them, and every such theorem has an instance on concrete functions.

  \<^bold>\<open>Loops and bounds.\<close> Recursion is structural or has a termination proof, except two loops of
  \<open>Commit\<close> that follow the parents of a block through the database: they are partial functions, with a result
  for every finite chain of blocks (\<open>epoch_chain\<close>), and the loops of \<open>Block_Tree\<close> over the parent and child
  links, which have a result in every tree that satisfies the invariant. Hypotheses such as \<open>m \<le> U64_MAX\<close> bound
  the votes, views and leaves that occur, never the number of steps.

  \<^bold>\<open>Not modelled.\<close> The PoW side (tree graph consensus, synchronization, transaction pool, light node), the EVM
  and its state storage, networking, RPC and the client are separate programs that meet the PoS layer only in the
  interfaces given as arguments here. Of the PoS layer itself, the ledger database and the
  recovery at a restart, the network, the
  asynchronous tasks of the epoch manager and round manager, state synchronization, the memory pool and the
  cryptographic primitives are not modelled; logging and metrics are left out everywhere.
\<close>

end
